(* ===== verification/Zulu_Prelude.thy ===== *)
theory Zulu_Prelude
  imports Main "HOL-Library.Word"
begin

unbundle bit_operations_syntax

text \<open>
  What every component of the development shares: the names of Rust's machine integers,
  the outcome of running a piece of kernel code (a value, a panic, or no return at all),
  the arithmetic of Rust under both build profiles, the \<^verbatim>\<open>for\<close> loop, formatted output, numbers
  and UTF-8, and the invariant principle for step relations.
\<close>

section \<open>Machine integers\<close>

type_synonym u8 = "8 word"
type_synonym u32 = "32 word"
type_synonym u64 = "64 word"
type_synonym usize = "64 word"

section \<open>Outcomes\<close>

text \<open>
  A Rust call returns a value, panics (an \<^verbatim>\<open>unwrap\<close> or \<^verbatim>\<open>expect\<close> on an error, an index out
  of bounds, an arithmetic overflow with the checks on), never returns (\<^verbatim>\<open>hlt_loop\<close>, a spin
  lock that is never released), ends the machine through the exit device of the emulator, with a
  code, or, in \<^verbatim>\<open>unsafe\<close> code whose obligations are not met, has
  undefined behaviour. The kernel is built with \<^verbatim>\<open>panic-strategy: abort\<close>, so a
  panic ends the computation and no state survives it.
\<close>

datatype 'a outcome = Ret 'a | Panic | Diverge | PowerOff u32 | UB

primrec obind :: "'a outcome \<Rightarrow> ('a \<Rightarrow> 'b outcome) \<Rightarrow> 'b outcome" where
  "obind (Ret x) f = f x"
| "obind Panic f = Panic"
| "obind Diverge f = Diverge"
| "obind (PowerOff v) f = PowerOff v"
| "obind UB f = UB"

definition unwrap :: "'a option \<Rightarrow> 'a outcome" where
  "unwrap x = (case x of None \<Rightarrow> Panic | Some v \<Rightarrow> Ret v)"

definition unwrap_result :: "'e + 'a \<Rightarrow> 'a outcome" where
  "unwrap_result r = (case r of Inl e \<Rightarrow> Panic | Inr v \<Rightarrow> Ret v)"

text \<open>The loop \<^verbatim>\<open>for x in xs { .. }\<close> over a state, left at the first panic or divergence.\<close>

primrec for_each :: "('a \<Rightarrow> 's \<Rightarrow> 's outcome) \<Rightarrow> 'a list \<Rightarrow> 's \<Rightarrow> 's outcome" where
  "for_each f [] s = Ret s"
| "for_each f (x # xs) s = obind (f x s) (for_each f xs)"

section \<open>Arithmetic under the two build profiles\<close>

text \<open>
  \<^verbatim>\<open>cargo\<close> compiles overflow checks into the debug profile and leaves them out of the release
  profile. The first argument says whether they are on: then an overflow panics, otherwise the
  result wraps around.
\<close>

definition add_chk :: "bool \<Rightarrow> 'a::len word \<Rightarrow> 'a word \<Rightarrow> 'a word outcome" where
  "add_chk oc a b = (if oc \<and> 2 ^ LENGTH('a) \<le> unat a + unat b then Panic else Ret (a + b))"

definition sub_chk :: "bool \<Rightarrow> 'a::len word \<Rightarrow> 'a word \<Rightarrow> 'a word outcome" where
  "sub_chk oc a b = (if oc \<and> unat a < unat b then Panic else Ret (a - b))"

section \<open>Formatted output\<close>

text \<open>
  \<^verbatim>\<open>core::fmt::Write::write_fmt\<close>: the pieces the formatting machinery renders are handed to
  \<^verbatim>\<open>write_str\<close> in order, and the first error ends the call. A piece is its UTF-8 bytes.
\<close>

fun write_fmt :: "(u8 list \<Rightarrow> 'w \<Rightarrow> ((unit + unit) \<times> 'w) outcome) \<Rightarrow> u8 list list \<Rightarrow> 'w
    \<Rightarrow> ((unit + unit) \<times> 'w) outcome" where
  "write_fmt wstr [] w = Ret (Inr (), w)"
| "write_fmt wstr (p # ps) w =
     obind (wstr p w) (\<lambda>(r, w).
       case r of Inl e \<Rightarrow> Ret (Inl e, w) | Inr _ \<Rightarrow> write_fmt wstr ps w)"

section \<open>Formatting of numbers\<close>

function radix :: "nat \<Rightarrow> nat \<Rightarrow> nat list" where
  "radix r n = (if r < 2 \<or> n < r then [n] else radix r (n div r) @ [n mod r])"
  by pat_completeness auto

termination radix
  by (relation "measure snd") auto

definition digit :: "nat \<Rightarrow> u8" where
  "digit d = (if d < 10 then word_of_nat (0x30 + d) else word_of_nat (0x41 + d - 10))"

definition fmt_dec :: "usize \<Rightarrow> u8 list" where
  "fmt_dec n = map digit (radix 10 (unat n))"

definition fmt_HEX :: "usize \<Rightarrow> u8 list" where
  "fmt_HEX n = map digit (radix 16 (unat n))"

definition str :: "string \<Rightarrow> u8 list" where
  "str s = map of_char s"

section \<open>UTF-8\<close>

text \<open>A \<^verbatim>\<open>char\<close> is printed as its UTF-8 encoding.\<close>

definition encode_utf8 :: "u32 \<Rightarrow> u8 list" where
  "encode_utf8 c = (let n = unat c in
     if n < 0x80 then [word_of_nat n]
     else if n < 0x800 then [word_of_nat (0xc0 + n div 64), word_of_nat (0x80 + n mod 64)]
     else if n < 0x10000 then [word_of_nat (0xe0 + n div 4096), word_of_nat (0x80 + n div 64 mod 64),
       word_of_nat (0x80 + n mod 64)]
     else [word_of_nat (0xf0 + n div 262144), word_of_nat (0x80 + n div 4096 mod 64),
       word_of_nat (0x80 + n div 64 mod 64), word_of_nat (0x80 + n mod 64)])"

text \<open>\<^verbatim>\<open>core::str::from_utf8\<close>: the bytes themselves if they are well-formed UTF-8.\<close>

definition utf8_cont :: "u8 \<Rightarrow> bool" where
  "utf8_cont b \<longleftrightarrow> 0x80 \<le> b \<and> b \<le> 0xbf"

fun valid_utf8 :: "u8 list \<Rightarrow> bool" where
  "valid_utf8 [] = True"
| "valid_utf8 (b # bs) =
     (if b \<le> 0x7f then valid_utf8 bs
      else if 0xc2 \<le> b \<and> b \<le> 0xdf then (case bs of c # bs \<Rightarrow> utf8_cont c \<and> valid_utf8 bs | _ \<Rightarrow> False)
      else if 0xe0 \<le> b \<and> b \<le> 0xef then
        (case bs of c # d # bs \<Rightarrow> utf8_cont c \<and> (b = 0xe0 \<longrightarrow> 0xa0 \<le> c) \<and> (b = 0xed \<longrightarrow> c \<le> 0x9f) \<and> utf8_cont d \<and> valid_utf8 bs
         | _ \<Rightarrow> False)
      else if 0xf0 \<le> b \<and> b \<le> 0xf4 then
        (case bs of c # d # e # bs \<Rightarrow> utf8_cont c \<and> (b = 0xf0 \<longrightarrow> 0x90 \<le> c) \<and> (b = 0xf4 \<longrightarrow> c \<le> 0x8f) \<and>
           utf8_cont d \<and> utf8_cont e \<and> valid_utf8 bs
         | _ \<Rightarrow> False)
      else False)"

definition from_utf8 :: "u8 list \<Rightarrow> u8 list option" where
  "from_utf8 bs = (if valid_utf8 bs then Some bs else None)"

section \<open>Step relations\<close>

inductive reach :: "('s \<Rightarrow> bool) \<Rightarrow> ('s \<Rightarrow> 's \<Rightarrow> bool) \<Rightarrow> 's \<Rightarrow> bool"
  for init :: "'s \<Rightarrow> bool" and step :: "'s \<Rightarrow> 's \<Rightarrow> bool" where
  reach_init: "init s \<Longrightarrow> reach init step s"
| reach_step: "reach init step s \<Longrightarrow> step s t \<Longrightarrow> reach init step t"

section \<open>Layout of structures\<close>

text \<open>
  A \<^verbatim>\<open>repr(C)\<close> structure has its fields in order, each at the next multiple of its alignment; the
  alignment of the structure is the largest of a field. A field is its name, size and alignment.
\<close>

type_synonym field = "string \<times> nat \<times> nat"

definition next_multiple :: "nat \<Rightarrow> nat \<Rightarrow> nat" where
  "next_multiple a n = (n + a - 1) div a * a"

fun offset_from :: "nat \<Rightarrow> field list \<Rightarrow> string \<Rightarrow> nat option" where
  "offset_from n [] x = None"
| "offset_from n ((f, sz, al) # fs) x =
     (let m = next_multiple al n in if f = x then Some m else offset_from (m + sz) fs x)"

definition offset_of :: "field list \<Rightarrow> string \<Rightarrow> nat option" where
  "offset_of = offset_from 0"

fun align_of :: "field list \<Rightarrow> nat" where
  "align_of [] = 1"
| "align_of ((f, sz, al) # fs) = max al (align_of fs)"

section \<open>Collections of facts\<close>

named_theorems outcome_simps \<open>equations that evaluate outcomes\<close>

lemma unwrap_simps [simp]: "unwrap (Some v) = Ret v" "unwrap None = Panic"
  by (simp_all add: unwrap_def)

lemma unwrap_result_simps [simp]: "unwrap_result (Inr v) = Ret v" "unwrap_result (Inl e) = Panic"
  by (simp_all add: unwrap_result_def)

lemma obind_eq_Ret [outcome_simps]:
  "obind m f = Ret y \<longleftrightarrow> (\<exists>x. m = Ret x \<and> f x = Ret y)"
  by (cases m) auto

lemma obind_eq_Panic [outcome_simps]:
  "obind m f = Panic \<longleftrightarrow> m = Panic \<or> (\<exists>x. m = Ret x \<and> f x = Panic)"
  by (cases m) auto

lemma obind_eq_Diverge [outcome_simps]:
  "obind m f = Diverge \<longleftrightarrow> m = Diverge \<or> (\<exists>x. m = Ret x \<and> f x = Diverge)"
  by (cases m) auto

lemma obind_eq_PowerOff [outcome_simps]:
  "obind m f = PowerOff v \<longleftrightarrow> m = PowerOff v \<or> (\<exists>x. m = Ret x \<and> f x = PowerOff v)"
  by (cases m) auto

lemma obind_eq_UB [outcome_simps]:
  "obind m f = UB \<longleftrightarrow> m = UB \<or> (\<exists>x. m = Ret x \<and> f x = UB)"
  by (cases m) auto

lemma unwrap_eq_Ret [outcome_simps]: "unwrap x = Ret v \<longleftrightarrow> x = Some v"
  by (cases x) auto

lemma unwrap_result_eq_Ret [outcome_simps]: "unwrap_result r = Ret v \<longleftrightarrow> r = Inr v"
  by (cases r) auto

text \<open>A case distinction that returns did so in one of its branches.\<close>

lemma case_sum_eq_Ret:
  "(case r of Inl e \<Rightarrow> f e | Inr v \<Rightarrow> g v) = Ret y \<longleftrightarrow>
     (\<exists>e. r = Inl e \<and> f e = Ret y) \<or> (\<exists>v. r = Inr v \<and> g v = Ret y)"
  by (cases r) auto

lemma case_option_eq_Ret:
  "(case x of None \<Rightarrow> m | Some v \<Rightarrow> g v) = Ret y \<longleftrightarrow>
     x = None \<and> m = Ret y \<or> (\<exists>v. x = Some v \<and> g v = Ret y)"
  by (cases x) auto

lemmas case_eq_Ret = case_sum_eq_Ret case_option_eq_Ret

lemma obind_assoc: "obind (obind m f) g = obind m (\<lambda>x. obind (f x) g)"
  by (cases m) auto

lemma obind_Ret_right [simp]: "obind m Ret = m"
  by (cases m) auto

lemma for_each_append:
  "for_each f (xs @ ys) s = obind (for_each f xs s) (for_each f ys)"
proof (induction xs arbitrary: s)
  case (Cons x xs)
  then show ?case by (cases "f x s") auto
qed simp

text \<open>A loop whose body always returns and keeps an invariant is a fold that keeps it.\<close>

lemma for_each_pure:
  assumes "\<And>x s. x \<in> set xs \<Longrightarrow> P s \<Longrightarrow> f x s = Ret (g x s) \<and> P (g x s)" and "P s"
  shows "for_each f xs s = Ret (fold g xs s) \<and> P (fold g xs s)"
  using assms by (induction xs arbitrary: s) auto

lemma for_each_upt:
  assumes "\<And>i s. i < n \<Longrightarrow> I i s \<Longrightarrow> \<exists>s'. f i s = Ret s' \<and> I (Suc i) s'" and "I 0 s"
  shows "\<exists>s'. for_each f [0..<n] s = Ret s' \<and> I n s'"
  using assms(1)
proof (induction n)
  case (Suc n)
  then obtain s1 where "for_each f [0..<n] s = Ret s1" "I n s1" by auto
  moreover from this(2) obtain s2 where "f n s1 = Ret s2" "I (Suc n) s2" using Suc.prems by blast
  ultimately show ?case by (simp add: for_each_append)
qed (simp add: assms(2))

lemma for_each_inv:
  assumes "\<And>x s s'. x \<in> set xs \<Longrightarrow> P s \<Longrightarrow> f x s = Ret s' \<Longrightarrow> P s'" and "P s"
    and "for_each f xs s = Ret s'"
  shows "P s'"
  using assms by (induction xs arbitrary: s) (auto simp: outcome_simps)

lemma in_set_tl: "x \<in> set (tl xs) \<Longrightarrow> x \<in> set xs"
  by (cases xs) auto

lemma add_chk_fits:
  "unat a + unat b < 2 ^ LENGTH('a) \<Longrightarrow> add_chk oc (a::'a::len word) b = Ret (a + b)"
  by (simp add: add_chk_def)

lemma sub_chk_fits: "unat b \<le> unat a \<Longrightarrow> sub_chk oc (a::'a::len word) b = Ret (a - b)"
  by (simp add: sub_chk_def)

lemma unat_u64: "unat (w::u64) < 2 ^ 64"
  using unsigned_less [of w, where 'a = nat] by simp

lemma unat_word_of_nat64: "n < 2 ^ 64 \<Longrightarrow> unat (word_of_nat n :: u64) = n"
  by (simp add: unsigned_of_nat take_bit_nat_eq_self)

lemma unat_add_fits:
  "unat a + unat b < 2 ^ LENGTH('a) \<Longrightarrow> unat (a + b :: 'a::len word) = unat a + unat b"
  by (simp add: unat_word_ariths)

lemma unat_sub_fits: "unat b \<le> unat a \<Longrightarrow> unat (a - b :: 'a::len word) = unat a - unat b"
  by (simp add: unat_sub word_le_nat_alt)

text \<open>Clearing the low bits of a word is rounding down to a multiple of a power of two.\<close>

lemma and_not_mask_diff: "(x::'a::len word) AND NOT (mask k) = x - take_bit k x"
proof -
  have "x - (x AND mask k) = x AND NOT (x AND mask k)"
    by (rule disjunctive_diff_eq_and_not) (simp add: bit_eq_iff bit_simps)
  also have "\<dots> = x AND NOT (mask k)"
    by (rule bit_eqI) (auto simp: bit_simps)
  finally show ?thesis by (simp add: take_bit_eq_mask)
qed

lemma unat_and_not_mask: "unat ((x::'a::len word) AND NOT (mask k)) = unat x div 2 ^ k * 2 ^ k"
proof -
  have t: "unat (take_bit k x) = unat x mod 2 ^ k"
    by (simp only: unsigned_take_bit_eq take_bit_nat_def)
  then have "unat (take_bit k x) \<le> unat x" by simp
  then show ?thesis by (simp add: and_not_mask_diff unat_sub word_le_nat_alt t minus_mod_eq_div_mult)
qed

lemma word_eq_exp: "unat (a::'a::len word) = 2 ^ k \<Longrightarrow> a = 2 ^ k"
proof -
  assume h: "unat a = 2 ^ k"
  have "of_nat (unat a) = (of_nat (2 ^ k) :: 'a word)" using h by simp
  then show "a = 2 ^ k" by simp
qed

text \<open>
  The contract of an invariant: it holds in every initial state and every step keeps it. What
  the clients of the contract use is that it then holds in every reachable state.
\<close>

locale inductive_invariant =
  fixes init :: "'s \<Rightarrow> bool" and step :: "'s \<Rightarrow> 's \<Rightarrow> bool" and inv :: "'s \<Rightarrow> bool"
  assumes inv_init: "init s \<Longrightarrow> inv s"
    and inv_step: "inv s \<Longrightarrow> step s t \<Longrightarrow> inv t"
begin

lemma inv_reach: "reach init step s \<Longrightarrow> inv s"
  by (induction rule: reach.induct) (auto intro: inv_init inv_step)

end

lemma reach_mono:
  assumes "reach init step s" and "\<And>s. init s \<Longrightarrow> init' s" and "\<And>s t. step s t \<Longrightarrow> step' s t"
  shows "reach init' step' s"
  using assms(1) by (induction rule: reach.induct) (auto intro: assms(2,3) reach.intros)

text \<open>
  The contract of a refinement: an abstraction under which the initial states are initial states of
  a specification and every step, from a state in which the invariant holds, is a step of the
  specification or changes nothing there. Then everything reachable is reachable in the specification.
\<close>

locale simulation = inductive_invariant init step inv
  for init :: "'s \<Rightarrow> bool" and step :: "'s \<Rightarrow> 's \<Rightarrow> bool" and inv :: "'s \<Rightarrow> bool" +
  fixes spec_init :: "'a \<Rightarrow> bool" and spec_step :: "'a \<Rightarrow> 'a \<Rightarrow> bool" and abs :: "'s \<Rightarrow> 'a"
  assumes abs_init: "init s \<Longrightarrow> spec_init (abs s)"
    and abs_step: "inv s \<Longrightarrow> step s t \<Longrightarrow> abs t = abs s \<or> spec_step (abs s) (abs t)"
begin

lemma abs_reach: "reach init step s \<Longrightarrow> reach spec_init spec_step (abs s)"
proof (induction rule: reach.induct)
  case (reach_step s t)
  from abs_step [OF inv_reach [OF reach_step.hyps(1)] reach_step.hyps(2)] reach_step.IH
  show ?case by (auto intro: reach.reach_step)
qed (auto intro: reach.reach_init abs_init)

end

text \<open>
  The contract of an output device behind \<^verbatim>\<open>fmt::Write\<close>: on a good device \<^verbatim>\<open>write_str\<close>
  succeeds and has the effect of its bytes one after the other. Then so does any formatted
  output, whatever the pieces the formatter cuts it into.
\<close>

locale fmt_sink =
  fixes wstr :: "u8 list \<Rightarrow> 'w \<Rightarrow> ((unit + unit) \<times> 'w) outcome"
    and good :: "'w \<Rightarrow> bool" and effect :: "u8 \<Rightarrow> 'w \<Rightarrow> 'w"
  assumes wstr_effect: "good w \<Longrightarrow> wstr s w = Ret (Inr (), fold effect s w)"
    and good_effect: "good w \<Longrightarrow> good (effect b w)"
begin

lemma good_fold: "good w \<Longrightarrow> good (fold effect bs w)"
  by (induction bs arbitrary: w) (simp_all add: good_effect)

lemma write_fmt_eq: "good w \<Longrightarrow> write_fmt wstr ps w = Ret (Inr (), fold effect (concat ps) w)"
  by (induction ps arbitrary: w) (simp_all add: wstr_effect good_fold)

end

end
