(* ===== verification/Cpu.thy ===== *)
theory Cpu
  imports Zulu_Prelude
begin

text \<open>
  The part of the x86-64 architecture the assembly of the kernel uses: general registers, flags,
  segment selectors, the bases of GS, the model specific registers of the \<^verbatim>\<open>syscall\<close> instruction,
  and the instructions that occur in \<^verbatim>\<open>syscall_handler\<close>, \<^verbatim>\<open>syscall_N\<close>, \<^verbatim>\<open>enter_user_mode\<close> and
  \<^verbatim>\<open>breakpoint_handler\<close>, after the architecture manual. Memory is a map of aligned 8-byte cells;
  a push, pop or move at an unaligned address is outside of the model and has the outcome
  \<open>UB\<close>. Whether an address is mapped is the concern of the theory on user slices, not of this
  one. The record is open: the last field is the state of the rest of the kernel.
\<close>

section \<open>Registers\<close>

datatype reg = RAX | RBX | RCX | RDX | RSI | RDI | RBP | RSP
  | R8 | R9 | R10 | R11 | R12 | R13 | R14 | R15

record 's cpu =
  regs :: "reg \<Rightarrow> u64"
  rip :: u64
  rflags :: u64
  cs :: u64
  ss :: u64
  gs_base :: u64
  kernel_gs_base :: u64
  star :: u64
  lstar :: u64
  sfmask :: u64
  efer_sce :: bool        \<comment> \<open>\<^verbatim>\<open>EFER.SYSTEM_CALL_EXTENSIONS\<close>\<close>
  cr4_fsgsbase :: bool
  cells :: "u64 \<Rightarrow> u64"
  ksys :: 's

text \<open>The current privilege level is the low two bits of \<^verbatim>\<open>cs\<close>.\<close>

definition cpl :: "('s, 'z) cpu_scheme \<Rightarrow> u64" where
  "cpl c = cs c AND 3"

definition set_reg :: "reg \<Rightarrow> u64 \<Rightarrow> ('s, 'z) cpu_scheme \<Rightarrow> ('s, 'z) cpu_scheme" where
  "set_reg r v c = c\<lparr>regs := (regs c)(r := v)\<rparr>"

section \<open>Memory cells\<close>

definition store64 :: "u64 \<Rightarrow> u64 \<Rightarrow> ('s, 'z) cpu_scheme \<Rightarrow> ('s, 'z) cpu_scheme outcome" where
  "store64 a v c = (if 8 dvd unat a then Ret (c\<lparr>cells := (cells c)(a := v)\<rparr>) else UB)"

definition load64 :: "u64 \<Rightarrow> ('s, 'z) cpu_scheme \<Rightarrow> u64 outcome" where
  "load64 a c = (if 8 dvd unat a then Ret (cells c a) else UB)"

definition push64 :: "u64 \<Rightarrow> ('s, 'z) cpu_scheme \<Rightarrow> ('s, 'z) cpu_scheme outcome" where
  "push64 v c = (let sp = regs c RSP - 8 in store64 sp v (set_reg RSP sp c))"

definition pop64 :: "('s, 'z) cpu_scheme \<Rightarrow> (u64 \<times> ('s, 'z) cpu_scheme) outcome" where
  "pop64 c = obind (load64 (regs c RSP) c) (\<lambda>v. Ret (v, set_reg RSP (regs c RSP + 8) c))"

section \<open>Instructions\<close>

datatype instr =
    PUSH reg
  | POP reg
  | MOV reg reg           \<comment> \<open>destination, source\<close>
  | MOVI reg u64
  | MOV_TO_GS u64 reg     \<comment> \<open>\<^verbatim>\<open>mov gs:[offset], reg\<close>\<close>
  | MOV_FROM_GS reg u64   \<comment> \<open>\<^verbatim>\<open>mov reg, gs:[offset]\<close>\<close>
  | SWAPGS
  | CALL string
  | SYSCALL
  | SYSRETQ
  | LEAVE
  | RET
  | IRETQ

definition swapgs :: "('s, 'z) cpu_scheme \<Rightarrow> ('s, 'z) cpu_scheme" where
  "swapgs c = c\<lparr>gs_base := kernel_gs_base c, kernel_gs_base := gs_base c\<rparr>"

text \<open>
  \<^verbatim>\<open>syscall\<close> saves the address of the next instruction and the flags in \<^verbatim>\<open>rcx\<close> and \<^verbatim>\<open>r11\<close>, clears
  the flags in \<^verbatim>\<open>SFMASK\<close>, and loads the kernel selectors from bits 32 to 47 of \<^verbatim>\<open>STAR\<close>; it is
  undefined (an exception) unless enabled in \<^verbatim>\<open>EFER\<close>. Here \<open>rip\<close> is the next instruction.
  \<^verbatim>\<open>sysretq\<close> goes back, with the user selectors from bits 48 to 63.
\<close>

definition star_syscall :: "u64 \<Rightarrow> u64" where
  "star_syscall s = word_of_nat (unat s div 2 ^ 32 mod 2 ^ 16)"

definition star_sysret :: "u64 \<Rightarrow> u64" where
  "star_sysret s = word_of_nat (unat s div 2 ^ 48)"

definition syscall_instr :: "('s, 'z) cpu_scheme \<Rightarrow> ('s, 'z) cpu_scheme outcome" where
  "syscall_instr c = (if efer_sce c
     then Ret (c\<lparr>regs := (regs c)(RCX := rip c, R11 := rflags c), rip := lstar c,
       rflags := rflags c AND NOT (sfmask c),
       cs := star_syscall (star c) AND NOT 3, ss := star_syscall (star c) + 8\<rparr>)
     else Panic)"

definition sysretq :: "('s, 'z) cpu_scheme \<Rightarrow> ('s, 'z) cpu_scheme outcome" where
  "sysretq c = (if efer_sce c \<and> cpl c = 0
     then Ret (c\<lparr>rip := regs c RCX, rflags := (regs c R11 AND 0x3c7fd7) OR 2,
       cs := (star_sysret (star c) + 16) OR 3, ss := (star_sysret (star c) + 8) OR 3\<rparr>)
     else Panic)"

text \<open>\<^verbatim>\<open>iretq\<close> pops \<^verbatim>\<open>rip\<close>, \<^verbatim>\<open>cs\<close>, the flags, \<^verbatim>\<open>rsp\<close> and \<^verbatim>\<open>ss\<close>.\<close>

definition iretq :: "('s, 'z) cpu_scheme \<Rightarrow> ('s, 'z) cpu_scheme outcome" where
  "iretq c =
     obind (pop64 c) (\<lambda>(ip, c).
     obind (pop64 c) (\<lambda>(sel, c).
     obind (pop64 c) (\<lambda>(fl, c).
     obind (pop64 c) (\<lambda>(sp, c).
     obind (pop64 c) (\<lambda>(stk, c).
     Ret ((set_reg RSP sp c)\<lparr>rip := ip, cs := sel, rflags := fl, ss := stk\<rparr>))))))"

text \<open>
  One instruction. The addresses of the instructions of a code sequence are not tracked: within
  it \<open>rip\<close> stays what it was on entry, so the return address a call pushes is a stand-in. A call pushes a return address and runs the function named; when the function
  comes back the address is popped. \<^verbatim>\<open>leave\<close> is \<^verbatim>\<open>mov rsp, rbp; pop rbp\<close>.
\<close>

fun exec :: "(string \<Rightarrow> ('s, 'z) cpu_scheme \<Rightarrow> ('s, 'z) cpu_scheme outcome) \<Rightarrow> instr
    \<Rightarrow> ('s, 'z) cpu_scheme \<Rightarrow> ('s, 'z) cpu_scheme outcome" where
  "exec callee (PUSH r) c = push64 (regs c r) c"
| "exec callee (POP r) c = obind (pop64 c) (\<lambda>(v, c). Ret (set_reg r v c))"
| "exec callee (MOV d r) c = Ret (set_reg d (regs c r) c)"
| "exec callee (MOVI d v) c = Ret (set_reg d v c)"
| "exec callee (MOV_TO_GS off r) c = store64 (gs_base c + off) (regs c r) c"
| "exec callee (MOV_FROM_GS d off) c = obind (load64 (gs_base c + off) c) (\<lambda>v. Ret (set_reg d v c))"
| "exec callee SWAPGS c = (if cpl c = 0 then Ret (swapgs c) else Panic)"
| "exec callee (CALL f) c =
     obind (push64 (rip c) c) (\<lambda>c.
     obind (callee f c) (\<lambda>c.
     obind (pop64 c) (\<lambda>(ret, c). Ret (c\<lparr>rip := ret\<rparr>))))"
| "exec callee SYSCALL c = syscall_instr c"
| "exec callee SYSRETQ c = sysretq c"
| "exec callee LEAVE c =
     obind (pop64 (set_reg RSP (regs c RBP) c)) (\<lambda>(v, c). Ret (set_reg RBP v c))"
| "exec callee RET c = obind (pop64 c) (\<lambda>(v, c). Ret (c\<lparr>rip := v\<rparr>))"
| "exec callee IRETQ c = iretq c"

definition run_code :: "(string \<Rightarrow> ('s, 'z) cpu_scheme \<Rightarrow> ('s, 'z) cpu_scheme outcome) \<Rightarrow> instr list
    \<Rightarrow> ('s, 'z) cpu_scheme \<Rightarrow> ('s, 'z) cpu_scheme outcome" where
  "run_code callee code c = for_each (exec callee) code c"

section \<open>Functions called with the System V convention\<close>

text \<open>
  A compiled function \<open>f\<close> of six arguments: it leaves \<^verbatim>\<open>rbx\<close>, \<^verbatim>\<open>rbp\<close>, \<^verbatim>\<open>rsp\<close> and \<^verbatim>\<open>r12\<close> to
  \<^verbatim>\<open>r15\<close> as they were, returns its result in \<^verbatim>\<open>rax\<close>, may leave anything in the other registers
  and may use the stack from its lower end \<open>lo\<close> up to the return address. What it leaves there
  is given by the two functions \<open>junk_reg\<close> and \<open>junk_mem\<close>.
\<close>

definition callee_saved :: "reg set" where
  "callee_saved = {RBX, RBP, RSP, R12, R13, R14, R15}"

definition sysv_call :: "u64 \<Rightarrow> (('s, 'z) cpu_scheme \<Rightarrow> reg \<Rightarrow> u64) \<Rightarrow> (('s, 'z) cpu_scheme \<Rightarrow> u64 \<Rightarrow> u64)
    \<Rightarrow> (u64 \<Rightarrow> u64 \<Rightarrow> u64 \<Rightarrow> u64 \<Rightarrow> u64 \<Rightarrow> u64 \<Rightarrow> 's \<Rightarrow> (u64 \<times> 's) outcome)
    \<Rightarrow> ('s, 'z) cpu_scheme \<Rightarrow> ('s, 'z) cpu_scheme outcome" where
  "sysv_call lo junk_reg junk_mem f c =
     obind (f (regs c RDI) (regs c RSI) (regs c RDX) (regs c RCX) (regs c R8) (regs c R9) (ksys c)) (\<lambda>(v, s).
     Ret (c\<lparr>regs := (\<lambda>r. if r = RAX then v else if r \<in> callee_saved then regs c r else junk_reg c r),
       cells := (\<lambda>a. if lo \<le> a \<and> a < regs c RSP then junk_mem c a else cells c a), ksys := s\<rparr>))"

section \<open>Facts\<close>

lemma set_reg_simps [simp]:
  "regs (set_reg r v c) = (regs c)(r := v)" "rip (set_reg r v c) = rip c" "rflags (set_reg r v c) = rflags c"
  "cs (set_reg r v c) = cs c" "ss (set_reg r v c) = ss c" "gs_base (set_reg r v c) = gs_base c"
  "kernel_gs_base (set_reg r v c) = kernel_gs_base c" "star (set_reg r v c) = star c"
  "lstar (set_reg r v c) = lstar c" "sfmask (set_reg r v c) = sfmask c" "efer_sce (set_reg r v c) = efer_sce c"
  "cells (set_reg r v c) = cells c" "ksys (set_reg r v c) = ksys c" "cpl (set_reg r v c) = cpl c"
  by (simp_all add: set_reg_def cpl_def)

lemma callee_saved_simps [simp]:
  "RSP \<in> callee_saved" "RBP \<in> callee_saved" "RBX \<in> callee_saved" "RAX \<notin> callee_saved" "RCX \<notin> callee_saved"
  "R11 \<notin> callee_saved" "R10 \<notin> callee_saved"
  by (simp_all add: callee_saved_def)

text \<open>Addresses on an aligned stack.\<close>

lemma sub8_aligned: "8 dvd unat (a :: u64) \<Longrightarrow> 8 \<le> unat a \<Longrightarrow> 8 dvd unat (a - 8) \<and> unat (a - 8) = unat a - 8"
  using unat_sub_fits [of 8 a] by simp

lemma run_code_Nil [simp]: "run_code callee [] c = Ret c"
  by (simp add: run_code_def)

lemma run_code_Cons [simp]:
  "run_code callee (i # is) c = obind (exec callee i c) (run_code callee is)"
  by (simp add: run_code_def [abs_def])

end
