(* ===== verification/Paging.thy ===== *)
theory Paging
  imports Zulu_Prelude
begin

text \<open>
  The interface of the \<^verbatim>\<open>x86_64\<close> crate the kernel is written against: canonical addresses,
  pages, frames, page-table flags and the page mapper. The crate is not part of the repository,
  so its operations are the fields of the record \<open>paging\<close> and every definition that uses them
  takes the record as an argument. What the kernel relies on is stated in the predicates
  \<open>addr_docs\<close>, \<open>page_docs\<close> and \<open>mapper_docs\<close>, each a transcription of the crate's documentation.
  \<open>std_paging\<close> is a concrete instance that satisfies all of them.

  The last section has the memory behind the mapper: the kernel reads and writes physical
  bytes through the translation, and an access that the translation does not allow ends in
  \<^verbatim>\<open>page_fault_handler\<close> of \<^verbatim>\<open>kernel/src/interrupts.rs\<close>, which panics.
\<close>

section \<open>Addresses, pages, flags\<close>

type_synonym VirtAddr = u64
type_synonym PhysAddr = u64
type_synonym Page = u64       \<comment> \<open>a 4 KiB page, by its start address\<close>
type_synonym PhysFrame = u64  \<comment> \<open>a 4 KiB frame, by its start address\<close>

text \<open>
  \<^verbatim>\<open>PageTableFlags\<close> is generated by the \<^verbatim>\<open>bitflags\<close> macro, whose documentation describes a set
  of flags: \<^verbatim>\<open>contains\<close> is inclusion, \<^verbatim>\<open>|\<close> is union and \<^verbatim>\<open>set(f, false)\<close> removes \<^verbatim>\<open>f\<close>. The flags
  the kernel names:
\<close>

datatype page_flag = PRESENT | WRITABLE | USER_ACCESSIBLE | NO_EXECUTE

type_synonym PageTableFlags = "page_flag set"

datatype TranslateResult =
    Mapped PhysFrame u64 PageTableFlags  \<comment> \<open>frame, offset in it, flags\<close>
  | NotMapped
  | InvalidFrameAddress PhysAddr

datatype MapToError = FrameAllocationFailed | ParentEntryHugePage | PageAlreadyMapped PhysFrame

datatype FlagUpdateError = PageNotMapped | FlagParentEntryHugePage

record ('pt, 'fa) paging =
  va_try_new :: "u64 \<Rightarrow> VirtAddr option"
  va_new :: "u64 \<Rightarrow> VirtAddr outcome"
  va_add :: "VirtAddr \<Rightarrow> u64 \<Rightarrow> VirtAddr outcome"
  va_sub :: "VirtAddr \<Rightarrow> u64 \<Rightarrow> VirtAddr outcome"
  pa_new :: "u64 \<Rightarrow> PhysAddr outcome"
  page_containing :: "VirtAddr \<Rightarrow> Page"
  page_start :: "Page \<Rightarrow> VirtAddr"
  page_range :: "Page \<Rightarrow> Page \<Rightarrow> Page list"
  page_range_inclusive :: "Page \<Rightarrow> Page \<Rightarrow> Page list"
  frame_containing :: "PhysAddr \<Rightarrow> PhysFrame"
  pt_translate :: "'pt \<Rightarrow> VirtAddr \<Rightarrow> TranslateResult"
  pt_map_to :: "Page \<Rightarrow> PhysFrame \<Rightarrow> PageTableFlags \<Rightarrow> 'pt \<Rightarrow> 'fa
    \<Rightarrow> ((MapToError + unit) \<times> 'pt \<times> 'fa) outcome"
  pt_update_flags :: "Page \<Rightarrow> PageTableFlags \<Rightarrow> 'pt \<Rightarrow> (FlagUpdateError + unit) \<times> 'pt"

section \<open>What the crate documents\<close>

text \<open>
  A canonical address has its bits 48 to 63 equal to bit 47. \<^verbatim>\<open>VirtAddr::try_new\<close> succeeds on
  canonical addresses and on addresses whose upper 16 bits are null (which it sign-extends), and
  fails on all others; \<^verbatim>\<open>new\<close> and the arithmetic operators panic where \<^verbatim>\<open>try_new\<close> fails.
\<close>

definition canonical :: "u64 \<Rightarrow> bool" where
  "canonical a \<longleftrightarrow> unat a < 2 ^ 47 \<or> 2 ^ 64 - 2 ^ 47 \<le> unat a"

definition representable :: "u64 \<Rightarrow> bool" where
  "representable a \<longleftrightarrow> canonical a \<or> unat a < 2 ^ 48"

definition addr_docs :: "('pt, 'fa) paging \<Rightarrow> bool" where
  "addr_docs X \<longleftrightarrow>
     (\<forall>a. canonical a \<longrightarrow> va_try_new X a = Some a) \<and>
     (\<forall>a. \<not> representable a \<longrightarrow> va_try_new X a = None) \<and>
     (\<forall>a. va_new X a = unwrap (va_try_new X a)) \<and>
     (\<forall>a n. canonical a \<longrightarrow> unat a + unat n < 2 ^ 64 \<longrightarrow> va_add X a n = va_new X (a + n)) \<and>
     (\<forall>a n. canonical a \<longrightarrow> unat n \<le> unat a \<longrightarrow> va_sub X a n = va_new X (a - n)) \<and>
     (\<forall>a. unat a < 2 ^ 52 \<longrightarrow> pa_new X a = Ret a) \<and>
     (\<forall>a. 2 ^ 52 \<le> unat a \<longrightarrow> pa_new X a = Panic)"

text \<open>The start of the 4 KiB page or frame of an address.\<close>

definition align_down_4k :: "u64 \<Rightarrow> u64" where
  "align_down_4k a = word_of_nat (unat a div 4096 * 4096)"

text \<open>The page starts from \<open>p\<close> on, \<open>n\<close> of them.\<close>

definition page_at :: "Page \<Rightarrow> nat \<Rightarrow> Page" where
  "page_at p i = word_of_nat (unat p + 4096 * i)"

definition pages_from :: "Page \<Rightarrow> nat \<Rightarrow> Page list" where
  "pages_from p n = map (page_at p) [0..<n]"

text \<open>
  A page is the one containing an address, its start is aligned, and a range of pages within
  one half of the address space runs from page to page; an inclusive range ends with its end
  and is empty when the end comes before the start.
\<close>

definition page_docs :: "('pt, 'fa) paging \<Rightarrow> bool" where
  "page_docs X \<longleftrightarrow>
     (\<forall>a. page_containing X a = align_down_4k a) \<and>
     (\<forall>p. page_start X p = p) \<and>
     (\<forall>a. frame_containing X a = align_down_4k a) \<and>
     (\<forall>p q. 4096 dvd unat p \<longrightarrow> 4096 dvd unat q \<longrightarrow> (unat p < 2 ^ 47 \<longleftrightarrow> unat q < 2 ^ 47) \<longrightarrow>
        page_range X p q = pages_from p ((unat q - unat p) div 4096)) \<and>
     (\<forall>p q. 4096 dvd unat p \<longrightarrow> 4096 dvd unat q \<longrightarrow> (unat p < 2 ^ 47 \<longleftrightarrow> unat q < 2 ^ 47) \<longrightarrow>
        page_range_inclusive X p q =
          (if unat p \<le> unat q then pages_from p (Suc ((unat q - unat p) div 4096)) else [])) \<and>
     (\<forall>p q. unat q < unat p \<longrightarrow> page_range_inclusive X p q = [])"

text \<open>
  The mapper, with a frame allocator described by the list of frames it has left. \<^verbatim>\<open>map_to\<close>
  needs at most three frames for new page tables. On success the page translates to the frame
  with the flags and every other page as before; it fails only if a frame could not be
  allocated or the page is part of an existing mapping, and then no translation changes.
  \<^verbatim>\<open>update_flags\<close> changes the flags of a mapped page and nothing else.
\<close>

definition mapper_docs :: "('pt, 'fa) paging \<Rightarrow> ('fa \<Rightarrow> bool) \<Rightarrow> ('fa \<Rightarrow> PhysFrame list) \<Rightarrow> bool" where
  "mapper_docs X good pending \<longleftrightarrow>
     (\<forall>page frame flags pt fa. good fa \<longrightarrow>
        (\<exists>r pt' fa'. pt_map_to X page frame flags pt fa = Ret (r, pt', fa') \<and>
          (case r of
             Inr _ \<Rightarrow> (\<exists>k \<le> 3. pending fa' = drop k (pending fa)) \<and> good fa' \<and>
               (\<forall>a. pt_translate X pt' a =
                  (if page_containing X a = page then Mapped frame (a - page) flags else pt_translate X pt a))
           | Inl e \<Rightarrow> pt_translate X pt' = pt_translate X pt \<and>
               (e = FrameAllocationFailed \<longrightarrow> length (pending fa) < 3) \<and>
               (e \<noteq> FrameAllocationFailed \<longrightarrow> (\<exists>f off fl. pt_translate X pt page = Mapped f off fl))))) \<and>
     (\<forall>page flags pt f off fl. pt_translate X pt page = Mapped f off fl \<longrightarrow> off = 0 \<longrightarrow>
        (\<exists>pt'. pt_update_flags X page flags pt = (Inr (), pt') \<and>
          (\<forall>a. pt_translate X pt' a =
             (case pt_translate X pt a of
                Mapped g o' fl' \<Rightarrow> if page_containing X a = page then Mapped g o' flags else Mapped g o' fl'
              | r \<Rightarrow> r))))"

section \<open>A concrete instance\<close>

definition std_try_new :: "u64 \<Rightarrow> VirtAddr option" where
  "std_try_new a = (if canonical a then Some a
     else if unat a < 2 ^ 48 then Some (a OR 0xffff000000000000) else None)"

definition std_translate :: "(Page \<rightharpoonup> PhysFrame \<times> PageTableFlags) \<Rightarrow> VirtAddr \<Rightarrow> TranslateResult" where
  "std_translate pt a = (case pt (align_down_4k a) of None \<Rightarrow> NotMapped
     | Some (f, fl) \<Rightarrow> Mapped f (a - align_down_4k a) fl)"

definition std_paging :: "(Page \<rightharpoonup> PhysFrame \<times> PageTableFlags, 'fa) paging" where
  "std_paging = \<lparr>
     va_try_new = std_try_new,
     va_new = (\<lambda>a. unwrap (std_try_new a)),
     va_add = (\<lambda>a n. if unat a + unat n < 2 ^ 64 then unwrap (std_try_new (a + n)) else Panic),
     va_sub = (\<lambda>a n. if unat n \<le> unat a then unwrap (std_try_new (a - n)) else Panic),
     pa_new = (\<lambda>a. if unat a < 2 ^ 52 then Ret a else Panic),
     page_containing = align_down_4k,
     page_start = (\<lambda>p. p),
     page_range = (\<lambda>p q. pages_from p ((unat q - unat p) div 4096)),
     page_range_inclusive = (\<lambda>p q. if unat p \<le> unat q
       then pages_from p (Suc ((unat q - unat p) div 4096)) else []),
     frame_containing = align_down_4k,
     pt_translate = std_translate,
     pt_map_to = (\<lambda>page frame flags pt fa. Ret (case pt (align_down_4k page) of
         Some (f, _) \<Rightarrow> (Inl (PageAlreadyMapped f), pt, fa)
       | None \<Rightarrow> (Inr (), pt(page \<mapsto> (frame, flags)), fa))),
     pt_update_flags = (\<lambda>page flags pt. case pt page of
         Some (f, _) \<Rightarrow> (Inr (), pt(page \<mapsto> (f, flags)))
       | None \<Rightarrow> (Inl PageNotMapped, pt))\<rparr>"

section \<open>Memory behind the mapper\<close>

record 'pt vm =
  page_tbl :: 'pt
  phys :: "u64 \<Rightarrow> u8"

definition vread :: "('pt, 'fa) paging \<Rightarrow> ('pt, 'm) vm_scheme \<Rightarrow> VirtAddr \<Rightarrow> u8 outcome" where
  "vread X m a = (case pt_translate X (page_tbl m) a of
     Mapped f off fl \<Rightarrow> Ret (phys m (f + off)) | _ \<Rightarrow> Panic)"

definition vwrite :: "('pt, 'fa) paging \<Rightarrow> VirtAddr \<Rightarrow> u8 \<Rightarrow> ('pt, 'm) vm_scheme \<Rightarrow> ('pt, 'm) vm_scheme outcome" where
  "vwrite X a v m = (case pt_translate X (page_tbl m) a of
     Mapped f off fl \<Rightarrow> if WRITABLE \<in> fl then Ret (m\<lparr>phys := (phys m)(f + off := v)\<rparr>) else Panic
   | _ \<Rightarrow> Panic)"

text \<open>Reading a slice of \<open>n\<close> bytes from address \<open>a\<close>.\<close>

fun vread_slice :: "('pt, 'fa) paging \<Rightarrow> ('pt, 'm) vm_scheme \<Rightarrow> VirtAddr \<Rightarrow> nat \<Rightarrow> u8 list outcome" where
  "vread_slice X m a 0 = Ret []"
| "vread_slice X m a (Suc n) =
     obind (vread X m a) (\<lambda>b. obind (vread_slice X m (a + 1) n) (\<lambda>bs. Ret (b # bs)))"

section \<open>Facts\<close>

lemma unat_align_down: "unat (align_down_4k a) = unat a div 4096 * 4096"
proof -
  have "unat a div 4096 * 4096 < 2 ^ 64"
    using unat_u64 [of a] by (meson div_times_less_eq_dividend le_less_trans)
  then show ?thesis by (simp only: align_down_4k_def unat_word_of_nat64)
qed

lemma align_down_dvd [simp]: "4096 dvd unat (align_down_4k a)"
  by (simp add: unat_align_down)

lemma align_down_le: "unat (align_down_4k a) \<le> unat a"
  by (simp add: unat_align_down)

lemma align_down_aligned: "4096 dvd unat p \<Longrightarrow> align_down_4k p = p"
  by (simp add: align_down_4k_def)

lemma align_down_idem [simp]: "align_down_4k (align_down_4k a) = align_down_4k a"
  by (simp add: align_down_aligned)

lemma align_down_low: "unat (align_down_4k a) < 2 ^ 47 \<longleftrightarrow> unat a < 2 ^ 47"
proof -
  have "unat a div 4096 * 4096 < 2 ^ 47 \<longleftrightarrow> unat a < 2 ^ 47"
    by (simp add: div_less_iff_less_mult)
  then show ?thesis by (simp only: unat_align_down)
qed

lemma length_pages_from [simp]: "length (pages_from p n) = n"
  by (simp add: pages_from_def)

lemma unat_page_at: "unat p + 4096 * i < 2 ^ 64 \<Longrightarrow> unat (page_at p i) = unat p + 4096 * i"
  unfolding page_at_def by (rule unat_word_of_nat64)

lemma in_pages_from:
  assumes "4096 dvd unat p" and "4096 dvd unat q" and "unat p \<le> unat q" and "unat q < unat p + 4096 * n"
  shows "q \<in> set (pages_from p n)"
proof -
  obtain i j where ij: "unat p = 4096 * i" "unat q = 4096 * j" using assms(1,2) by blast
  then have j: "j - i < n" "unat p + 4096 * (j - i) = unat q" using assms(3,4) by auto
  then have "q = page_at p (j - i)" unfolding page_at_def j(2) by simp
  with j(1) show ?thesis by (simp add: pages_from_def)
qed

lemma unat_in_pages_from:
  assumes "q \<in> set (pages_from p n)" and "unat p + 4096 * n \<le> 2 ^ 64"
  shows "unat p \<le> unat q" and "unat q < unat p + 4096 * n" and "4096 dvd unat p \<Longrightarrow> 4096 dvd unat q"
proof -
  obtain i where i: "i < n" "q = page_at p i"
    using assms(1) by (auto simp: pages_from_def)
  then have "unat q = unat p + 4096 * i"
    using assms(2) by (simp add: unat_page_at)
  with i show "unat p \<le> unat q" "unat q < unat p + 4096 * n" "4096 dvd unat p \<Longrightarrow> 4096 dvd unat q"
    by auto
qed

text \<open>The page of an address is among consecutive pages exactly when the address is in their range.\<close>

lemma align_down_in_pages_from:
  assumes "4096 dvd unat p" and "unat p + 4096 * n \<le> 2 ^ 64"
  shows "align_down_4k a \<in> set (pages_from p n) \<longleftrightarrow> unat p \<le> unat a \<and> unat a < unat p + 4096 * n"
proof
  obtain i where i: "unat p = 4096 * i" using assms(1) by blast
  let ?j = "unat a div 4096"
  have j: "unat (align_down_4k a) = 4096 * ?j" "4096 * ?j \<le> unat a" "unat a < 4096 * ?j + 4096"
    by (simp_all add: unat_align_down)
  { assume "align_down_4k a \<in> set (pages_from p n)"
    note q = unat_in_pages_from(1,2) [OF this assms(2)]
    then have "?j < i + n" using i j(1) by linarith
    then have "4096 * ?j + 4096 \<le> 4096 * i + 4096 * n" by simp
    then show "unat p \<le> unat a \<and> unat a < unat p + 4096 * n" using q(1) i j by linarith }
  { assume r: "unat p \<le> unat a \<and> unat a < unat p + 4096 * n"
    then have "i \<le> ?j" using i by (simp add: less_eq_div_iff_mult_less_eq)
    then have "unat p \<le> unat (align_down_4k a)" "unat (align_down_4k a) < unat p + 4096 * n"
      using i j r by linarith+
    then show "align_down_4k a \<in> set (pages_from p n)" by (intro in_pages_from assms(1) align_down_dvd) }
qed

lemma distinct_pages_from:
  assumes "unat p + 4096 * n \<le> 2 ^ 64"
  shows "distinct (pages_from p n)"
proof -
  have "inj_on (page_at p) {0..<n}"
  proof (rule inj_onI)
    fix i j assume ij: "i \<in> {0..<n}" "j \<in> {0..<n}" and eq: "page_at p i = page_at p j"
    have "unat p + 4096 * i < 2 ^ 64" "unat p + 4096 * j < 2 ^ 64" using ij assms by auto
    then have "unat p + 4096 * i = unat p + 4096 * j" using eq unat_page_at by metis
    then show "i = j" by simp
  qed
  then show ?thesis by (simp add: pages_from_def distinct_map)
qed

text \<open>The pages from the first to the last byte of a range cover every byte between them.\<close>

lemma page_between:
  assumes "unat a \<le> unat x" and "unat x \<le> unat b"
  shows "align_down_4k x \<in> set (pages_from (align_down_4k a)
    (Suc ((unat (align_down_4k b) - unat (align_down_4k a)) div 4096)))"
proof (rule in_pages_from)
  have "unat a div 4096 \<le> unat x div 4096" "unat x div 4096 \<le> unat b div 4096"
    using assms by (simp_all add: div_le_mono)
  then show "unat (align_down_4k a) \<le> unat (align_down_4k x)"
    and "unat (align_down_4k x) < unat (align_down_4k a) +
      4096 * Suc ((unat (align_down_4k b) - unat (align_down_4k a)) div 4096)"
    by (simp_all add: unat_align_down diff_mult_distrib [symmetric])
qed simp_all

lemma range_inclusive_cover:
  assumes "page_docs X" and "unat a < 2 ^ 47 \<longleftrightarrow> unat b < 2 ^ 47"
    and "unat a \<le> unat x" and "unat x \<le> unat b"
  shows "page_containing X x \<in> set (page_range_inclusive X (page_containing X a) (page_containing X b))"
proof -
  have "unat (align_down_4k a) \<le> unat (align_down_4k b)"
    using assms(3,4) by (simp add: unat_align_down div_le_mono)
  then show ?thesis
    using assms(1,2) page_between [OF assms(3,4)] by (simp add: page_docs_def align_down_low [simplified])
qed

section \<open>The instance satisfies the documentation\<close>

lemma std_addr_docs: "addr_docs std_paging"
  by (auto simp: addr_docs_def std_paging_def std_try_new_def representable_def)

lemma std_page_docs: "page_docs std_paging"
  by (simp add: page_docs_def std_paging_def)

lemma std_fields [simp]:
  "page_containing std_paging = align_down_4k" "pt_translate std_paging = std_translate"
  "page_start std_paging = (\<lambda>p. p)" "frame_containing std_paging = align_down_4k"
  by (simp_all add: std_paging_def)

lemma std_map_to: "pt_map_to std_paging page frame flags pt fa = Ret (case pt (align_down_4k page) of
    Some (f, _) \<Rightarrow> (Inl (PageAlreadyMapped f), pt, fa)
  | None \<Rightarrow> (Inr (), pt(page \<mapsto> (frame, flags)), fa))"
  by (simp add: std_paging_def)

lemma std_translate_upd:
  "std_translate (pt(page \<mapsto> (frame, flags))) a =
     (if align_down_4k a = page then Mapped frame (a - page) flags else std_translate pt a)"
  by (simp add: std_translate_def)

lemma std_update_flags:
  assumes "std_translate pt page = Mapped f 0 fl"
  shows "\<exists>pt'. pt_update_flags std_paging page flags pt = (Inr (), pt') \<and>
    (\<forall>a. std_translate pt' a = (case std_translate pt a of
       Mapped g o' fl' \<Rightarrow> if align_down_4k a = page then Mapped g o' flags else Mapped g o' fl' | r \<Rightarrow> r))"
proof -
  have "align_down_4k page = page" and p: "pt page = Some (f, fl)"
    using assms by (auto simp: std_translate_def split: option.splits)
  then have "std_translate (pt(page \<mapsto> (f, flags))) a = (case std_translate pt a of
       Mapped g o' fl' \<Rightarrow> if align_down_4k a = page then Mapped g o' flags else Mapped g o' fl' | r \<Rightarrow> r)" for a
    by (auto simp: std_translate_def split: option.splits)
  with p show ?thesis by (simp add: std_paging_def)
qed

lemma std_mapper_docs: "mapper_docs std_paging good pending"
  unfolding mapper_docs_def std_fields
proof (intro conjI allI impI)
  fix page :: Page and frame flags pt fa
  assume "good fa"
  then show "\<exists>r pt' fa'. pt_map_to std_paging page frame flags pt fa = Ret (r, pt', fa') \<and>
    (case r of
       Inr _ \<Rightarrow> (\<exists>k \<le> 3. pending fa' = drop k (pending fa)) \<and> good fa' \<and>
         (\<forall>a. std_translate pt' a =
            (if align_down_4k a = page then Mapped frame (a - page) flags else std_translate pt a))
     | Inl e \<Rightarrow> std_translate pt' = std_translate pt \<and>
         (e = FrameAllocationFailed \<longrightarrow> length (pending fa) < 3) \<and>
         (e \<noteq> FrameAllocationFailed \<longrightarrow> (\<exists>f off fl. std_translate pt page = Mapped f off fl)))"
    by (cases "pt (align_down_4k page)")
       (auto simp: std_map_to std_translate_upd std_translate_def intro: exI [of _ "0::nat"])
next
  fix page :: Page and flags pt f off fl
  assume "std_translate pt page = Mapped f off fl" and "off = 0"
  then show "\<exists>pt'. pt_update_flags std_paging page flags pt = (Inr (), pt') \<and>
    (\<forall>a. std_translate pt' a = (case std_translate pt a of
       Mapped g o' fl' \<Rightarrow> if align_down_4k a = page then Mapped g o' flags else Mapped g o' fl' | r \<Rightarrow> r))"
    by (intro std_update_flags) simp
qed

end
