(* ===== verification/Sys.thy ===== *)
theory Sys
  imports Zulu_Prelude
begin

text \<open>
  \<^verbatim>\<open>kernel/src/sys.rs\<close>: the interrupt flag of the core and the helpers that guard critical
  sections with it. The instructions themselves (\<^verbatim>\<open>sti\<close>, \<^verbatim>\<open>cli\<close>, \<^verbatim>\<open>hlt\<close>) are functions of the
  \<^verbatim>\<open>x86_64\<close> crate and are parameters of the model, collected in the record \<open>irq_api\<close>; the
  predicate \<open>irq_docs\<close> states what the crate documents of them. The spin lock of the \<^verbatim>\<open>spin\<close>
  crate is a parameter in the same way.
\<close>

section \<open>The parts of the machine the helpers touch\<close>

text \<open>Any state with an interrupt flag; components extend the record with their own fields.\<close>

record machine =
  int_flag :: bool
  halted :: bool  \<comment> \<open>the core sleeps in \<^verbatim>\<open>hlt\<close> until the next interrupt\<close>

record 's irq_api =
  irq_enable :: "'s \<Rightarrow> 's"
  irq_disable :: "'s \<Rightarrow> 's"
  irq_enable_and_hlt :: "'s \<Rightarrow> 's"
  irq_hlt :: "'s \<Rightarrow> 's"
  irq_without_interrupts :: "('s \<Rightarrow> 's outcome) \<Rightarrow> 's \<Rightarrow> 's outcome"

text \<open>
  The documented behaviour of \<^verbatim>\<open>x86_64::instructions::interrupts\<close>: \<^verbatim>\<open>enable\<close> sets the flag,
  \<^verbatim>\<open>disable\<close> clears it, \<^verbatim>\<open>enable_and_hlt\<close> sets it and sleeps in one step, and
  \<^verbatim>\<open>without_interrupts\<close> runs the closure with the flag cleared and sets it again afterwards if
  it was set before.
\<close>

definition irq_docs :: "'a machine_scheme irq_api \<Rightarrow> bool" where
  "irq_docs X \<longleftrightarrow>
     (\<forall>s. irq_enable X s = s\<lparr>int_flag := True\<rparr>) \<and>
     (\<forall>s. irq_disable X s = s\<lparr>int_flag := False\<rparr>) \<and>
     (\<forall>s. irq_enable_and_hlt X s = s\<lparr>int_flag := True, halted := True\<rparr>) \<and>
     (\<forall>s. irq_hlt X s = s\<lparr>halted := True\<rparr>) \<and>
     (\<forall>f s. irq_without_interrupts X f s =
        obind (f (s\<lparr>int_flag := False\<rparr>))
          (\<lambda>t. Ret (if int_flag s then t\<lparr>int_flag := True\<rparr> else t)))"

section \<open>The helpers of sys.rs\<close>

definition without_interrupts :: "'s irq_api \<Rightarrow> ('s \<Rightarrow> 's outcome) \<Rightarrow> 's \<Rightarrow> 's outcome" where
  "without_interrupts X f s = irq_without_interrupts X f s"

definition wait_for_interrupts_if :: "'s irq_api \<Rightarrow> ('s \<Rightarrow> bool) \<Rightarrow> 's \<Rightarrow> 's" where
  "wait_for_interrupts_if X f s =
     (let s = irq_disable X s
      in if f s then irq_enable_and_hlt X s else irq_enable X s)"

definition hlt :: "'s irq_api \<Rightarrow> 's \<Rightarrow> 's" where
  "hlt X s = irq_hlt X s"

text \<open>
  \<^verbatim>\<open>loop { hlt(); }\<close> has no exit, so it is a partial function; \<open>None\<close> is not returning.
  The result type \<^verbatim>\<open>!\<close> has no values and fits any place, hence the type variable of
  \<open>hlt_loop\<close>; its second branch has nothing to return and is never taken
  (\<open>hlt_loop_diverges\<close>).
\<close>

partial_function (option) hlt_forever :: "'s irq_api \<Rightarrow> 's \<Rightarrow> 's option" where
  "hlt_forever X s = hlt_forever X (hlt X s)"

definition hlt_loop :: "'s irq_api \<Rightarrow> 's \<Rightarrow> 'r outcome" where
  "hlt_loop X s = (case hlt_forever X s of None \<Rightarrow> Diverge | Some t \<Rightarrow> Panic)"

definition enable_interrupts :: "'s irq_api \<Rightarrow> 's \<Rightarrow> 's" where
  "enable_interrupts X s = irq_enable X s"

definition disable_interrupts :: "'s irq_api \<Rightarrow> 's \<Rightarrow> 's" where
  "disable_interrupts X s = irq_disable X s"

text \<open>A concrete interrupt unit, on which the documented behaviour holds.\<close>

definition std_irq :: "'a machine_scheme irq_api" where
  "std_irq = \<lparr>irq_enable = int_flag_update (\<lambda>_. True),
     irq_disable = int_flag_update (\<lambda>_. False),
     irq_enable_and_hlt = (\<lambda>s. s\<lparr>int_flag := True, halted := True\<rparr>),
     irq_hlt = halted_update (\<lambda>_. True),
     irq_without_interrupts = (\<lambda>f s. obind (f (s\<lparr>int_flag := False\<rparr>))
       (\<lambda>t. Ret (if int_flag s then t\<lparr>int_flag := True\<rparr> else t)))\<rparr>"

section \<open>Properties\<close>

lemma std_irq_docs: "irq_docs std_irq"
  by (simp add: irq_docs_def std_irq_def)

lemma hlt_forever_None: "hlt_forever X s = None"
proof (cases "hlt_forever X s")
  case (Some t)
  have "False"
    by (rule hlt_forever.raw_induct [where P = "\<lambda>_ _ _. False", OF _ Some]) blast
  then show ?thesis ..
qed

lemma hlt_loop_diverges [simp]: "hlt_loop X s = Diverge"
  by (simp add: hlt_loop_def hlt_forever_None)

lemma without_interrupts_Ret:
  assumes "irq_docs X" and "f (s\<lparr>int_flag := False\<rparr>) = Ret t"
  shows "without_interrupts X f s = Ret (if int_flag s then t\<lparr>int_flag := True\<rparr> else t)"
  using assms by (simp add: without_interrupts_def irq_docs_def)

lemma wait_for_interrupts_if_eq:
  assumes "irq_docs X"
  shows "wait_for_interrupts_if X f s =
    (if f (s\<lparr>int_flag := False\<rparr>) then s\<lparr>int_flag := True, halted := True\<rparr>
     else s\<lparr>int_flag := True\<rparr>)"
  using assms by (simp add: wait_for_interrupts_if_def irq_docs_def Let_def)

end
