(* ===== verification/Tasks.thy ===== *)
theory Tasks
  imports Sys
begin

text \<open>
  \<^verbatim>\<open>kernel/src/task/{mod,simple_executor,executor}.rs\<close>: tasks, the round-robin executor and the
  executor driven by wakers. A future is a value of an arbitrary type with a poll function; both
  are given by the spawner, so the poll function is a parameter. The bounded queue of the
  \<^verbatim>\<open>crossbeam\<close> crate is a parameter too (\<open>array_queue\<close>, with \<open>queue_docs\<close> for what it documents).
  The properties: the round-robin executor goes through the tasks in rounds and ends when every
  task does; the waker-driven executor keeps its tables consistent, polls the tasks that are due
  and removes a task only when it is finished. A poll is one step here, and the tasks it wakes are
  pushed when it returns; the interleaving with interrupts, and sleeping, are in the theory \<open>Idle\<close>.
\<close>

section \<open>Tasks\<close>

datatype Poll = Ready | Pending

type_synonym TaskId = u64

record 'f Task =
  future :: 'f
  task_id :: TaskId

text \<open>\<^verbatim>\<open>TaskId::new\<close> takes the counter and adds one to it; an atomic addition wraps.\<close>

definition TaskId_new :: "u64 \<Rightarrow> TaskId \<times> u64" where
  "TaskId_new NEXT_ID = (NEXT_ID, NEXT_ID + 1)"

definition Task_new :: "'f \<Rightarrow> u64 \<Rightarrow> 'f Task \<times> u64" where
  "Task_new f NEXT_ID = (case TaskId_new NEXT_ID of (i, n) \<Rightarrow> (\<lparr>future = f, task_id = i\<rparr>, n))"

text \<open>Polling a future in a context changes it and the world around it.\<close>

type_synonym ('f, 'c, 'w) poll_fn = "'f \<Rightarrow> 'c \<Rightarrow> 'w \<Rightarrow> (Poll \<times> 'f \<times> 'w) outcome"

definition Task_poll :: "('f, 'c, 'w) poll_fn \<Rightarrow> 'f Task \<Rightarrow> 'c \<Rightarrow> 'w \<Rightarrow> (Poll \<times> 'f Task \<times> 'w) outcome" where
  "Task_poll poll t cx w = obind (poll (future t) cx w) (\<lambda>(p, f, w). Ret (p, t\<lparr>future := f\<rparr>, w))"

section \<open>SimpleExecutor\<close>

record 'f SimpleExecutor =
  simple_queue :: "'f Task list"  \<comment> \<open>\<^verbatim>\<open>task_queue\<close>\<close>

definition SimpleExecutor_new :: "'f SimpleExecutor" where
  "SimpleExecutor_new = \<lparr>simple_queue = []\<rparr>"

definition simple_spawn :: "'f Task \<Rightarrow> 'f SimpleExecutor \<Rightarrow> 'f SimpleExecutor" where
  "simple_spawn t e = e\<lparr>simple_queue := simple_queue e @ [t]\<rparr>"

text \<open>
  The loop of \<^verbatim>\<open>run\<close>; it need not end, and \<open>None\<close> is not ending. The waker does nothing, so the
  context carries no information.
\<close>

partial_function (option) simple_loop :: "('f, unit, 'w) poll_fn \<Rightarrow> 'f Task list \<Rightarrow> 'w \<Rightarrow> 'w outcome option" where
  "simple_loop poll q w = (case q of
     [] \<Rightarrow> Some (Ret w)
   | t # q \<Rightarrow> (case Task_poll poll t () w of
       Ret (Ready, t, w) \<Rightarrow> simple_loop poll q w
     | Ret (Pending, t, w) \<Rightarrow> simple_loop poll (q @ [t]) w
     | Panic \<Rightarrow> Some Panic
     | Diverge \<Rightarrow> Some Diverge
     | PowerOff v \<Rightarrow> Some (PowerOff v)
     | UB \<Rightarrow> Some UB))"

definition simple_run :: "('f, unit, 'w) poll_fn \<Rightarrow> 'f SimpleExecutor \<Rightarrow> 'w \<Rightarrow> 'w outcome" where
  "simple_run poll e w = (case simple_loop poll (simple_queue e) w of None \<Rightarrow> Diverge | Some r \<Rightarrow> r)"

text \<open>One round: every task of the queue once, in order; those that are not finished remain.\<close>

fun poll_round :: "('f, unit, 'w) poll_fn \<Rightarrow> 'f Task list \<Rightarrow> 'w \<Rightarrow> ('f Task list \<times> 'w) outcome" where
  "poll_round poll [] w = Ret ([], w)"
| "poll_round poll (t # q) w =
     obind (Task_poll poll t () w) (\<lambda>(p, t, w).
     obind (poll_round poll q w) (\<lambda>(r, w).
     Ret (case p of Ready \<Rightarrow> r | Pending \<Rightarrow> t # r, w)))"

section \<open>The bounded queue\<close>

record ('a, 'q) array_queue =
  aq_new :: "nat \<Rightarrow> 'q"
  aq_push :: "'a \<Rightarrow> 'q \<Rightarrow> bool \<times> 'q"
  aq_pop :: "'q \<Rightarrow> 'a option \<times> 'q"
  aq_is_empty :: "'q \<Rightarrow> bool"

text \<open>
  \<^verbatim>\<open>crossbeam_queue::ArrayQueue\<close> is documented as a bounded queue, first in first out: \<^verbatim>\<open>push\<close> fails
  on a full queue and \<^verbatim>\<open>pop\<close> on an empty one. \<open>items\<close> and \<open>capa\<close> read off contents and capacity.
\<close>

definition queue_docs :: "('a, 'q) array_queue \<Rightarrow> ('q \<Rightarrow> 'a list) \<Rightarrow> ('q \<Rightarrow> nat) \<Rightarrow> bool" where
  "queue_docs Q items capa \<longleftrightarrow>
     (\<forall>n. 0 < n \<longrightarrow> items (aq_new Q n) = [] \<and> capa (aq_new Q n) = n) \<and>
     (\<forall>x q. length (items q) < capa q \<longrightarrow>
        (\<exists>q'. aq_push Q x q = (True, q') \<and> items q' = items q @ [x] \<and> capa q' = capa q)) \<and>
     (\<forall>x q. capa q \<le> length (items q) \<longrightarrow> aq_push Q x q = (False, q)) \<and>
     (\<forall>q. items q = [] \<longrightarrow> aq_pop Q q = (None, q)) \<and>
     (\<forall>q x xs. items q = x # xs \<longrightarrow>
        (\<exists>q'. aq_pop Q q = (Some x, q') \<and> items q' = xs \<and> capa q' = capa q)) \<and>
     (\<forall>q. aq_is_empty Q q \<longleftrightarrow> items q = [])"

text \<open>A concrete queue: the capacity and the list.\<close>

definition list_queue :: "('a, nat \<times> 'a list) array_queue" where
  "list_queue = \<lparr>aq_new = (\<lambda>n. (n, [])),
     aq_push = (\<lambda>x (n, xs). if length xs < n then (True, n, xs @ [x]) else (False, n, xs)),
     aq_pop = (\<lambda>(n, xs). case xs of [] \<Rightarrow> (None, n, xs) | x # xs \<Rightarrow> (Some x, n, xs)),
     aq_is_empty = (\<lambda>(n, xs). xs = [])\<rparr>"

section \<open>Executor\<close>

text \<open>
  The task queue is shared between the executor and the wakers. A waker is the pair of a task
  and this queue, so the cache of wakers is the set of tasks that have one. A future can touch
  the queue only by calling wakers: its poll function gets the world and an empty list, and
  leaves in the list the tasks it woke, in order.
\<close>

record ('f, 'q, 'w) Executor =
  tasks :: "TaskId \<rightharpoonup> 'f Task"
  task_queue :: 'q
  waker_cache :: "TaskId set"
  world :: 'w

definition MAX_TASKS :: nat where
  "MAX_TASKS = 128"

definition Executor_new :: "(TaskId, 'q) array_queue \<Rightarrow> 'w \<Rightarrow> ('f, 'q, 'w) Executor" where
  "Executor_new Q w = \<lparr>tasks = Map.empty, task_queue = aq_new Q MAX_TASKS, waker_cache = {}, world = w\<rparr>"

text \<open>\<^verbatim>\<open>self.task_queue.push(id).expect(..)\<close>\<close>

definition wake_task :: "(TaskId, 'q) array_queue \<Rightarrow> TaskId \<Rightarrow> 'q \<Rightarrow> 'q outcome" where
  "wake_task Q i q = (case aq_push Q i q of (ok, q) \<Rightarrow> if ok then Ret q else Panic)"

definition spawn :: "(TaskId, 'q) array_queue \<Rightarrow> 'f Task \<Rightarrow> ('f, 'q, 'w) Executor \<Rightarrow> ('f, 'q, 'w) Executor outcome" where
  "spawn Q task e =
     (let i = task_id task in
      if tasks e i \<noteq> None then Panic
      else obind (wake_task Q i (task_queue e)) (\<lambda>q. Ret (e\<lparr>tasks := (tasks e)(i \<mapsto> task), task_queue := q\<rparr>)))"

text \<open>The body of the loop of \<^verbatim>\<open>run_ready_tasks\<close>, for the task just popped.\<close>

definition poll_ready :: "(TaskId, 'q) array_queue \<Rightarrow> ('f, TaskId, 'w \<times> TaskId list) poll_fn \<Rightarrow> TaskId
    \<Rightarrow> ('f, 'q, 'w) Executor \<Rightarrow> ('f, 'q, 'w) Executor outcome" where
  "poll_ready Q poll i e =
     (case tasks e i of
        None \<Rightarrow> Ret e
      | Some task \<Rightarrow>
          let e = e\<lparr>waker_cache := insert i (waker_cache e)\<rparr> in
          obind (Task_poll poll task i (world e, [])) (\<lambda>(p, task, w, woken).
          obind (for_each (wake_task Q) woken (task_queue e)) (\<lambda>q.
          let e = e\<lparr>tasks := (tasks e)(i \<mapsto> task), task_queue := q, world := w\<rparr> in
          Ret (case p of
              Ready \<Rightarrow> e\<lparr>tasks := (tasks e)(i := None), waker_cache := waker_cache e - {i}\<rparr>
            | Pending \<Rightarrow> e))))"

partial_function (option) run_ready_tasks :: "(TaskId, 'q) array_queue \<Rightarrow> ('f, TaskId, 'w \<times> TaskId list) poll_fn
    \<Rightarrow> ('f, 'q, 'w) Executor \<Rightarrow> ('f, 'q, 'w) Executor outcome option" where
  "run_ready_tasks Q poll e =
     (case aq_pop Q (task_queue e) of
        (None, q) \<Rightarrow> Some (Ret (e\<lparr>task_queue := q\<rparr>))
      | (Some i, q) \<Rightarrow> (case poll_ready Q poll i (e\<lparr>task_queue := q\<rparr>) of
            Ret e \<Rightarrow> run_ready_tasks Q poll e
          | Panic \<Rightarrow> Some Panic
          | Diverge \<Rightarrow> Some Diverge
          | PowerOff v \<Rightarrow> Some (PowerOff v)
          | UB \<Rightarrow> Some UB))"

section \<open>Facts about the round-robin executor\<close>

lemma simple_loop_simps [simp]:
  "simple_loop poll [] w = Some (Ret w)"
  "Task_poll poll t () w = Ret (Ready, t', w') \<Longrightarrow> simple_loop poll (t # q) w = simple_loop poll q w'"
  "Task_poll poll t () w = Ret (Pending, t', w') \<Longrightarrow> simple_loop poll (t # q) w = simple_loop poll (q @ [t']) w'"
  by (subst simple_loop.simps, simp)+

lemma simple_loop_round:
  assumes "poll_round poll q w = Ret (r, w')"
  shows "simple_loop poll (q @ done) w = simple_loop poll (done @ r) w'"
  using assms
proof (induction q arbitrary: w r "done")
  case (Cons t q)
  obtain p t1 w1 where p: "Task_poll poll t () w = Ret (p, t1, w1)"
    using Cons.prems by (auto simp: outcome_simps)
  obtain r1 where r1: "poll_round poll q w1 = Ret (r1, w')" "r = (case p of Ready \<Rightarrow> r1 | Pending \<Rightarrow> t1 # r1)"
    using Cons.prems p by (auto simp: outcome_simps)
  show ?case
  proof (cases p)
    case Ready
    then show ?thesis using p r1 Cons.IH [OF r1(1)] by simp
  next
    case Pending
    then show ?thesis using p r1 Cons.IH [OF r1(1), of "done @ [t1]"] by simp
  qed
qed simp

text \<open>With a bound on the polls each future still needs, the loop ends.\<close>

lemma simple_loop_ends:
  assumes "\<forall>f w. \<exists>p f' w'. poll f () w = Ret (p, f', w') \<and> (p = Pending \<longrightarrow> rank f' < (rank f :: nat))"
  shows "\<exists>w'. simple_loop poll q w = Some (Ret w')"
proof (induction "\<Sum>t \<leftarrow> q. Suc (rank (future t))" arbitrary: q w rule: less_induct)
  case less
  show ?case
  proof (cases q)
    case (Cons t ts)
    obtain p f' w' where p: "poll (future t) () w = Ret (p, f', w')" "p = Pending \<longrightarrow> rank f' < rank (future t)"
      using assms by blast
    then have tp: "Task_poll poll t () w = Ret (p, t\<lparr>future := f'\<rparr>, w')" by (simp add: Task_poll_def)
    show ?thesis
    proof (cases p)
      case Ready
      then show ?thesis using less [of ts w'] Cons tp by simp
    next
      case Pending
      then show ?thesis using less [of "ts @ [t\<lparr>future := f'\<rparr>]" w'] Cons tp p(2) by simp
    qed
  qed simp
qed

section \<open>Facts about the queue\<close>

lemma list_queue_docs: "queue_docs list_queue snd fst"
  by (auto simp: queue_docs_def list_queue_def split: list.splits)

lemma queue_docsD:
  assumes "queue_docs Q items capa"
  shows "0 < n \<Longrightarrow> items (aq_new Q n) = [] \<and> capa (aq_new Q n) = n"
    and "length (items q) < capa q \<Longrightarrow> \<exists>q'. aq_push Q x q = (True, q') \<and> items q' = items q @ [x] \<and> capa q' = capa q"
    and "capa q \<le> length (items q) \<Longrightarrow> aq_push Q x q = (False, q)"
    and "items q = [] \<Longrightarrow> aq_pop Q q = (None, q)"
    and "items q = y # ys \<Longrightarrow> \<exists>q'. aq_pop Q q = (Some y, q') \<and> items q' = ys \<and> capa q' = capa q"
    and "aq_is_empty Q q \<longleftrightarrow> items q = []"
  using assms unfolding queue_docs_def by blast+

lemma wake_all_ok:
  assumes "queue_docs Q items capa" and "length (items q) + length ws \<le> capa q"
  shows "\<exists>q'. for_each (wake_task Q) ws q = Ret q' \<and> items q' = items q @ ws \<and> capa q' = capa q"
  using assms(2)
proof (induction ws arbitrary: q)
  case (Cons i ws)
  then have "length (items q) < capa q" by simp
  then obtain q1 where q1: "aq_push Q i q = (True, q1)" "items q1 = items q @ [i]" "capa q1 = capa q"
    using queue_docsD(2) [OF assms(1)] by blast
  with Cons.IH [of q1] Cons.prems show ?case by (auto simp: wake_task_def)
qed simp

lemma wake_all_items:
  assumes "queue_docs Q items capa" and "for_each (wake_task Q) ws q = Ret q'"
  shows "items q' = items q @ ws"
  using assms(2)
proof (induction ws arbitrary: q)
  case (Cons i ws)
  obtain q1 where w: "wake_task Q i q = Ret q1" "for_each (wake_task Q) ws q1 = Ret q'"
    using Cons.prems by (auto simp: outcome_simps)
  have "length (items q) < capa q"
    using w(1) queue_docsD(3) [OF assms(1), of q i] by (auto simp: wake_task_def not_less split: if_splits intro: ccontr)
  then have "items q1 = items q @ [i]"
    using queue_docsD(2) [OF assms(1), of q i] w(1) by (auto simp: wake_task_def)
  with Cons.IH [OF w(2)] show ?case by simp
qed simp

section \<open>Facts about the executor\<close>

text \<open>The tables agree: a task is filed under its own id, and only present tasks have wakers.\<close>

definition executor_ok :: "('f, 'q, 'w) Executor \<Rightarrow> bool" where
  "executor_ok e \<longleftrightarrow> finite (dom (tasks e)) \<and> (\<forall>i t. tasks e i = Some t \<longrightarrow> task_id t = i) \<and>
     waker_cache e \<subseteq> dom (tasks e)"

lemma run_ready_simps [simp]:
  "aq_pop Q (task_queue e) = (None, q) \<Longrightarrow> run_ready_tasks Q poll e = Some (Ret (e\<lparr>task_queue := q\<rparr>))"
  "aq_pop Q (task_queue e) = (Some i, q) \<Longrightarrow> poll_ready Q poll i (e\<lparr>task_queue := q\<rparr>) = Ret e' \<Longrightarrow>
     run_ready_tasks Q poll e = run_ready_tasks Q poll e'"
  by (subst run_ready_tasks.simps, simp)+

lemma poll_ready_cases:
  assumes "poll_ready Q poll i e = Ret e'"
  obtains (gone) "tasks e i = None" and "e' = e"
    | (finished) t t' w ws q where "tasks e i = Some t" and "Task_poll poll t i (world e, []) = Ret (Ready, t', w, ws)"
        and "for_each (wake_task Q) ws (task_queue e) = Ret q"
        and "e' = e\<lparr>tasks := (tasks e)(i := None), task_queue := q, waker_cache := waker_cache e - {i}, world := w\<rparr>"
    | (waiting) t t' w ws q where "tasks e i = Some t" and "Task_poll poll t i (world e, []) = Ret (Pending, t', w, ws)"
        and "for_each (wake_task Q) ws (task_queue e) = Ret q"
        and "e' = e\<lparr>tasks := (tasks e)(i \<mapsto> t'), task_queue := q, waker_cache := insert i (waker_cache e), world := w\<rparr>"
proof (cases "tasks e i")
  case None
  then have "e' = e" using assms by (simp add: poll_ready_def)
  with None show ?thesis by (rule gone)
next
  case (Some t)
  obtain p t' w ws where r1: "Task_poll poll t i (world e, []) = Ret (p, t', w, ws)"
    using assms [unfolded poll_ready_def Some option.case Let_def]
    by (cases "Task_poll poll t i (world e, [])") auto
  obtain q where r2: "for_each (wake_task Q) ws (task_queue e) = Ret q"
    using assms [unfolded poll_ready_def Some option.case Let_def] r1
    by (cases "for_each (wake_task Q) ws (task_queue e)") auto
  note r = r1 r2
  have "insert i (waker_cache e) - {i} = waker_cache e - {i}" by blast
  then have e': "e' = (case p of
      Ready \<Rightarrow> e\<lparr>tasks := (tasks e)(i := None), task_queue := q, waker_cache := waker_cache e - {i}, world := w\<rparr>
    | Pending \<Rightarrow> e\<lparr>tasks := (tasks e)(i \<mapsto> t'), task_queue := q, waker_cache := insert i (waker_cache e), world := w\<rparr>)"
    using assms Some r by (cases p; cases e) (auto simp: poll_ready_def)
  show ?thesis
  proof (cases p)
    case Ready
    show ?thesis by (rule finished [OF Some r(1) [unfolded Ready] r(2)]) (simp add: e' Ready)
  next
    case Pending
    show ?thesis by (rule waiting [OF Some r(1) [unfolded Pending] r(2)]) (simp add: e' Pending)
  qed
qed

lemma Task_poll_id: "Task_poll poll t cx w = Ret (p, t', w') \<Longrightarrow> task_id t' = task_id t"
  by (auto simp: Task_poll_def outcome_simps)

lemma poll_ready_ok:
  assumes "executor_ok e" and "poll_ready Q poll i e = Ret e'"
  shows "executor_ok e'"
  using assms(2)
proof (cases rule: poll_ready_cases)
  case gone
  then show ?thesis using assms(1) by simp
next
  case (finished t t' w ws q)
  then show ?thesis using assms(1) by (auto simp: executor_ok_def)
next
  case (waiting t t' w ws q)
  then show ?thesis using assms(1) Task_poll_id [OF waiting(2)] by (auto simp: executor_ok_def)
qed

text \<open>Induction along a run of \<^verbatim>\<open>run_ready_tasks\<close> that returns.\<close>

lemma run_ready_induct [consumes 1, case_names idle step]:
  assumes "run_ready_tasks Q poll e = Some (Ret e')"
    and "\<And>e q. aq_pop Q (task_queue e) = (None, q) \<Longrightarrow> P e (e\<lparr>task_queue := q\<rparr>)"
    and "\<And>e i q e1 e'. aq_pop Q (task_queue e) = (Some i, q) \<Longrightarrow> poll_ready Q poll i (e\<lparr>task_queue := q\<rparr>) = Ret e1 \<Longrightarrow>
      P e1 e' \<Longrightarrow> P e e'"
  shows "P e e'"
proof -
  let ?P = "\<lambda>Q' poll' e r. Q' = Q \<longrightarrow> poll' = poll \<longrightarrow> (\<forall>e'. r = Ret e' \<longrightarrow> P e e')"
  have "?P Q poll e (Ret e')"
  proof (rule run_ready_tasks.raw_induct [where P = ?P, OF _ assms(1)], intro impI allI)
    fix f Q' poll' e r e'
    assume IH: "\<And>Q' poll' e r. f Q' poll' e = Some r \<Longrightarrow> ?P Q' poll' e r"
      and body: "(case aq_pop Q' (task_queue e) of
          (None, q) \<Rightarrow> Some (Ret (e\<lparr>task_queue := q\<rparr>))
        | (Some i, q) \<Rightarrow> (case poll_ready Q' poll' i (e\<lparr>task_queue := q\<rparr>) of
              Ret e \<Rightarrow> f Q' poll' e | Panic \<Rightarrow> Some Panic | Diverge \<Rightarrow> Some Diverge
            | PowerOff v \<Rightarrow> Some (PowerOff v) | UB \<Rightarrow> Some UB)) = Some r"
      and eq: "Q' = Q" "poll' = poll" "r = Ret e'"
    obtain x q where pop: "aq_pop Q (task_queue e) = (x, q)" by (cases "aq_pop Q (task_queue e)")
    show "P e e'"
    proof (cases x)
      case None
      then show ?thesis using body eq pop assms(2) by auto
    next
      case (Some i)
      then obtain e1 where "poll_ready Q poll i (e\<lparr>task_queue := q\<rparr>) = Ret e1" "f Q poll e1 = Some (Ret e')"
        using body eq pop by (auto split: outcome.splits)
      then show ?thesis using IH assms(3) pop Some by blast
    qed
  qed
  then show ?thesis by simp
qed

text \<open>
  A bound on the work ahead: every future has a rank that covers the wake-ups it still causes.
\<close>

definition bounded_futures :: "('f, TaskId, 'w \<times> TaskId list) poll_fn \<Rightarrow> ('f \<Rightarrow> nat) \<Rightarrow> bool" where
  "bounded_futures poll rank \<longleftrightarrow> (\<forall>f i w. \<exists>p f' w' ws. poll f i (w, []) = Ret (p, f', w', ws) \<and>
     length ws + (case p of Pending \<Rightarrow> rank f' | Ready \<Rightarrow> 0) \<le> rank f)"

definition work_left :: "('f \<Rightarrow> nat) \<Rightarrow> ('f, 'q, 'w) Executor \<Rightarrow> nat" where
  "work_left rank e = (\<Sum>i \<in> dom (tasks e). rank (future (the (tasks e i))))"

lemma work_left_remove:
  assumes "finite (dom (tasks e))" and "tasks e i = Some t" and "tasks e' = (tasks e)(i := None)"
  shows "work_left rank e' + rank (future t) = work_left rank e"
proof -
  have "dom (tasks e) = insert i (dom (tasks e'))" "i \<notin> dom (tasks e')" using assms(2,3) by auto
  moreover have "\<forall>j \<in> dom (tasks e'). the (tasks e' j) = the (tasks e j)" using assms(3) by auto
  ultimately show ?thesis using assms(1,2) by (simp add: work_left_def)
qed

lemma work_left_update:
  assumes "finite (dom (tasks e))" and "tasks e i = Some t" and "tasks e' = (tasks e)(i \<mapsto> t')"
  shows "work_left rank e' + rank (future t) = work_left rank e + rank (future t')"
proof -
  define D where "D = dom (tasks e) - {i}"
  have D: "dom (tasks e) = insert i D" "dom (tasks e') = insert i D" "i \<notin> D" "finite D"
    using assms by (auto simp: D_def)
  have "(\<Sum>j \<in> D. rank (future (the (tasks e' j)))) = (\<Sum>j \<in> D. rank (future (the (tasks e j))))"
    using D(3) assms(3) by (intro sum.cong) auto
  then show ?thesis using assms(2,3) D by (simp add: work_left_def)
qed

lemma poll_ready_progress:
  assumes "queue_docs Q items capa" and "bounded_futures poll rank" and "finite (dom (tasks e))"
    and "length (items (task_queue e)) + work_left rank e \<le> capa (task_queue e)"
  shows "\<exists>e'. poll_ready Q poll i e = Ret e' \<and> finite (dom (tasks e')) \<and> capa (task_queue e') = capa (task_queue e) \<and>
    length (items (task_queue e')) + work_left rank e' \<le> length (items (task_queue e)) + work_left rank e"
proof (cases "tasks e i")
  case None
  then show ?thesis using assms(3) by (simp add: poll_ready_def)
next
  case (Some t)
  obtain p f' w' ws where p: "poll (future t) i (world e, []) = Ret (p, f', w', ws)"
      "length ws + (case p of Pending \<Rightarrow> rank f' | Ready \<Rightarrow> 0) \<le> rank (future t)"
    using assms(2) unfolding bounded_futures_def by blast
  have "rank (future t) \<le> work_left rank e"
    unfolding work_left_def using assms(3) Some by (intro order_trans [OF _ member_le_sum [of i]]) auto
  then have "length (items (task_queue e)) + length ws \<le> capa (task_queue e)" using assms(4) p(2) by linarith
  then obtain q where q: "for_each (wake_task Q) ws (task_queue e) = Ret q" "items q = items (task_queue e) @ ws"
      "capa q = capa (task_queue e)"
    using wake_all_ok [OF assms(1)] by blast
  let ?t = "t\<lparr>future := f'\<rparr>"
  let ?e = "e\<lparr>waker_cache := insert i (waker_cache e), tasks := (tasks e)(i \<mapsto> ?t), task_queue := q, world := w'\<rparr>"
  show ?thesis
  proof (cases p)
    case Ready
    let ?e1 = "?e\<lparr>tasks := (tasks e)(i := None), waker_cache := waker_cache e - {i}\<rparr>"
    have "poll_ready Q poll i e = Ret ?e1"
      using Some p(1) q(1) Ready by (simp add: poll_ready_def Task_poll_def)
    moreover have "work_left rank ?e1 + rank (future t) = work_left rank e"
      by (rule work_left_remove [OF assms(3) Some]) simp
    ultimately show ?thesis using assms(3) q p(2) Ready by (intro exI [of _ ?e1]) simp
  next
    case Pending
    have "poll_ready Q poll i e = Ret ?e"
      using Some p(1) q(1) Pending by (simp add: poll_ready_def Task_poll_def)
    moreover have "work_left rank ?e + rank (future t) = work_left rank e + rank f'"
      using work_left_update [OF assms(3) Some, of ?e ?t rank] by simp
    ultimately show ?thesis using assms(3) q p(2) Pending by (intro exI [of _ ?e]) simp
  qed
qed

lemma run_ready_ends:
  assumes "queue_docs Q items capa" and "bounded_futures poll rank" and "finite (dom (tasks e))"
    and "length (items (task_queue e)) + work_left rank e \<le> capa (task_queue e)"
  shows "\<exists>e'. run_ready_tasks Q poll e = Some (Ret e') \<and> items (task_queue e') = []"
  using assms(3,4)
proof (induction "length (items (task_queue e)) + work_left rank e" arbitrary: e rule: less_induct)
  case less
  show ?case
  proof (cases "items (task_queue e)")
    case Nil
    then show ?thesis using queue_docsD(4) [OF assms(1) Nil] by simp
  next
    case (Cons i rest)
    obtain q where q: "aq_pop Q (task_queue e) = (Some i, q)" "items q = rest" "capa q = capa (task_queue e)"
      using queue_docsD(5) [OF assms(1) Cons] by blast
    let ?e = "e\<lparr>task_queue := q\<rparr>"
    have w: "work_left rank ?e = work_left rank e" by (simp add: work_left_def)
    obtain e1 where e1: "poll_ready Q poll i ?e = Ret e1" "finite (dom (tasks e1))" "capa (task_queue e1) = capa q"
        "length (items (task_queue e1)) + work_left rank e1 \<le> length rest + work_left rank e"
      using poll_ready_progress [OF assms(1,2), of ?e i] less.prems q Cons w by auto
    then show ?thesis using less.hyps [of e1] less.prems(2) q Cons by simp
  qed
qed

text \<open>A poll function that also keeps a log of who was polled with which result.\<close>

definition log_poll :: "('f, TaskId, 'w \<times> TaskId list) poll_fn
    \<Rightarrow> ('f, TaskId, ('w \<times> (TaskId \<times> Poll) list) \<times> TaskId list) poll_fn" where
  "log_poll poll f i s = (case s of ((w, l), ws) \<Rightarrow>
     obind (poll f i (w, ws)) (\<lambda>(p, f, w, ws). Ret (p, f, (w, l @ [(i, p)]), ws)))"

lemma log_poll_log:
  "Task_poll (log_poll poll) t i (w, []) = Ret (p, t', w', ws) \<Longrightarrow> snd w' = snd w @ [(i, p)]"
  by (cases w) (auto simp: Task_poll_def log_poll_def outcome_simps)

lemma run_ready_logged:
  assumes "queue_docs Q items capa" and "run_ready_tasks Q (log_poll poll) e = Some (Ret e')"
  shows "\<exists>new. snd (world e') = snd (world e) @ new \<and> items (task_queue e') = [] \<and>
    dom (tasks e') = dom (tasks e) - {i. (i, Ready) \<in> set new} \<and>
    set (items (task_queue e)) \<inter> dom (tasks e) \<subseteq> fst ` set new"
  using assms(2)
proof (induction rule: run_ready_induct)
  case (idle e q)
  then have "items (task_queue e) = []"
    using queue_docsD(5) [OF assms(1), of "task_queue e"] by (cases "items (task_queue e)") auto
  then show ?case using idle queue_docsD(4) [OF assms(1), of "task_queue e"] by (intro exI [of _ "[]"]) simp
next
  case (step e i q e1 e')
  obtain new where n: "snd (world e') = snd (world e1) @ new" "items (task_queue e') = []"
      "dom (tasks e') = dom (tasks e1) - {i. (i, Ready) \<in> set new}"
      "set (items (task_queue e1)) \<inter> dom (tasks e1) \<subseteq> fst ` set new" using step(3) by blast
  have it: "items (task_queue e) = i # items q"
    using step(1) queue_docsD(4,5) [OF assms(1), of "task_queue e"] by (cases "items (task_queue e)") auto
  show ?case using step(2)
  proof (cases rule: poll_ready_cases)
    case gone
    then show ?thesis using n it by (intro exI [of _ new]) auto
  next
    case (finished t t' w ws q')
    have "items q' = items q @ ws" using wake_all_items [OF assms(1) finished(3)] by simp
    moreover have "snd w = snd (world e) @ [(i, Ready)]" using log_poll_log [OF finished(2)] by simp
    ultimately show ?thesis using n it finished(1,4) by (intro exI [of _ "(i, Ready) # new"]) auto
  next
    case (waiting t t' w ws q')
    have "items q' = items q @ ws" using wake_all_items [OF assms(1) waiting(3)] by simp
    moreover have "snd w = snd (world e) @ [(i, Pending)]" using log_poll_log [OF waiting(2)] by simp
    ultimately show ?thesis using n it waiting(1,4) by (intro exI [of _ "(i, Pending) # new"]) auto
  qed
qed

text \<open>The operations as steps, and the tables' invariant.\<close>

inductive executor_step :: "(TaskId, 'q) array_queue \<Rightarrow> ('f, TaskId, 'w \<times> TaskId list) poll_fn
    \<Rightarrow> ('f, 'q, 'w) Executor \<Rightarrow> ('f, 'q, 'w) Executor \<Rightarrow> bool" for Q poll where
  spawned: "spawn Q t e = Ret e' \<Longrightarrow> executor_step Q poll e e'"
| polled: "aq_pop Q (task_queue e) = (Some i, q) \<Longrightarrow> poll_ready Q poll i (e\<lparr>task_queue := q\<rparr>) = Ret e' \<Longrightarrow>
    executor_step Q poll e e'"
| woken: "wake_task Q i (task_queue e) = Ret q \<Longrightarrow> executor_step Q poll e (e\<lparr>task_queue := q, world := w\<rparr>)"

lemma spawn_ok:
  assumes "executor_ok e" and "spawn Q t e = Ret e'" shows "executor_ok e'"
proof -
  have "tasks e (task_id t) = None"
    using assms(2) by (cases "tasks e (task_id t)") (simp_all add: spawn_def)
  then obtain q where "wake_task Q (task_id t) (task_queue e) = Ret q"
      "e' = e\<lparr>tasks := (tasks e)(task_id t \<mapsto> t), task_queue := q\<rparr>"
    using assms(2) by (cases "wake_task Q (task_id t) (task_queue e)") (simp_all add: spawn_def)
  then show ?thesis using assms(1) by (auto simp: executor_ok_def)
qed

lemma executor_step_ok:
  assumes "executor_ok e" and "executor_step Q poll e e'" shows "executor_ok e'"
  using assms(2)
proof cases
  case (spawned t)
  then show ?thesis using assms(1) spawn_ok by blast
next
  case (polled i q)
  have "executor_ok (e\<lparr>task_queue := q\<rparr>)" using assms(1) by (simp add: executor_ok_def)
  then show ?thesis using polled(2) by (rule poll_ready_ok)
next
  case (woken i q w)
  then show ?thesis using assms(1) by (simp add: executor_ok_def)
qed

interpretation executor_tables: inductive_invariant "\<lambda>e. e = Executor_new Q w" "executor_step Q poll" executor_ok
  for Q w poll
proof
  show "executor_ok e" if "e = Executor_new Q w" for e
    using that by (simp add: Executor_new_def executor_ok_def)
qed (rule executor_step_ok)

text \<open>A future that counts down, waking itself each time, for examples.\<close>

definition countdown :: "(nat, TaskId, unit \<times> TaskId list) poll_fn" where
  "countdown n i s = Ret (if n = 0 then (Ready, n, s) else (Pending, n - 1, fst s, snd s @ [i]))"

definition count_polls :: "(nat, unit, nat) poll_fn" where
  "count_polls n _ w = Ret (if n = 0 then Ready else Pending, n - 1, w + 1)"

definition demo_executor :: "(nat, nat \<times> TaskId list, unit) Executor" where
  "demo_executor = \<lparr>tasks = [7 \<mapsto> \<lparr>future = 2, task_id = 7\<rparr>, 8 \<mapsto> \<lparr>future = 0, task_id = 8\<rparr>],
     task_queue = (128, [7, 8]), waker_cache = {}, world = ()\<rparr>"

lemma countdown_bounded: "bounded_futures countdown (\<lambda>n. n)"
  by (auto simp: bounded_futures_def countdown_def)

section \<open>The properties of the component\<close>

text \<open>C37. The round-robin executor is fair: as long as no poll panics, its loop does the same as going
  through the queue in rounds, polling every unfinished task exactly once per round, in the order
  in which they were spawned.\<close>

theorem simple_run_rounds:
  assumes "poll_round poll (simple_queue e) w = Ret (r, w')"
  shows "simple_run poll e w = simple_run poll \<lparr>simple_queue = r\<rparr> w'"
  using simple_loop_round [OF assms, of "[]"] by (simp add: simple_run_def)

theorem simple_run_rounds_witness:
  "simple_run count_polls
     \<lparr>simple_queue = [\<lparr>future = 0, task_id = 1\<rparr>, \<lparr>future = (1::nat), task_id = 2\<rparr>]\<rparr> (0::nat) =
   simple_run count_polls
     \<lparr>simple_queue = [\<lparr>future = 0, task_id = 2\<rparr>]\<rparr> 2"
  by (rule simple_run_rounds) (simp add: Task_poll_def count_polls_def)

text \<open>C38. The round-robin executor ends: if every future needs only a bounded number of further polls
  (a rank that decreases with every pending poll) and no poll panics, \<^verbatim>\<open>run\<close> returns.\<close>

theorem simple_run_ends:
  assumes "\<forall>f w. \<exists>p f' w'. poll f () w = Ret (p, f', w') \<and> (p = Pending \<longrightarrow> rank f' < (rank f :: nat))"
  shows "\<exists>w'. simple_run poll e w = Ret w'"
  using simple_loop_ends [where rank = rank and poll = poll, OF assms, of "simple_queue e" w] by (auto simp: simple_run_def)

theorem simple_run_ends_witness:
  "\<exists>w'. simple_run count_polls
     (simple_spawn \<lparr>future = (5::nat), task_id = 0\<rparr> SimpleExecutor_new) (0::nat) = Ret w'"
  by (rule simple_run_ends [where rank = "\<lambda>n. n"]) (auto simp: count_polls_def)



text \<open>C18. \<^verbatim>\<open>run_ready_tasks\<close> leaves no work behind and does not panic: if the futures cause a bounded
  number of wake-ups and the bound fits the queue, the call returns, with the queue empty.\<close>

theorem executor_run_ready_ends:
  assumes "queue_docs Q items capa" and "bounded_futures poll rank" and "executor_ok e"
    and "length (items (task_queue e)) + work_left rank e \<le> capa (task_queue e)"
  shows "\<exists>e'. run_ready_tasks Q poll e = Some (Ret e') \<and> items (task_queue e') = []"
  using assms(3) by (intro run_ready_ends [OF assms(1,2) _ assms(4)]) (simp add: executor_ok_def)

theorem executor_run_ready_ends_witness:
  "\<exists>e'. run_ready_tasks list_queue countdown demo_executor = Some (Ret e') \<and> snd (task_queue e') = []"
  by (rule executor_run_ready_ends [OF list_queue_docs countdown_bounded])
     (auto simp: executor_ok_def demo_executor_def work_left_def)

text \<open>C19. \<^verbatim>\<open>run_ready_tasks\<close> polls what is due and forgets only what is done: when it returns, every present
  task whose id was in the queue has been polled, the queue is empty, and the tasks that are gone
  are exactly those one of whose polls returned \<^verbatim>\<open>Ready\<close>.\<close>

theorem executor_polls_due:
  assumes "queue_docs Q items capa" and "run_ready_tasks Q (log_poll poll) e = Some (Ret e')" and "snd (world e) = []"
  shows "set (items (task_queue e)) \<inter> dom (tasks e) \<subseteq> fst ` set (snd (world e')) \<and> items (task_queue e') = [] \<and>
    dom (tasks e) - dom (tasks e') = {i \<in> dom (tasks e). (i, Ready) \<in> set (snd (world e'))} \<and>
    dom (tasks e') \<subseteq> dom (tasks e)"
  using run_ready_logged [OF assms(1,2)] assms(3) by auto

theorem executor_polls_due_witness:
  "\<exists>e'. run_ready_tasks list_queue (log_poll countdown)
      \<lparr>tasks = [8 \<mapsto> \<lparr>future = 0, task_id = 8\<rparr>], task_queue = (128, [8]), waker_cache = {}, world = ((), [])\<rparr> = Some (Ret e') \<and>
    8 \<in> fst ` set (snd (world e')) \<and> dom (tasks e') \<subseteq> {8}"
proof -
  let ?e = "\<lparr>tasks = [8 \<mapsto> \<lparr>future = 0, task_id = 8\<rparr>], task_queue = (128, [8]), waker_cache = {}, world = ((), [])\<rparr>
    :: (nat, nat \<times> TaskId list, unit \<times> (TaskId \<times> Poll) list) Executor"
  have "bounded_futures (log_poll countdown) (\<lambda>n. n)"
    by (auto simp: bounded_futures_def log_poll_def countdown_def)
  moreover have "finite (dom (tasks ?e))" "length (snd (task_queue ?e)) + work_left (\<lambda>n. n) ?e \<le> fst (task_queue ?e)"
    by (simp_all add: work_left_def)
  ultimately obtain e' where r: "run_ready_tasks list_queue (log_poll countdown) ?e = Some (Ret e')"
    using run_ready_ends [OF list_queue_docs, of "log_poll countdown" "\<lambda>n. n" ?e] by blast
  from executor_polls_due [OF list_queue_docs this] r show ?thesis by auto
qed

end
