(* ===== verification/Vga.thy ===== *)
theory Vga
  imports Sys
begin

unbundle bit_operations_syntax

text \<open>
  \<^verbatim>\<open>kernel/src/vga_buffer.rs\<close>: the text-mode screen. The frame buffer at \<^verbatim>\<open>0xb8000\<close> is a list
  of 25 rows of 80 cells; indexing it outside these bounds panics, as Rust's arrays do. The
  writer always writes on the last row and scrolls the others up. The properties: no operation
  panics on a well-formed writer and all keep it well-formed, the copying loops of \<open>new_line\<close>
  are a scroll by one row, and the screen after any output is the last 25 rows of an unbounded
  terminal transcript.
\<close>

section \<open>Data\<close>

datatype Color = Black | Blue | Green | Cyan | Red | Magenta | Brown | LightGray
  | DarkGray | LightBlue | LightGreen | LightCyan | LightRed | Pink | Yellow | White

fun color_u8 :: "Color \<Rightarrow> u8" where
  "color_u8 Black = 0" | "color_u8 Blue = 1" | "color_u8 Green = 2" | "color_u8 Cyan = 3"
| "color_u8 Red = 4" | "color_u8 Magenta = 5" | "color_u8 Brown = 6" | "color_u8 LightGray = 7"
| "color_u8 DarkGray = 8" | "color_u8 LightBlue = 9" | "color_u8 LightGreen = 10"
| "color_u8 LightCyan = 11" | "color_u8 LightRed = 12" | "color_u8 Pink = 13"
| "color_u8 Yellow = 14" | "color_u8 White = 15"

datatype ColorCode = ColorCode (code_u8: u8)

definition ColorCode_new :: "Color \<Rightarrow> Color \<Rightarrow> ColorCode" where
  "ColorCode_new foreground background =
     ColorCode (push_bit 4 (color_u8 background) OR color_u8 foreground)"

record ScreenChar =
  ascii_character :: u8
  sc_color_code :: ColorCode

definition BUFFER_HEIGHT :: nat where
  "BUFFER_HEIGHT = 25"

definition BUFFER_WIDTH :: nat where
  "BUFFER_WIDTH = 80"

type_synonym Buffer = "ScreenChar list list"

record Writer =
  column_position :: nat
  color_code :: ColorCode
  buffer :: Buffer

text \<open>\<^verbatim>\<open>chars[row][col]\<close> read and written: an index out of bounds panics.\<close>

definition chars_read :: "Writer \<Rightarrow> nat \<Rightarrow> nat \<Rightarrow> ScreenChar outcome" where
  "chars_read w row col =
     (if row < length (buffer w) \<and> col < length (buffer w ! row)
      then Ret (buffer w ! row ! col) else Panic)"

definition chars_write :: "nat \<Rightarrow> nat \<Rightarrow> ScreenChar \<Rightarrow> Writer \<Rightarrow> Writer outcome" where
  "chars_write row col c w =
     (if row < length (buffer w) \<and> col < length (buffer w ! row)
      then Ret (w\<lparr>buffer := (buffer w)[row := (buffer w ! row)[col := c]]\<rparr>) else Panic)"

section \<open>The writer\<close>

definition blank :: "Writer \<Rightarrow> ScreenChar" where
  "blank w = \<lparr>ascii_character = 0x20, sc_color_code = color_code w\<rparr>"

definition clear_row :: "nat \<Rightarrow> Writer \<Rightarrow> Writer outcome" where
  "clear_row row w =
     (let b = blank w in for_each (\<lambda>col. chars_write row col b) [0..<BUFFER_WIDTH] w)"

definition new_line :: "Writer \<Rightarrow> Writer outcome" where
  "new_line w =
     obind (for_each (\<lambda>row. for_each (\<lambda>col w.
              obind (chars_read w row col) (\<lambda>character. chars_write (row - 1) col character w))
            [0..<BUFFER_WIDTH]) [1..<BUFFER_HEIGHT] w) (\<lambda>w.
     obind (clear_row (BUFFER_HEIGHT - 1) w) (\<lambda>w.
     Ret (w\<lparr>column_position := 0\<rparr>)))"

definition write_byte :: "u8 \<Rightarrow> Writer \<Rightarrow> Writer outcome" where
  "write_byte byte w =
     (if byte = 0x0a then new_line w
      else
        obind (if BUFFER_WIDTH \<le> column_position w then new_line w else Ret w) (\<lambda>w.
        let row = BUFFER_HEIGHT - 1; col = column_position w in
        obind (chars_write row col
                 \<lparr>ascii_character = byte, sc_color_code = color_code w\<rparr> w) (\<lambda>w.
        Ret (w\<lparr>column_position := column_position w + 1\<rparr>))))"

definition sanitize :: "u8 \<Rightarrow> u8" where
  "sanitize byte = (if 0x20 \<le> byte \<and> byte \<le> 0x7e \<or> byte = 0x0a then byte else 0xfe)"

definition write_string :: "u8 list \<Rightarrow> Writer \<Rightarrow> Writer outcome" where
  "write_string s w = for_each (\<lambda>byte. write_byte (sanitize byte)) s w"

text \<open>\<^verbatim>\<open>fmt::Write\<close> for the writer.\<close>

definition write_str :: "u8 list \<Rightarrow> Writer \<Rightarrow> ((unit + unit) \<times> Writer) outcome" where
  "write_str s w = obind (write_string s w) (\<lambda>w. Ret (Inr (), w))"

section \<open>The global writer\<close>

text \<open>
  The static \<^verbatim>\<open>WRITER\<close> behind its spin lock, in a machine with an interrupt flag. Taking the
  lock is the \<^verbatim>\<open>spin\<close> crate's: the closure runs while the lock is held.
\<close>

record console = machine +
  WRITER :: Writer
  writer_locked :: bool

type_synonym 'a lock_fn =
  "('a console_scheme \<Rightarrow> 'a console_scheme outcome) \<Rightarrow> 'a console_scheme \<Rightarrow> 'a console_scheme outcome"

text \<open>
  The documented behaviour of \<^verbatim>\<open>spin::Mutex\<close>: \<^verbatim>\<open>lock\<close> spins until the lock is free (for ever,
  if this core holds it already), the guard gives access until it is dropped, and dropping it
  frees the lock.
\<close>

definition lock_docs :: "'a lock_fn \<Rightarrow> bool" where
  "lock_docs L \<longleftrightarrow> (\<forall>f s. L f s =
     (if writer_locked s then Diverge
      else obind (f (s\<lparr>writer_locked := True\<rparr>)) (\<lambda>t. Ret (t\<lparr>writer_locked := False\<rparr>))))"

definition WRITER_init :: "Buffer \<Rightarrow> Writer" where
  "WRITER_init memory = \<lparr>column_position = 0, color_code = ColorCode_new Yellow Black,
     buffer = memory\<rparr>"

definition print :: "'a console_scheme irq_api \<Rightarrow> 'a lock_fn \<Rightarrow> u8 list list
    \<Rightarrow> 'a console_scheme \<Rightarrow> 'a console_scheme outcome" where
  "print X L args = without_interrupts X (L (\<lambda>s.
     obind (write_fmt write_str args (WRITER s)) (\<lambda>(r, w).
     obind (unwrap_result r) (\<lambda>_. Ret (s\<lparr>WRITER := w\<rparr>)))))"

definition println :: "'a console_scheme irq_api \<Rightarrow> 'a lock_fn \<Rightarrow> u8 list list
    \<Rightarrow> 'a console_scheme \<Rightarrow> 'a console_scheme outcome" where
  "println X L args = print X L (args @ [[0x0a]])"

definition print_bytes :: "'a console_scheme irq_api \<Rightarrow> 'a lock_fn \<Rightarrow> u8 list
    \<Rightarrow> 'a console_scheme \<Rightarrow> 'a console_scheme outcome" where
  "print_bytes X L bytes = without_interrupts X (L (\<lambda>s.
     obind (for_each write_byte bytes (WRITER s)) (\<lambda>w. Ret (s\<lparr>WRITER := w\<rparr>))))"

section \<open>Well-formed writers\<close>

definition buffer_ok :: "Buffer \<Rightarrow> bool" where
  "buffer_ok b \<longleftrightarrow> length b = BUFFER_HEIGHT \<and> (\<forall>r \<in> set b. length r = BUFFER_WIDTH)"

definition writer_ok :: "Writer \<Rightarrow> bool" where
  "writer_ok w \<longleftrightarrow> buffer_ok (buffer w) \<and> column_position w \<le> BUFFER_WIDTH"

text \<open>Reference versions of the operations: what one row, one scroll and one byte are.\<close>

definition scrolled :: "Writer \<Rightarrow> Writer" where
  "scrolled w = w\<lparr>column_position := 0,
     buffer := tl (buffer w) @ [replicate BUFFER_WIDTH (blank w)]\<rparr>"

definition put_char :: "u8 \<Rightarrow> Writer \<Rightarrow> Writer" where
  "put_char byte w = w\<lparr>column_position := column_position w + 1,
     buffer := butlast (buffer w) @ [(last (buffer w))[column_position w :=
       \<lparr>ascii_character = byte, sc_color_code = color_code w\<rparr>]]\<rparr>"

definition byte_written :: "u8 \<Rightarrow> Writer \<Rightarrow> Writer" where
  "byte_written byte w =
     (if byte = 0x0a then scrolled w
      else put_char byte (if column_position w < BUFFER_WIDTH then w else scrolled w))"

text \<open>
  The specification of the screen: a terminal that keeps every row it ever showed. A byte goes
  into the current row; a newline, or a byte that finds the row full, retires the row and opens
  a blank one. The screen shows the last 25 rows.
\<close>

record terminal =
  retired :: "ScreenChar list list"
  current_row :: "ScreenChar list"
  cursor :: nat
  t_color :: ColorCode

definition terminal_newline :: "terminal \<Rightarrow> terminal" where
  "terminal_newline t = t\<lparr>retired := retired t @ [current_row t],
     current_row := replicate 80 \<lparr>ascii_character = 0x20, sc_color_code = t_color t\<rparr>, cursor := 0\<rparr>"

definition terminal_char :: "u8 \<Rightarrow> terminal \<Rightarrow> terminal" where
  "terminal_char byte t = t\<lparr>cursor := cursor t + 1, current_row := (current_row t)[cursor t :=
     \<lparr>ascii_character = byte, sc_color_code = t_color t\<rparr>]\<rparr>"

definition terminal_byte :: "u8 \<Rightarrow> terminal \<Rightarrow> terminal" where
  "terminal_byte byte t =
     (if byte = 0x0a then terminal_newline t
      else terminal_char byte (if cursor t < 80 then t else terminal_newline t))"

definition shown :: "terminal \<Rightarrow> Buffer" where
  "shown t = drop (length (retired t) - 24) (retired t) @ [current_row t]"

definition terminal_of :: "Writer \<Rightarrow> terminal" where
  "terminal_of w = \<lparr>retired = butlast (buffer w), current_row = last (buffer w),
     cursor = column_position w, t_color = color_code w\<rparr>"

definition shows_terminal :: "terminal \<Rightarrow> Writer \<Rightarrow> bool" where
  "shows_terminal t w \<longleftrightarrow> 24 \<le> length (retired t) \<and> buffer w = shown t \<and>
     column_position w = cursor t \<and> color_code w = t_color t"

text \<open>The bytes some cell of the screen holds.\<close>

definition on_screen :: "Writer \<Rightarrow> u8 set" where
  "on_screen w = (\<Union>r \<in> set (buffer w). ascii_character ` set r)"

text \<open>A screen filled with one cell, for examples.\<close>

definition demo_writer :: Writer where
  "demo_writer = WRITER_init (replicate 25 (replicate 80
     \<lparr>ascii_character = 0x2a, sc_color_code = ColorCode 0\<rparr>))"

definition demo_console :: console where
  "demo_console = \<lparr>int_flag = True, halted = False, WRITER = demo_writer, writer_locked = False\<rparr>"

definition std_lock :: "'a lock_fn" where
  "std_lock f s = (if writer_locked s then Diverge
     else obind (f (s\<lparr>writer_locked := True\<rparr>)) (\<lambda>t. Ret (t\<lparr>writer_locked := False\<rparr>)))"

lemmas vga_consts = BUFFER_HEIGHT_def BUFFER_WIDTH_def

lemma buffer_okD:
  assumes "buffer_ok b"
  shows "length b = 25" and "r < 25 \<Longrightarrow> length (b ! r) = 80" and "b \<noteq> []"
  using assms by (auto simp: buffer_ok_def vga_consts)

lemma buffer_ok_update: "buffer_ok b \<Longrightarrow> length r = 80 \<Longrightarrow> buffer_ok (b[i := r])"
  by (auto simp: buffer_ok_def vga_consts dest!: set_update_subset_insert [THEN subsetD])

lemma update_take_drop:
  "n < length xs \<Longrightarrow> n < length ys \<Longrightarrow>
   (take n ys @ drop n xs)[n := ys ! n] = take (Suc n) ys @ drop (Suc n) xs"
  by (simp add: list_update_append take_Suc_conv_app_nth Cons_nth_drop_Suc [symmetric])

text \<open>The inner loop of \<open>new_line\<close> copies one row over the row above it.\<close>

lemma copy_row_prefix:
  assumes "buffer_ok (buffer w)" and "0 < row" and "row < 25" and "n \<le> 80"
  shows "for_each (\<lambda>col w. obind (chars_read w row col)
           (\<lambda>character. chars_write (row - 1) col character w)) [0..<n] w =
     Ret (w\<lparr>buffer := (buffer w)[row - 1 :=
       take n (buffer w ! row) @ drop n (buffer w ! (row - 1))]\<rparr>)"
  using assms(4)
proof (induction n)
  case 0
  then show ?case by simp
next
  case (Suc n)
  note lens = buffer_okD [OF assms(1)]
  have "row \<noteq> row - 1" using assms(2) by simp
  with Suc lens assms(2,3) show ?case
    by (simp add: for_each_append chars_read_def chars_write_def update_take_drop)
qed

lemma copy_row:
  assumes "buffer_ok (buffer w)" and "0 < row" and "row < 25"
  shows "for_each (\<lambda>col w. obind (chars_read w row col)
           (\<lambda>character. chars_write (row - 1) col character w)) [0..<BUFFER_WIDTH] w =
     Ret (w\<lparr>buffer := (buffer w)[row - 1 := buffer w ! row]\<rparr>)"
  using copy_row_prefix [OF assms, of 80] assms buffer_okD [OF assms(1)]
  by (simp add: vga_consts)

text \<open>The outer loop shifts the rows up one by one.\<close>

lemma shift_rows_prefix:
  assumes "buffer_ok (buffer w)" and "m < 25"
  shows "for_each (\<lambda>row. for_each (\<lambda>col w. obind (chars_read w row col)
           (\<lambda>character. chars_write (row - 1) col character w)) [0..<BUFFER_WIDTH]) [1..<Suc m] w =
     Ret (w\<lparr>buffer := take m (tl (buffer w)) @ drop m (buffer w)\<rparr>)"
  using assms(2)
proof (induction m)
  case 0
  then show ?case by simp
next
  case (Suc m)
  let ?b = "take m (tl (buffer w)) @ drop m (buffer w)"
  note lens = buffer_okD [OF assms(1)]
  have ok: "buffer_ok ?b"
    using assms(1) lens Suc.prems by (auto simp: buffer_ok_def vga_consts dest!: in_set_takeD in_set_dropD in_set_tl)
  have row: "tl (buffer w) ! m = buffer w ! Suc m" "?b ! Suc m = buffer w ! Suc m"
    using Suc.prems lens by (simp_all add: nth_tl nth_append)
  moreover have "?b[m := tl (buffer w) ! m] = take (Suc m) (tl (buffer w)) @ drop (Suc m) (buffer w)"
    using Suc.prems lens by (intro update_take_drop) simp_all
  ultimately show ?case
    using Suc copy_row [of "w\<lparr>buffer := ?b\<rparr>" "Suc m"] ok by (simp add: for_each_append)
qed

lemma clear_row_prefix:
  assumes "buffer_ok (buffer w)" and "row < 25" and "n \<le> 80"
  shows "for_each (\<lambda>col. chars_write row col c) [0..<n] w =
     Ret (w\<lparr>buffer := (buffer w)[row := replicate n c @ drop n (buffer w ! row)]\<rparr>)"
  using assms(3)
proof (induction n)
  case 0
  then show ?case by simp
next
  case (Suc n)
  have "(replicate n c @ drop n (buffer w ! row))[n := c] = replicate (Suc n) c @ drop (Suc n) (buffer w ! row)"
    using Suc.prems assms(2) buffer_okD [OF assms(1)]
    by (simp add: list_update_append replicate_app_Cons_same Cons_nth_drop_Suc [symmetric])
  with Suc buffer_okD [OF assms(1)] assms(2) show ?case
    by (simp add: for_each_append chars_write_def replicate_append_same)
qed

lemma clear_row_eq:
  assumes "buffer_ok (buffer w)" and "row < 25"
  shows "clear_row row w = Ret (w\<lparr>buffer := (buffer w)[row := replicate 80 (blank w)]\<rparr>)"
  using clear_row_prefix [OF assms, of 80 "blank w"] assms buffer_okD [OF assms(1)]
  by (simp add: clear_row_def vga_consts)

lemma tl_butlast_snoc: "length b = Suc (Suc n) \<Longrightarrow> (take (Suc n) (tl b) @ drop (Suc n) b)[Suc n := r] = tl b @ [r]"
  by (simp add: list_update_append)
     (metis Cons_nth_drop_Suc drop_all le_refl lessI list_update_code(2))


lemma new_line_eq:
  assumes "buffer_ok (buffer w)"
  shows "new_line w = Ret (scrolled w)"
proof -
  let ?b = "take 24 (tl (buffer w)) @ drop 24 (buffer w)"
  note lens = buffer_okD [OF assms]
  have ok: "buffer_ok ?b"
    using assms lens by (auto simp: buffer_ok_def vga_consts dest!: in_set_dropD in_set_tl)
  have "?b[24 := r] = tl (buffer w) @ [r]" for r
    using tl_butlast_snoc [of "buffer w" 23 r] lens by simp
  then show ?thesis
    using shift_rows_prefix [OF assms, of 24] clear_row_eq [of "w\<lparr>buffer := ?b\<rparr>" 24] ok
    by (simp add: new_line_def scrolled_def blank_def vga_consts)
qed

lemma scrolled_ok: "writer_ok w \<Longrightarrow> writer_ok (scrolled w)"
  by (auto simp: writer_ok_def buffer_ok_def scrolled_def vga_consts dest: in_set_tl)

lemma put_char_ok: "writer_ok w \<Longrightarrow> column_position w < 80 \<Longrightarrow> writer_ok (put_char byte w)"
  using buffer_okD(3) [of "buffer w"] last_in_set [of "buffer w"]
  by (auto simp: writer_ok_def buffer_ok_def put_char_def vga_consts dest: in_set_butlastD)

lemma byte_written_ok: "writer_ok w \<Longrightarrow> writer_ok (byte_written byte w)"
  by (auto simp: byte_written_def vga_consts intro!: put_char_ok scrolled_ok) (simp add: scrolled_def)

lemma write_char_eq:
  assumes "writer_ok w" and "column_position w < 80"
  shows "chars_write 24 (column_position w) \<lparr>ascii_character = byte, sc_color_code = color_code w\<rparr> w =
    Ret ((put_char byte w)\<lparr>column_position := column_position w\<rparr>)"
proof -
  have ok: "buffer_ok (buffer w)" using assms(1) by (simp add: writer_ok_def)
  note lens = buffer_okD [OF ok]
  have "(butlast (buffer w) @ [last (buffer w)])[length (butlast (buffer w)) := r] = butlast (buffer w) @ [r]" for r
    by (rule list_update_length)
  then have "(buffer w)[24 := r] = butlast (buffer w) @ [r]" for r
    using lens by simp
  moreover have "buffer w ! 24 = last (buffer w)" using lens by (simp add: last_conv_nth)
  ultimately show ?thesis using assms lens lens(2) [of 24]
    by (simp add: chars_write_def put_char_def)
qed

lemma write_byte_eq:
  assumes "writer_ok w"
  shows "write_byte byte w = Ret (byte_written byte w)"
proof -
  have nl: "new_line w = Ret (scrolled w)"
    using assms by (simp add: writer_ok_def new_line_eq)
  have sc: "column_position (scrolled w) = 0" by (simp add: scrolled_def)
  have pc: "column_position (put_char byte w') = Suc (column_position w')" for w'
    by (simp add: put_char_def)
  show ?thesis
  proof (cases "byte = 0x0a")
    case True
    with nl show ?thesis by (simp add: write_byte_def byte_written_def)
  next
    case False
    let ?w = "if column_position w < 80 then w else scrolled w"
    have "writer_ok ?w" and "column_position ?w < 80"
      using assms scrolled_ok sc by auto
    from write_char_eq [OF this, of byte] False nl pc show ?thesis
      by (auto simp: write_byte_def byte_written_def vga_consts Let_def not_le put_char_def)
  qed
qed

lemma write_bytes_eq:
  assumes "writer_ok w"
  shows "for_each (\<lambda>b. write_byte (f b)) bs w = Ret (fold (\<lambda>b. byte_written (f b)) bs w)"
    and "writer_ok (fold (\<lambda>b. byte_written (f b)) bs w)"
  using for_each_pure [of bs writer_ok "\<lambda>b. write_byte (f b)" "\<lambda>b. byte_written (f b)" w] assms
  by (simp_all add: write_byte_eq byte_written_ok)

interpretation vga_fmt: fmt_sink write_str writer_ok "\<lambda>b. byte_written (sanitize b)"
proof
  fix s w assume "writer_ok w"
  then show "write_str s w = Ret (Inr (), fold (\<lambda>b. byte_written (sanitize b)) s w)"
    by (simp add: write_str_def write_string_def write_bytes_eq)
qed (simp add: byte_written_ok)

lemma print_eq:
  assumes "irq_docs X" and "lock_docs L" and "\<not> writer_locked s" and "writer_ok (WRITER s)"
  shows "print X L args s =
    Ret (s\<lparr>WRITER := fold (\<lambda>b. byte_written (sanitize b)) (concat args) (WRITER s)\<rparr>)"
  using assms
  by (cases "int_flag s")
     (simp_all add: print_def without_interrupts_def irq_docs_def lock_docs_def vga_fmt.write_fmt_eq)

lemma print_bytes_eq:
  assumes "irq_docs X" and "lock_docs L" and "\<not> writer_locked s" and "writer_ok (WRITER s)"
  shows "print_bytes X L bytes s = Ret (s\<lparr>WRITER := fold byte_written bytes (WRITER s)\<rparr>)"
  using assms write_bytes_eq [of "WRITER s" "\<lambda>b. b" bytes]
  by (cases "int_flag s")
     (simp_all add: print_bytes_def without_interrupts_def irq_docs_def lock_docs_def)

section \<open>The screen is a window on a terminal\<close>

lemma shows_terminal_of: "writer_ok w \<Longrightarrow> shows_terminal (terminal_of w) w"
  using buffer_okD [of "buffer w"]
  by (simp add: shows_terminal_def terminal_of_def shown_def writer_ok_def)

lemma shows_terminal_newline:
  assumes "shows_terminal t w" shows "shows_terminal (terminal_newline t) (scrolled w)"
proof -
  let ?n = "length (retired t) - 24"
  from assms have len: "24 \<le> length (retired t)" by (simp add: shows_terminal_def)
  then have "?n < length (retired t)" by linarith
  then have "tl (drop ?n (retired t) @ [current_row t]) = drop (Suc ?n) (retired t) @ [current_row t]"
    by (simp add: Cons_nth_drop_Suc [symmetric])
  moreover have "Suc (length (retired t)) - 24 = Suc ?n" using len by linarith
  ultimately show ?thesis using assms len
    by (simp add: shows_terminal_def shown_def scrolled_def terminal_newline_def blank_def vga_consts
        del: diff_Suc_numeral)
qed

lemma shows_terminal_char:
  "shows_terminal t w \<Longrightarrow> shows_terminal (terminal_char byte t) (put_char byte w)"
  by (simp add: shows_terminal_def shown_def put_char_def terminal_char_def butlast_append)

lemma shows_terminal_byte:
  "shows_terminal t w \<Longrightarrow> shows_terminal (terminal_byte byte t) (byte_written byte w)"
  using shows_terminal_newline [of t w]
  by (auto simp: terminal_byte_def byte_written_def vga_consts shows_terminal_def [of t w]
      intro: shows_terminal_char)

lemma shows_terminal_fold:
  "shows_terminal t w \<Longrightarrow> shows_terminal (fold terminal_byte bs t) (fold byte_written bs w)"
  by (induction bs arbitrary: t w) (auto intro: shows_terminal_byte)

section \<open>One line of text\<close>

lemma put_chars:
  assumes "writer_ok w" and "column_position w + length bs \<le> 80" and "0x0a \<notin> set bs"
  shows "fold byte_written bs w = w\<lparr>column_position := column_position w + length bs,
    buffer := butlast (buffer w) @ [take (column_position w) (last (buffer w)) @
      map (\<lambda>b. \<lparr>ascii_character = b, sc_color_code = color_code w\<rparr>) bs @
      drop (column_position w + length bs) (last (buffer w))]\<rparr>"
  using assms
proof (induction bs arbitrary: w)
  case Nil
  then show ?case using buffer_okD(3) [of "buffer w"] by (simp add: writer_ok_def)
next
  case (Cons b bs)
  have b: "byte_written b w = put_char b w"
    using Cons.prems by (simp add: byte_written_def vga_consts)
  have "writer_ok (put_char b w)" using Cons.prems by (simp add: put_char_ok)
  moreover have "length (last (buffer w)) = 80"
    using Cons.prems(1) buffer_okD(3) [of "buffer w"] last_in_set [of "buffer w"]
    by (auto simp: writer_ok_def buffer_ok_def vga_consts)
  ultimately show ?case
    using Cons.IH [of "put_char b w"] Cons.prems
    by (simp add: b put_char_def take_Suc_conv_app_nth)
qed

lemma line_shown:
  assumes "writer_ok w" and "column_position w = 0" and "last (buffer w) = replicate 80 (blank w)"
    and "length msg \<le> 80" and "0x0a \<notin> set msg"
  shows "buffer (scrolled (fold byte_written msg w)) ! 23 =
    map (\<lambda>b. \<lparr>ascii_character = b, sc_color_code = color_code w\<rparr>) msg
      @ replicate (80 - length msg) (blank w)"
proof -
  have "length (buffer w) = 25" using assms(1) by (auto simp: writer_ok_def dest: buffer_okD(1))
  then show ?thesis
    using put_chars [OF assms(1), of msg] assms(2-)
    by (simp add: scrolled_def nth_append nth_tl)
qed

lemma current_line_shown:
  assumes "writer_ok w" and "length msg \<le> 80" and "0x0a \<notin> set msg"
  shows "map ascii_character (last (buffer (fold byte_written msg (scrolled w)))) = msg @ replicate (80 - length msg) 0x20"
  using put_chars [OF scrolled_ok [OF assms(1)], of msg] assms(2,3)
  by (simp add: scrolled_def blank_def vga_consts comp_def)

lemma sanitize_printable: "0x20 \<le> b \<and> b \<le> 0x7e \<Longrightarrow> sanitize b = b \<and> sanitize b \<noteq> 0x0a"
  by (auto simp: sanitize_def)

lemma sanitize_fold:
  "\<forall>b\<in>set bs. 0x20 \<le> b \<and> b \<le> 0x7e \<Longrightarrow>
    fold (\<lambda>b. byte_written (sanitize b)) bs w = fold byte_written bs w"
  by (induction bs arbitrary: w) (simp_all add: sanitize_printable)

lemma sanitize_newline [simp]: "sanitize 0x0a = 0x0a"
  by (simp add: sanitize_def)

lemma on_screen_byte:
  assumes "writer_ok w"
  shows "on_screen (byte_written b w) \<subseteq> on_screen w \<union> {0x20} \<union> (if b = 0x0a then {} else {b})"
proof -
  have sc: "on_screen (scrolled w) \<subseteq> on_screen w \<union> {0x20}"
    by (auto simp: on_screen_def scrolled_def blank_def dest: in_set_tl)
  have pc: "on_screen (put_char b v) \<subseteq> on_screen v \<union> {b}" if "writer_ok v" for v
  proof -
    have "buffer v \<noteq> []" using that buffer_okD(3) by (auto simp: writer_ok_def)
    then have "last (buffer v) \<in> set (buffer v)" by simp
    then show ?thesis
      by (fastforce simp: on_screen_def put_char_def dest: in_set_butlastD
          dest!: set_update_subset_insert [THEN subsetD])
  qed
  show ?thesis
    using sc pc [OF assms] pc [OF scrolled_ok [OF assms]]
    by (auto simp: byte_written_def)
qed

lemma demo_writer_ok: "writer_ok demo_writer"
  by (simp add: writer_ok_def buffer_ok_def demo_writer_def WRITER_init_def vga_consts)

lemma std_lock_docs: "lock_docs std_lock"
  by (simp add: lock_docs_def std_lock_def)

section \<open>The properties of the component\<close>

text \<open>The nested copying loops of \<^verbatim>\<open>Writer::new_line\<close> never index out of bounds on a
  well-formed writer, and their effect is to drop the top row, append a blank row in the current
  colour and return to column 0; the writer stays well-formed.\<close>

lemma new_line_scrolls:
  assumes "writer_ok w"
  shows "new_line w = Ret (w\<lparr>column_position := 0, buffer := tl (buffer w) @
      [replicate 80 \<lparr>ascii_character = 0x20, sc_color_code = color_code w\<rparr>]\<rparr>)
    \<and> (\<forall>w'. new_line w = Ret w' \<longrightarrow> writer_ok w')"
proof -
  have "new_line w = Ret (scrolled w)" using assms by (simp add: writer_ok_def new_line_eq)
  then show ?thesis
    using scrolled_ok [OF assms] by (simp add: scrolled_def blank_def vga_consts)
qed

text \<open>C10. The screen refines a terminal that forgets nothing: writing any bytes to a well-formed
  writer returns, keeps it well-formed, and leaves on screen exactly the last 25 rows of the
  transcript the terminal has of the same bytes, with the same cursor column.\<close>

theorem write_bytes_refine_terminal:
  assumes "writer_ok w"
  shows "\<exists>w'. for_each write_byte bytes w = Ret w' \<and> writer_ok w' \<and>
    buffer w' = shown (fold terminal_byte bytes (terminal_of w)) \<and>
    column_position w' = cursor (fold terminal_byte bytes (terminal_of w))"
  using write_bytes_eq [OF assms, of "\<lambda>b. b" bytes]
    shows_terminal_fold [OF shows_terminal_of [OF assms], of bytes]
  by (auto simp: shows_terminal_def)

theorem write_bytes_refine_terminal_witness:
  "\<exists>w'. for_each write_byte [0x48, 0x0a, 0x69] demo_writer = Ret w' \<and> writer_ok w' \<and>
    buffer w' = shown (fold terminal_byte [0x48, 0x0a, 0x69] (terminal_of demo_writer)) \<and>
    column_position w' = 1"
  using write_bytes_refine_terminal [OF demo_writer_ok, of "[0x48, 0x0a, 0x69]"]
  by (simp add: terminal_byte_def terminal_newline_def terminal_char_def)

text \<open>What the test \<^verbatim>\<open>println_output\<close> checks for one string holds for every line of at most 80
  printable characters: after \<^verbatim>\<open>println!()\<close> and \<^verbatim>\<open>println!("{}", s)\<close> the last but one row shows
  \<open>s\<close> from column 0, padded with blanks, the lock is free and the interrupt flag is as before.\<close>

lemma println_output:
  assumes "irq_docs X" and "lock_docs L" and "\<not> writer_locked s" and "writer_ok (WRITER s)"
    and "length msg \<le> 80" and "\<forall>b \<in> set msg. 0x20 \<le> b \<and> b \<le> 0x7e"
  shows "\<exists>s'. obind (println X L [] s) (println X L [msg]) = Ret s' \<and>
    buffer (WRITER s') ! (BUFFER_HEIGHT - 2) =
      map (\<lambda>b. \<lparr>ascii_character = b, sc_color_code = color_code (WRITER s)\<rparr>) msg
        @ replicate (80 - length msg) (blank (WRITER s)) \<and>
    \<not> writer_locked s' \<and> int_flag s' = int_flag s"
proof -
  let ?w = "scrolled (WRITER s)"
  let ?s = "s\<lparr>WRITER := ?w\<rparr>"
  have nl: "byte_written 0x0a v = scrolled v" for v by (simp add: byte_written_def)
  have ok: "writer_ok ?w" using assms(4) by (rule scrolled_ok)
  have first: "println X L [] s = Ret ?s"
    using print_eq [OF assms(1-4)] by (simp add: println_def nl)
  have second: "println X L [msg] ?s = Ret (?s\<lparr>WRITER := scrolled (fold byte_written msg ?w)\<rparr>)"
    using print_eq [OF assms(1,2), of ?s "[msg, [0x0a]]"] assms(3,6) ok
    by (simp add: println_def nl sanitize_fold)
  have "0x0a \<notin> set msg" using assms(6) by auto
  then have "buffer (scrolled (fold byte_written msg ?w)) ! 23 =
    map (\<lambda>b. \<lparr>ascii_character = b, sc_color_code = color_code ?w\<rparr>) msg
      @ replicate (80 - length msg) (blank ?w)"
    using ok assms(5) by (intro line_shown) (simp_all add: scrolled_def blank_def vga_consts)
  moreover have "color_code ?w = color_code (WRITER s)" "blank ?w = blank (WRITER s)"
    by (simp_all add: scrolled_def blank_def)
  ultimately show ?thesis using first second assms(3) by (simp add: vga_consts)
qed

text \<open>\<^verbatim>\<open>Writer::write_string\<close> never lets a byte outside printable ASCII reach the screen: every
  byte on screen afterwards was there before, or is printable ASCII, or is the replacement
  square \<^verbatim>\<open>0xfe\<close>. In particular no newline or other control byte is ever stored in a cell.\<close>

lemma write_string_printable:
  assumes "writer_ok w"
  shows "\<exists>w'. write_string bytes w = Ret w' \<and>
    on_screen w' \<subseteq> on_screen w \<union> {b. 0x20 \<le> b \<and> b \<le> 0x7e} \<union> {0xfe}"
proof -
  have "on_screen (fold (\<lambda>b. byte_written (sanitize b)) bytes w)
      \<subseteq> on_screen w \<union> {b. 0x20 \<le> b \<and> b \<le> 0x7e} \<union> {0xfe}"
    using assms
  proof (induction bytes arbitrary: w)
    case (Cons b bytes)
    have "on_screen (byte_written (sanitize b) w)
        \<subseteq> on_screen w \<union> {b. 0x20 \<le> b \<and> b \<le> 0x7e} \<union> {0xfe}"
      using on_screen_byte [OF Cons.prems, of "sanitize b"] by (auto simp: sanitize_def split: if_splits)
    with Cons.IH [OF byte_written_ok [OF Cons.prems], of "sanitize b"] show ?case by auto
  qed auto
  then show ?thesis using write_bytes_eq [OF assms, of sanitize bytes] by (simp add: write_string_def)
qed

text \<open>A colour code holds both colours: the low four bits are the foreground and the high four
  bits the background, for all 256 pairs.\<close>

lemma color_code_fields:
  "code_u8 (ColorCode_new f b) AND 0x0f = color_u8 f \<and>
   drop_bit 4 (code_u8 (ColorCode_new f b)) = color_u8 b"
  by (cases b; cases f) (simp_all add: ColorCode_new_def)

text \<open>Printing is not re-entrant: with the writer's lock already held on this core, as when a
  fault handler prints while a print is under way, \<^verbatim>\<open>print!\<close> and \<^verbatim>\<open>print_bytes\<close> never return.\<close>

lemma print_reentrant_hangs:
  assumes "irq_docs X" and "lock_docs L" and "writer_locked s"
  shows "print X L args s = Diverge \<and> print_bytes X L bytes s = Diverge"
  using assms
  by (simp add: print_def print_bytes_def without_interrupts_def irq_docs_def lock_docs_def)

end
