(* ===== verification/Keyboard.thy ===== *)
theory Keyboard
  imports Tasks Vga
begin

text \<open>
  \<^verbatim>\<open>kernel/src/task/keyboard.rs\<close>: the queue of scancodes between the keyboard interrupt and the
  task that prints key presses, and the stream through which the task waits for it. The crates
  involved are parameters: the once-initialised cell (\<^verbatim>\<open>conquer_once\<close>), the bounded queue
  (\<^verbatim>\<open>crossbeam_queue\<close>), the atomic waker (\<^verbatim>\<open>futures_util\<close>) and the decoder of scancodes
  (\<^verbatim>\<open>pc_keyboard\<close>). The property shown here is about one poll without interrupts; the
  interleavings with the interrupt are the subject of the theory \<open>Idle\<close>.
\<close>

section \<open>The crates\<close>

text \<open>
  A cell that can be initialised once; \<open>once_store\<close> is a change of the value through the shared
  reference that \<^verbatim>\<open>try_get\<close> returns.
\<close>

record ('v, 'c) once_cell =
  once_uninit :: 'c
  once_try_init :: "'v \<Rightarrow> 'c \<Rightarrow> 'c"
  once_try_get :: "'c \<Rightarrow> 'v option"
  once_store :: "'v \<Rightarrow> 'c \<Rightarrow> 'c"

definition once_docs :: "('v, 'c) once_cell \<Rightarrow> bool" where
  "once_docs C \<longleftrightarrow> once_try_get C (once_uninit C) = None \<and>
     (\<forall>v c. once_try_get C (once_try_init C v c) = Some (case once_try_get C c of None \<Rightarrow> v | Some u \<Rightarrow> u)) \<and>
     (\<forall>v c. once_try_get C c \<noteq> None \<longrightarrow> once_try_get C (once_store C v c) = Some v)"

text \<open>
  \<^verbatim>\<open>AtomicWaker\<close> holds the last waker registered; \<^verbatim>\<open>take\<close> takes it out, and \<^verbatim>\<open>wake\<close> takes it out and
  calls it. Its documentation promises that an operation that interrupts another one has the same
  effect as if it had come before or after, so each is one step.
\<close>

record ('w, 'a) atomic_waker =
  aw_new :: 'a
  aw_register :: "'w \<Rightarrow> 'a \<Rightarrow> 'a"
  aw_take :: "'a \<Rightarrow> 'w option \<times> 'a"
  aw_wake :: "'a \<Rightarrow> 'w option \<times> 'a"  \<comment> \<open>with the waker it calls\<close>

definition waker_docs :: "('w, 'a) atomic_waker \<Rightarrow> ('a \<Rightarrow> 'w option) \<Rightarrow> bool" where
  "waker_docs A slot \<longleftrightarrow> slot (aw_new A) = None \<and>
     (\<forall>w a. slot (aw_register A w a) = Some w) \<and>
     (\<forall>a. fst (aw_take A a) = slot a \<and> slot (snd (aw_take A a)) = None) \<and>
     (\<forall>a. fst (aw_wake A a) = slot a \<and> slot (snd (aw_wake A a)) = None)"

text \<open>The decoder: a byte may complete a key event, and a key event may give a key.\<close>

datatype 'kc DecodedKey = Unicode u32 | RawKey 'kc

record ('ev, 'kc, 'k) decoder =
  kb_new :: 'k
  kb_add_byte :: "u8 \<Rightarrow> 'k \<Rightarrow> (unit + 'ev option) \<times> 'k"
  kb_process_keyevent :: "'ev \<Rightarrow> 'k \<Rightarrow> 'kc DecodedKey option \<times> 'k"
  kb_debug :: "'kc \<Rightarrow> u8 list"  \<comment> \<open>the text of a key code\<close>

section \<open>State\<close>

text \<open>
  The statics of the file, and the task queue the wakers push to (it is shared with the executor
  and with every waker). A waker of the executor is the id of its task.
\<close>

record ('c, 'a, 'tq) keys = console +
  SCANCODE_QUEUE :: 'c
  WAKER :: 'a
  run_queue :: 'tq

record ('q, 'c, 'a, 'tq, 'ev, 'kc, 'k, 'z) key_crates =
  k_irq :: "('c, 'a, 'tq, 'z) keys_scheme irq_api"
  k_lock :: "('c, 'a, 'tq, 'z) keys_ext lock_fn"
  k_queue :: "(u8, 'q) array_queue"
  k_cell :: "('q, 'c) once_cell"
  k_waker :: "(TaskId, 'a) atomic_waker"
  k_tasks :: "(TaskId, 'tq) array_queue"
  k_decoder :: "('ev, 'kc, 'k) decoder"

section \<open>The stream\<close>

definition ScancodeStream_new :: "('q, 'c, 'a, 'tq, 'ev, 'kc, 'k, 'z) key_crates
    \<Rightarrow> ('c, 'a, 'tq, 'z) keys_scheme \<Rightarrow> ('c, 'a, 'tq, 'z) keys_scheme" where
  "ScancodeStream_new E s =
     s\<lparr>SCANCODE_QUEUE := once_try_init (k_cell E) (aq_new (k_queue E) 128) (SCANCODE_QUEUE s)\<rparr>"

text \<open>The three operations of a poll between which an interrupt can come.\<close>

definition pop_scancode :: "('q, 'c, 'a, 'tq, 'ev, 'kc, 'k, 'z) key_crates
    \<Rightarrow> ('c, 'a, 'tq, 'z) keys_scheme \<Rightarrow> (u8 option \<times> ('c, 'a, 'tq, 'z) keys_scheme) outcome" where
  "pop_scancode E s =
     obind (unwrap (once_try_get (k_cell E) (SCANCODE_QUEUE s))) (\<lambda>queue.
     case aq_pop (k_queue E) queue of (r, queue) \<Rightarrow>
     Ret (r, s\<lparr>SCANCODE_QUEUE := once_store (k_cell E) queue (SCANCODE_QUEUE s)\<rparr>))"

definition register_waker :: "('q, 'c, 'a, 'tq, 'ev, 'kc, 'k, 'z) key_crates \<Rightarrow> TaskId
    \<Rightarrow> ('c, 'a, 'tq, 'z) keys_scheme \<Rightarrow> ('c, 'a, 'tq, 'z) keys_scheme" where
  "register_waker E cx s = s\<lparr>WAKER := aw_register (k_waker E) cx (WAKER s)\<rparr>"

definition take_waker :: "('q, 'c, 'a, 'tq, 'ev, 'kc, 'k, 'z) key_crates
    \<Rightarrow> ('c, 'a, 'tq, 'z) keys_scheme \<Rightarrow> ('c, 'a, 'tq, 'z) keys_scheme" where
  "take_waker E s = s\<lparr>WAKER := snd (aw_take (k_waker E) (WAKER s))\<rparr>"

text \<open>
  \<^verbatim>\<open>poll_next\<close> undisturbed; \<open>None\<close> is \<^verbatim>\<open>Poll::Pending\<close> and \<open>Some c\<close> is \<^verbatim>\<open>Poll::Ready(Some(c))\<close>. The
  stream never ends, so there is no third result.
\<close>

definition poll_next :: "('q, 'c, 'a, 'tq, 'ev, 'kc, 'k, 'z) key_crates \<Rightarrow> TaskId
    \<Rightarrow> ('c, 'a, 'tq, 'z) keys_scheme \<Rightarrow> (u8 option \<times> ('c, 'a, 'tq, 'z) keys_scheme) outcome" where
  "poll_next E cx s =
     obind (pop_scancode E s) (\<lambda>(r, s).
     case r of
       Some scancode \<Rightarrow> Ret (Some scancode, s)
     | None \<Rightarrow>
         let s = register_waker E cx s in
         obind (pop_scancode E s) (\<lambda>(r, s).
         case r of
           Some scancode \<Rightarrow> Ret (Some scancode, take_waker E s)
         | None \<Rightarrow> Ret (None, s)))"

section \<open>The interrupt side\<close>

definition wake_reader :: "('q, 'c, 'a, 'tq, 'ev, 'kc, 'k, 'z) key_crates
    \<Rightarrow> ('c, 'a, 'tq, 'z) keys_scheme \<Rightarrow> ('c, 'a, 'tq, 'z) keys_scheme outcome" where
  "wake_reader E s = (case aw_wake (k_waker E) (WAKER s) of (w, a) \<Rightarrow>
     (case w of
        None \<Rightarrow> Ret (s\<lparr>WAKER := a\<rparr>)
      | Some i \<Rightarrow> obind (wake_task (k_tasks E) i (run_queue s)) (\<lambda>tq. Ret (s\<lparr>WAKER := a, run_queue := tq\<rparr>))))"

definition add_scancode :: "('q, 'c, 'a, 'tq, 'ev, 'kc, 'k, 'z) key_crates \<Rightarrow> u8
    \<Rightarrow> ('c, 'a, 'tq, 'z) keys_scheme \<Rightarrow> ('c, 'a, 'tq, 'z) keys_scheme outcome" where
  "add_scancode E scancode s = (case once_try_get (k_cell E) (SCANCODE_QUEUE s) of
     Some queue \<Rightarrow> (case aq_push (k_queue E) scancode queue of (ok, queue) \<Rightarrow>
       let s = s\<lparr>SCANCODE_QUEUE := once_store (k_cell E) queue (SCANCODE_QUEUE s)\<rparr> in
       if ok then wake_reader E s else Ret s)
   | None \<Rightarrow> println (k_irq E) (k_lock E) [str ''WARNING: scancode buf not initialized''] s)"

section \<open>print_keypresses\<close>

text \<open>The body of the loop, for a scancode received.\<close>

definition print_keypress :: "('q, 'c, 'a, 'tq, 'ev, 'kc, 'k, 'z) key_crates \<Rightarrow> u8
    \<Rightarrow> 'k \<times> ('c, 'a, 'tq, 'z) keys_scheme \<Rightarrow> ('k \<times> ('c, 'a, 'tq, 'z) keys_scheme) outcome" where
  "print_keypress E scancode = (\<lambda>(keyboard, s).
     case kb_add_byte (k_decoder E) scancode keyboard of
       (Inr (Some key_event), keyboard) \<Rightarrow>
         (case kb_process_keyevent (k_decoder E) key_event keyboard of
            (Some key, keyboard) \<Rightarrow>
              obind (print (k_irq E) (k_lock E)
                [case key of Unicode character \<Rightarrow> encode_utf8 character | RawKey key \<Rightarrow> kb_debug (k_decoder E) key] s)
                (\<lambda>s. Ret (keyboard, s))
          | (None, keyboard) \<Rightarrow> Ret (keyboard, s))
     | (_, keyboard) \<Rightarrow> Ret (keyboard, s))"

text \<open>
  The future of \<^verbatim>\<open>print_keypresses\<close>: not started, or waiting in the loop with its decoder. A poll
  goes on from there, round the loop as long as there are scancodes; it never finishes.
\<close>

datatype 'k PrintKeypresses = Unresumed | Suspended 'k

partial_function (option) keypress_loop :: "('q, 'c, 'a, 'tq, 'ev, 'kc, 'k, 'z) key_crates \<Rightarrow> TaskId
    \<Rightarrow> 'k \<times> ('c, 'a, 'tq, 'z) keys_scheme \<Rightarrow> ('k \<times> ('c, 'a, 'tq, 'z) keys_scheme) outcome option" where
  "keypress_loop E cx ks = (case poll_next E cx (snd ks) of
     Ret (None, s) \<Rightarrow> Some (Ret (fst ks, s))
   | Ret (Some scancode, s) \<Rightarrow> (case print_keypress E scancode (fst ks, s) of
        Ret ks \<Rightarrow> keypress_loop E cx ks
      | Panic \<Rightarrow> Some Panic
      | Diverge \<Rightarrow> Some Diverge
      | PowerOff v \<Rightarrow> Some (PowerOff v)
      | UB \<Rightarrow> Some UB)
   | Panic \<Rightarrow> Some Panic
   | Diverge \<Rightarrow> Some Diverge
   | PowerOff v \<Rightarrow> Some (PowerOff v)
   | UB \<Rightarrow> Some UB)"

definition poll_print_keypresses :: "('q, 'c, 'a, 'tq, 'ev, 'kc, 'k, 'z) key_crates
    \<Rightarrow> ('k PrintKeypresses, TaskId, ('c, 'a, 'tq, 'z) keys_scheme) poll_fn" where
  "poll_print_keypresses E fut cx s =
     (case (case fut of Unresumed \<Rightarrow> (kb_new (k_decoder E), ScancodeStream_new E s) | Suspended k \<Rightarrow> (k, s)) of ks \<Rightarrow>
      (case keypress_loop E cx ks of
         None \<Rightarrow> Diverge
       | Some r \<Rightarrow> obind r (\<lambda>(k, s). Ret (Pending, Suspended k, s))))"

end
