(* ===== verification/Interrupts.thy ===== *)
theory Interrupts
  imports Keyboard
begin

text \<open>
  \<^verbatim>\<open>kernel/src/interrupts.rs\<close> and the exit device of \<^verbatim>\<open>kernel/src/lib.rs\<close>: the interrupt descriptor
  table, the interrupt controllers and the handlers. The table (\<^verbatim>\<open>x86_64\<close>), the chained controllers
  (\<^verbatim>\<open>pic8259\<close>) and the I/O ports are crates, hence parameters; the processor's part in delivering
  an interrupt is modelled after the architecture manual. The handler of the breakpoint is
  assembly and is in the theory \<open>Entry\<close>.
\<close>

section \<open>Interrupt numbers\<close>

definition PIC_1_OFFSET :: u8 where
  "PIC_1_OFFSET = 32"

definition PIC_2_OFFSET :: u8 where
  "PIC_2_OFFSET = PIC_1_OFFSET + 8"

datatype InterruptIndex = Timer | Keyboard

definition InterruptIndex_as_u8 :: "InterruptIndex \<Rightarrow> u8" where
  "InterruptIndex_as_u8 i = (case i of Timer \<Rightarrow> PIC_1_OFFSET | Keyboard \<Rightarrow> PIC_1_OFFSET + 1)"

definition InterruptIndex_as_usize :: "InterruptIndex \<Rightarrow> usize" where
  "InterruptIndex_as_usize i = ucast (InterruptIndex_as_u8 i)"

section \<open>The descriptor table\<close>

text \<open>The functions that are entered into a table; the last one is of the test of the stack overflow.\<close>

datatype handler = h_breakpoint | h_divide_error | h_double_fault | h_page_fault | h_timer | h_keyboard
  | h_test_double_fault

text \<open>The fields of the table, and the rest of it by index.\<close>

datatype idt_field = divide_error | breakpoint | double_fault | page_fault | idt_index usize

record 't idt_api =
  idt_new :: 't
  set_handler_fn :: "idt_field \<Rightarrow> handler \<Rightarrow> 't \<Rightarrow> 't outcome"
  set_stack_index :: "idt_field \<Rightarrow> nat \<Rightarrow> 't \<Rightarrow> 't"

text \<open>
  What the crate documents: each field is the entry of one vector, every entry starts out absent,
  setting a handler makes it present, without a stack of its own, and setting a stack
  index keeps the handler. Indexing panics for the exceptions. \<open>entry\<close> is what the processor
  finds for a vector: the handler and the entry of the interrupt stack table.
\<close>

fun idt_vector :: "idt_field \<Rightarrow> nat option" where
  "idt_vector divide_error = Some 0"
| "idt_vector breakpoint = Some 3"
| "idt_vector double_fault = Some 8"
| "idt_vector page_fault = Some 14"
| "idt_vector (idt_index i) = (if 32 \<le> unat i \<and> unat i < 256 then Some (unat i) else None)"

definition idt_docs :: "'t idt_api \<Rightarrow> ('t \<Rightarrow> nat \<Rightarrow> (handler \<times> nat option) option) \<Rightarrow> bool" where
  "idt_docs T entry \<longleftrightarrow> (\<forall>v. entry (idt_new T) v = None) \<and>
     (\<forall>f h t v. idt_vector f = Some v \<longrightarrow>
        (\<exists>t'. set_handler_fn T f h t = Ret t' \<and> entry t' = (entry t)(v \<mapsto> (h, None)))) \<and>
     (\<forall>f h i t v. idt_vector f = Some v \<longrightarrow> i < 7 \<longrightarrow> entry t v = Some (h, None) \<longrightarrow>
        entry (set_stack_index T f i t) = (entry t)(v \<mapsto> (h, Some i)))"

definition DOUBLE_FAULT_STACK_INDEX :: nat where
  "DOUBLE_FAULT_STACK_INDEX = 0"

definition PAGE_FAULT_STACK_INDEX :: nat where
  "PAGE_FAULT_STACK_INDEX = 1"

definition IDT :: "'t idt_api \<Rightarrow> 't outcome" where
  "IDT T =
     obind (set_handler_fn T breakpoint h_breakpoint (idt_new T)) (\<lambda>idt.
     obind (set_handler_fn T divide_error h_divide_error idt) (\<lambda>idt.
     obind (set_handler_fn T double_fault h_double_fault idt) (\<lambda>idt.
     let idt = set_stack_index T double_fault DOUBLE_FAULT_STACK_INDEX idt in
     obind (set_handler_fn T page_fault h_page_fault idt) (\<lambda>idt.
     let idt = set_stack_index T page_fault PAGE_FAULT_STACK_INDEX idt in
     obind (set_handler_fn T (idt_index (InterruptIndex_as_usize Timer)) h_timer idt) (\<lambda>idt.
     set_handler_fn T (idt_index (InterruptIndex_as_usize Keyboard)) h_keyboard idt)))))"

section \<open>Controllers, ports and handlers\<close>

text \<open>
  The machine seen by the handlers: the interrupts in service at the controllers, the innermost
  first, the byte the keyboard controller offers, and the lock of \<^verbatim>\<open>PICS\<close>.
\<close>

record ('c, 'a, 'tq) irqs = "('c, 'a, 'tq) keys" +
  in_service :: "u8 list"
  kbd_data :: u8
  pics_locked :: bool

record ('p, 's) irq_hw =
  pics_new :: "u8 \<Rightarrow> u8 \<Rightarrow> 'p"
  pics_notify_end_of_interrupt :: "'p \<Rightarrow> u8 \<Rightarrow> 's \<Rightarrow> 's"
  pics_lock :: "('s \<Rightarrow> 's outcome) \<Rightarrow> 's \<Rightarrow> 's outcome"
  port_read :: "nat \<Rightarrow> 's \<Rightarrow> u8 \<times> 's"

text \<open>
  A notification for one of the eight vectors of the first controller is an end-of-interrupt
  command to that controller, which ends the innermost interrupt of its own in service. Port
  0x60 is the data port of the keyboard. The lock behaves as documented by \<^verbatim>\<open>spin\<close>.
\<close>

definition hw_docs :: "('p, ('c, 'a, 'tq, 'z) irqs_scheme) irq_hw \<Rightarrow> bool" where
  "hw_docs P \<longleftrightarrow>
     (\<forall>o1 o2 i s v vs. o1 \<le> i \<longrightarrow> i < o1 + 8 \<longrightarrow> in_service s = v # vs \<longrightarrow> o1 \<le> v \<longrightarrow> v < o1 + 8 \<longrightarrow>
        pics_notify_end_of_interrupt P (pics_new P o1 o2) i s = s\<lparr>in_service := vs\<rparr>) \<and>
     (\<forall>f s. pics_lock P f s = (if pics_locked s then Diverge
        else obind (f (s\<lparr>pics_locked := True\<rparr>)) (\<lambda>t. Ret (t\<lparr>pics_locked := False\<rparr>)))) \<and>
     (\<forall>s. port_read P 0x60 s = (kbd_data s, s))"

definition PICS :: "('p, 's) irq_hw \<Rightarrow> 'p" where
  "PICS P = pics_new P PIC_1_OFFSET PIC_2_OFFSET"

definition timer_interrupt_handler :: "('p, ('c, 'a, 'tq, 'z) irqs_scheme) irq_hw
    \<Rightarrow> ('c, 'a, 'tq, 'z) irqs_scheme \<Rightarrow> ('c, 'a, 'tq, 'z) irqs_scheme outcome" where
  "timer_interrupt_handler P =
     pics_lock P (\<lambda>s. Ret (pics_notify_end_of_interrupt P (PICS P) (InterruptIndex_as_u8 Timer) s))"

text \<open>The end of the interrupt is announced under the number of the timer here too.\<close>

definition keyboard_interrupt_handler :: "('q, 'c, 'a, 'tq, 'ev, 'kc, 'k, ('z) irqs_ext) key_crates
    \<Rightarrow> ('p, ('c, 'a, 'tq, 'z) irqs_scheme) irq_hw
    \<Rightarrow> ('c, 'a, 'tq, 'z) irqs_scheme \<Rightarrow> ('c, 'a, 'tq, 'z) irqs_scheme outcome" where
  "keyboard_interrupt_handler E P s = (case port_read P 0x60 s of (scancode, s) \<Rightarrow>
     obind (add_scancode E scancode s)
       (pics_lock P (\<lambda>s. Ret (pics_notify_end_of_interrupt P (PICS P) (InterruptIndex_as_u8 Timer) s))))"

text \<open>
  The handlers of exceptions do not come back. \<open>frame\<close> is the formatted stack frame, and a panic
  goes on in the panic handler.
\<close>

definition divide_error_handler :: "'a console_scheme irq_api \<Rightarrow> 'a lock_fn \<Rightarrow> u8 list list \<Rightarrow> 'a console_scheme
    \<Rightarrow> 'r outcome" where
  "divide_error_handler X L frame s =
     obind (println X L (str ''got divide error!: '' # frame) s) (\<lambda>_. Diverge)"

datatype QemuExitCode = Success | Failed

definition QemuExitCode_as_u32 :: "QemuExitCode \<Rightarrow> u32" where
  "QemuExitCode_as_u32 c = (case c of Success \<Rightarrow> 0x10 | Failed \<Rightarrow> 0x11)"

definition exit_qemu :: "'s irq_api \<Rightarrow> (nat \<Rightarrow> u32 \<Rightarrow> 's \<Rightarrow> 's outcome) \<Rightarrow> QemuExitCode \<Rightarrow> 's \<Rightarrow> 'r outcome" where
  "exit_qemu X port_write exit_code s = obind (port_write 0xf4 (QemuExitCode_as_u32 exit_code) s) (hlt_loop X)"

text \<open>The device that the arguments of the test runs put at this port
  (\<^verbatim>\<open>-device isa-debug-exit,iobase=0xf4\<close>) ends the emulator at the first write.\<close>

definition exit_device :: "(nat \<Rightarrow> u32 \<Rightarrow> 's \<Rightarrow> 's outcome) \<Rightarrow> bool" where
  "exit_device port_write \<longleftrightarrow> (\<forall>v s. port_write 0xf4 v s = PowerOff v)"

lemma exit_qemu_exits:
  "exit_device w \<Longrightarrow> exit_qemu X w exit_code s = PowerOff (QemuExitCode_as_u32 exit_code)"
  by (simp add: exit_qemu_def exit_device_def)

lemma exit_qemu_without_device: "w 0xf4 (QemuExitCode_as_u32 exit_code) s = Ret t \<Longrightarrow> exit_qemu X w exit_code s = Diverge"
  by (simp add: exit_qemu_def)

definition double_fault_handler :: "'a console_scheme irq_api \<Rightarrow> 'a lock_fn \<Rightarrow> (nat \<Rightarrow> u32 \<Rightarrow> 'a console_scheme \<Rightarrow> 'a console_scheme outcome)
    \<Rightarrow> u8 list list \<Rightarrow> u64 \<Rightarrow> 'a console_scheme \<Rightarrow> 'r outcome" where
  "double_fault_handler X L port_write frame code s =
     obind (println X L ([str ''DOUBLE FAULT. Code: '', fmt_dec code, [0x0a]] @ frame) s)
       (exit_qemu X port_write Failed)"

definition page_fault_handler :: "(u64 \<Rightarrow> 's \<Rightarrow> u64 outcome) \<Rightarrow> u64 \<Rightarrow> 's \<Rightarrow> 'r outcome" where
  "page_fault_handler read_u64 stack_pointer s = obind (read_u64 stack_pointer s) (\<lambda>top_of_stack. Panic)"

text \<open>The panic handler of \<^verbatim>\<open>main.rs\<close>.\<close>

definition panic_handler :: "'a console_scheme irq_api \<Rightarrow> 'a lock_fn \<Rightarrow> u8 list list \<Rightarrow> 'a console_scheme
    \<Rightarrow> 'r outcome" where
  "panic_handler X L info s = obind (println X L info s) (hlt_loop X)"

section \<open>Delivering an interrupt\<close>

text \<open>
  The processor enters the handler it finds in the table with interrupts off, awake, and with the
  vector in service at the controller; the return from the interrupt switches them on again. The
  vectors of the model are those of the timer and the keyboard.
\<close>

definition interrupt :: "('q, 'c, 'a, 'tq, 'ev, 'kc, 'k, 'z irqs_ext) key_crates
    \<Rightarrow> ('p, ('c, 'a, 'tq, 'z) irqs_scheme) irq_hw \<Rightarrow> (nat \<Rightarrow> (handler \<times> nat option) option) \<Rightarrow> nat
    \<Rightarrow> ('c, 'a, 'tq, 'z) irqs_scheme \<Rightarrow> ('c, 'a, 'tq, 'z) irqs_scheme outcome" where
  "interrupt E P vectors v s =
     (let s = s\<lparr>int_flag := False, halted := False, in_service := word_of_nat v # in_service s\<rparr> in
      obind (case vectors v of
          Some (h_timer, _) \<Rightarrow> timer_interrupt_handler P s
        | Some (h_keyboard, _) \<Rightarrow> keyboard_interrupt_handler E P s
        | _ \<Rightarrow> UB)
        (\<lambda>s. Ret (s\<lparr>int_flag := True\<rparr>)))"

section \<open>The table\<close>

lemma idt_fields: "idt_vector (idt_index (InterruptIndex_as_usize Timer)) = Some 32"
  "idt_vector (idt_index (InterruptIndex_as_usize Keyboard)) = Some 33"
  by (simp_all add: InterruptIndex_as_usize_def InterruptIndex_as_u8_def PIC_1_OFFSET_def)

lemma set_handlerE:
  assumes "idt_docs T entry" and "idt_vector f = Some v"
  obtains t' where "set_handler_fn T f h t = Ret t'" and "entry t' = (entry t)(v \<mapsto> (h, None))"
  using assms unfolding idt_docs_def by blast

lemma set_stack_entry:
  assumes "idt_docs T entry" and "idt_vector f = Some v" and "i < 7" and "entry t v = Some (h, None)"
  shows "entry (set_stack_index T f i t) = (entry t)(v \<mapsto> (h, Some i))"
  using assms unfolding idt_docs_def by blast

definition vector_table :: "nat \<rightharpoonup> handler \<times> nat option" where
  "vector_table = [0 \<mapsto> (h_divide_error, None), 3 \<mapsto> (h_breakpoint, None), 8 \<mapsto> (h_double_fault, Some 0),
     14 \<mapsto> (h_page_fault, Some 1), 32 \<mapsto> (h_timer, None), 33 \<mapsto> (h_keyboard, None)]"

lemma IDT_ok:
  assumes d: "idt_docs T entry"
  shows "\<exists>t. IDT T = Ret t \<and> entry t = vector_table"
proof -
  note set = set_handlerE [OF d] and stack = set_stack_entry [OF d]
  have e0: "entry (idt_new T) = Map.empty" using d by (auto simp: idt_docs_def)
  obtain t1 where t1: "set_handler_fn T breakpoint h_breakpoint (idt_new T) = Ret t1"
    "entry t1 = (entry (idt_new T))(3 \<mapsto> (h_breakpoint, None))" using set [of breakpoint 3] by auto
  obtain t2 where t2: "set_handler_fn T divide_error h_divide_error t1 = Ret t2"
    "entry t2 = (entry t1)(0 \<mapsto> (h_divide_error, None))" using set [of divide_error 0] by auto
  obtain t3 where t3: "set_handler_fn T double_fault h_double_fault t2 = Ret t3"
    "entry t3 = (entry t2)(8 \<mapsto> (h_double_fault, None))" using set [of double_fault 8] by auto
  let ?t4 = "set_stack_index T double_fault 0 t3"
  have t4: "entry ?t4 = (entry t3)(8 \<mapsto> (h_double_fault, Some 0))" using stack [of double_fault 8 0 t3] t3 by simp
  obtain t5 where t5: "set_handler_fn T page_fault h_page_fault ?t4 = Ret t5"
    "entry t5 = (entry ?t4)(14 \<mapsto> (h_page_fault, None))" using set [of page_fault 14] by auto
  let ?t6 = "set_stack_index T page_fault 1 t5"
  have t6: "entry ?t6 = (entry t5)(14 \<mapsto> (h_page_fault, Some 1))" using stack [of page_fault 14 1 t5] t5 by simp
  obtain t7 where t7: "set_handler_fn T (idt_index (InterruptIndex_as_usize Timer)) h_timer ?t6 = Ret t7"
    "entry t7 = (entry ?t6)(32 \<mapsto> (h_timer, None))" using set [OF idt_fields(1)] by blast
  obtain t8 where t8: "set_handler_fn T (idt_index (InterruptIndex_as_usize Keyboard)) h_keyboard t7 = Ret t8"
    "entry t8 = (entry t7)(33 \<mapsto> (h_keyboard, None))" using set [OF idt_fields(2)] by blast
  have "IDT T = Ret t8"
    using t1(1) t2(1) t3(1) t5(1) t7(1) t8(1)
    by (simp add: IDT_def DOUBLE_FAULT_STACK_INDEX_def PAGE_FAULT_STACK_INDEX_def)
  moreover have "entry t8 = vector_table"
    by (auto simp: vector_table_def e0 t1(2) t2(2) t3(2) t4 t5(2) t6 [unfolded One_nat_def] t7(2) t8(2) fun_eq_iff)
  ultimately show ?thesis by blast
qed

section \<open>The handlers\<close>

lemma service_vectors: "PIC_1_OFFSET \<le> (32 :: u8)" "(32 :: u8) < PIC_1_OFFSET + 8" "PIC_1_OFFSET \<le> (33 :: u8)" "(33 :: u8) < PIC_1_OFFSET + 8"
  "PIC_1_OFFSET \<le> InterruptIndex_as_u8 Timer" "InterruptIndex_as_u8 Timer < PIC_1_OFFSET + 8"
  by (simp_all add: PIC_1_OFFSET_def InterruptIndex_as_u8_def)

lemma end_of_interrupt:
  assumes "hw_docs P" and "\<not> pics_locked s" and "in_service s = v # vs" and "PIC_1_OFFSET \<le> v" and "v < PIC_1_OFFSET + 8"
  shows "pics_lock P (\<lambda>s. Ret (pics_notify_end_of_interrupt P (PICS P) (InterruptIndex_as_u8 Timer) s)) s =
    Ret (s\<lparr>in_service := vs\<rparr>)"
proof -
  have "pics_notify_end_of_interrupt P (PICS P) (InterruptIndex_as_u8 Timer) (s\<lparr>pics_locked := True\<rparr>) =
      s\<lparr>pics_locked := True\<rparr>\<lparr>in_service := vs\<rparr>"
    using assms service_vectors(5,6) unfolding hw_docs_def PICS_def by (auto simp del: irqs.update_convs)
  then show ?thesis using assms(1,2) by (simp add: hw_docs_def)
qed

lemma timer_interrupt_eq:
  assumes "hw_docs P" and "\<not> pics_locked s" and "in_service s = []" and "vectors 32 = Some (h_timer, i)"
  shows "interrupt E P vectors 32 s = Ret (s\<lparr>int_flag := True, halted := False\<rparr>)"
  using assms(2-4) end_of_interrupt [OF assms(1), of "s\<lparr>int_flag := False, halted := False, in_service := [32]\<rparr>" 32 "[]"]
    service_vectors
  by (cases s) (simp add: interrupt_def timer_interrupt_handler_def)

lemma keyboard_interrupt_eq:
  assumes "hw_docs P" and "in_service s = []" and "vectors 33 = Some (h_keyboard, i)"
    and "add_scancode E (kbd_data s) (s\<lparr>int_flag := False, halted := False, in_service := [33]\<rparr>) = Ret u"
    and "\<not> pics_locked u" and "in_service u = [33]"
  shows "interrupt E P vectors 33 s = Ret (u\<lparr>in_service := [], int_flag := True\<rparr>)"
  using assms(2-4) end_of_interrupt [OF assms(1,5,6)] service_vectors assms(1)
  by (simp add: interrupt_def keyboard_interrupt_handler_def hw_docs_def Let_def)

lemma keyboard_interrupt_adds:
  assumes "hw_docs P" and "in_service s = []" and "vectors 33 = Some (h_keyboard, i)"
    and "interrupt E P vectors 33 s = Ret s'"
  shows "\<exists>u. add_scancode E (kbd_data s) (s\<lparr>int_flag := False, halted := False, in_service := [33]\<rparr>) = Ret u"
  using assms
  by (auto simp: interrupt_def keyboard_interrupt_handler_def hw_docs_def Let_def outcome_simps)

section \<open>A concrete table\<close>

definition map_idt :: "(nat \<Rightarrow> (handler \<times> nat option) option) idt_api" where
  "map_idt = \<lparr>idt_new = Map.empty,
     set_handler_fn = (\<lambda>f h t. case idt_vector f of None \<Rightarrow> Panic | Some v \<Rightarrow> Ret (t(v \<mapsto> (h, None)))),
     set_stack_index = (\<lambda>f i t. case idt_vector f of None \<Rightarrow> t | Some v \<Rightarrow> t(v := map_option (\<lambda>(h, _). (h, Some i)) (t v)))\<rparr>"

lemma map_idt_docs: "idt_docs map_idt (\<lambda>t. t)" and map_idt_IDT: "IDT map_idt = Ret vector_table"
proof -
  show d: "idt_docs map_idt (\<lambda>t. t)" by (auto simp: idt_docs_def map_idt_def)
  show "IDT map_idt = Ret vector_table" using IDT_ok [OF d] by auto
qed

end
