(* ===== verification/Gdt.thy ===== *)
theory Gdt
  imports Cpu Paging Interrupts
begin

text \<open>
  \<^verbatim>\<open>kernel/src/gdt.rs\<close>: the task state segment with the stacks for faults, the global descriptor
  table, and loading both. The table, the cpuid query and the \<^verbatim>\<open>STAR\<close> register are crates, hence
  parameters. The properties: the table has exactly the layout that the \<^verbatim>\<open>syscall\<close> and \<^verbatim>\<open>sysret\<close>
  instructions need, so that they switch between the kernel and the user segments of the table;
  double faults and page faults get stacks of their own.
\<close>

section \<open>The task state segment\<close>

record TaskStateSegment =
  interrupt_stack_table :: "u64 list"
  privilege_stack_table :: "u64 list"

definition TaskStateSegment_new :: TaskStateSegment where
  "TaskStateSegment_new = \<lparr>interrupt_stack_table = replicate 7 0, privilege_stack_table = replicate 3 0\<rparr>"

definition STACK_SIZE :: u64 where
  "STACK_SIZE = 1024 * 20"

text \<open>The top of a stack in a static array at the address given.\<close>

definition stack_top :: "('pt, 'fa) paging \<Rightarrow> u64 \<Rightarrow> u64 outcome" where
  "stack_top X stack = obind (va_new X stack) (\<lambda>stack_start. va_add X stack_start STACK_SIZE)"

text \<open>The three arrays are statics, placed by the linker; their addresses are the arguments.\<close>

definition TSS :: "('pt, 'fa) paging \<Rightarrow> u64 \<Rightarrow> u64 \<Rightarrow> u64 \<Rightarrow> TaskStateSegment outcome" where
  "TSS X stack1 stack2 stack3 =
     (let tss = TaskStateSegment_new in
      obind (stack_top X stack1) (\<lambda>top.
      let tss = tss\<lparr>interrupt_stack_table := (interrupt_stack_table tss)[DOUBLE_FAULT_STACK_INDEX := top]\<rparr> in
      obind (stack_top X stack2) (\<lambda>top.
      let tss = tss\<lparr>interrupt_stack_table := (interrupt_stack_table tss)[PAGE_FAULT_STACK_INDEX := top]\<rparr> in
      obind (stack_top X stack3) (\<lambda>top.
      Ret (tss\<lparr>privilege_stack_table := (privilege_stack_table tss)[0 := top]\<rparr>)))))"

section \<open>The descriptor table\<close>

datatype Descriptor = kernel_code_segment | kernel_data_segment | user_data_segment | user_code_segment
  | tss_segment TaskStateSegment

type_synonym SegmentSelector = "16 word"

record 'g gdt_api =
  gdt_new :: 'g
  gdt_add_entry :: "Descriptor \<Rightarrow> 'g \<Rightarrow> (SegmentSelector \<times> 'g) outcome"

text \<open>
  What the crate documents: a table has eight slots, the first of which is null; a segment
  descriptor takes one slot and a task state segment two; the selector returned is the position
  of the first, times eight, with the privilege level of the segment in the low bits; adding to
  a table without room panics. \<open>slots\<close> lists the slots in use.
\<close>

definition width :: "Descriptor \<Rightarrow> nat" where
  "width d = (case d of tss_segment _ \<Rightarrow> 2 | _ \<Rightarrow> 1)"

definition dpl :: "Descriptor \<Rightarrow> nat" where
  "dpl d = (if d \<in> {user_data_segment, user_code_segment} then 3 else 0)"

definition gdt_docs :: "'g gdt_api \<Rightarrow> ('g \<Rightarrow> Descriptor option list) \<Rightarrow> bool" where
  "gdt_docs G slots \<longleftrightarrow> slots (gdt_new G) = [None] \<and>
     (\<forall>d g. length (slots g) + width d \<le> 8 \<longrightarrow>
        (\<exists>g'. gdt_add_entry G d g = Ret (word_of_nat (8 * length (slots g) + dpl d), g') \<and>
          slots g' = slots g @ Some d # replicate (width d - 1) None)) \<and>
     (\<forall>d g. 8 < length (slots g) + width d \<longrightarrow> gdt_add_entry G d g = Panic)"

record Selectors =
  kernel_code_selector :: SegmentSelector
  kernel_data_selector :: SegmentSelector
  user_code_selector :: SegmentSelector
  user_data_selector :: SegmentSelector
  tss_selector :: SegmentSelector
  kernel_data_selector2 :: SegmentSelector

definition GDT :: "'g gdt_api \<Rightarrow> TaskStateSegment \<Rightarrow> ('g \<times> Selectors) outcome" where
  "GDT G tss =
     obind (gdt_add_entry G kernel_code_segment (gdt_new G)) (\<lambda>(kernel_code, gdt).
     obind (gdt_add_entry G kernel_data_segment gdt) (\<lambda>(kernel_data, gdt).
     obind (gdt_add_entry G user_data_segment gdt) (\<lambda>(user_data, gdt).
     obind (gdt_add_entry G user_code_segment gdt) (\<lambda>(user_code, gdt).
     obind (gdt_add_entry G (tss_segment tss) gdt) (\<lambda>(tss_sel, gdt).
     obind (gdt_add_entry G kernel_data_segment gdt) (\<lambda>(kernel_data2, gdt).
     Ret (gdt, \<lparr>kernel_code_selector = kernel_code, kernel_data_selector = kernel_data,
       user_code_selector = user_code, user_data_selector = user_data,
       tss_selector = tss_sel, kernel_data_selector2 = kernel_data2\<rparr>)))))))"

section \<open>Loading them\<close>

text \<open>The processor with the remaining segment registers and tables.\<close>

record ('s, 'g, 't) seg_cpu = "'s cpu" +
  ds :: SegmentSelector
  gs :: SegmentSelector
  tr :: SegmentSelector
  gdtr :: "'g option"
  idtr :: "'t option"

record star_api =
  star_write :: "SegmentSelector \<Rightarrow> SegmentSelector \<Rightarrow> SegmentSelector \<Rightarrow> SegmentSelector \<Rightarrow> unit + u64"

text \<open>
  \<^verbatim>\<open>Star::write\<close> documents its errors: the user selectors must be eight apart with the data
  segment first, the kernel selectors eight apart with the code segment first, and the data
  segments must have privilege levels 3 and 0. Then it writes the kernel code selector to bits
  32 to 47 and the base of the user selectors to bits 48 to 63.
\<close>

definition star_docs :: "star_api \<Rightarrow> bool" where
  "star_docs S \<longleftrightarrow> (\<forall>ucode udata kcode kdata.
     let n = unat in
     if 16 \<le> n ucode \<and> n ucode = n udata + 8 \<and> n kdata = n kcode + 8 \<and> n udata mod 4 = 3 \<and> n kdata mod 4 = 0
     then (\<exists>v. star_write S ucode udata kcode kdata = Inr v \<and> star_sysret v = word_of_nat (n udata - 8) \<and>
       star_syscall v = word_of_nat (n kcode))
     else \<exists>e. star_write S ucode udata kcode kdata = Inl e)"

text \<open>
  \<^verbatim>\<open>gdt_init\<close>. Loading GS through its selector sets its base to that of the segment, which is 0.
  \<open>has_fsgsbase\<close> is the answer of cpuid, \<open>None\<close> if there is no such information.
\<close>

definition gdt_init :: "('pt, 'fa) paging \<Rightarrow> 'g gdt_api \<Rightarrow> star_api \<Rightarrow> bool option \<Rightarrow> u64 \<Rightarrow> u64 \<Rightarrow> u64
    \<Rightarrow> ('s, 'g, 't, 'z) seg_cpu_scheme \<Rightarrow> ('s, 'g, 't, 'z) seg_cpu_scheme outcome" where
  "gdt_init X G S has_fsgsbase stack1 stack2 stack3 c =
     (if has_fsgsbase \<noteq> Some True then Panic
      else
        obind (TSS X stack1 stack2 stack3) (\<lambda>tss.
        obind (GDT G tss) (\<lambda>(gdt, sel).
        let c = c\<lparr>gdtr := Some gdt\<rparr> in
        let c = c\<lparr>cs := ucast (kernel_code_selector sel)\<rparr> in
        let c = c\<lparr>ds := kernel_data_selector sel\<rparr> in
        let c = c\<lparr>gs := kernel_data_selector2 sel, gs_base := 0\<rparr> in
        obind (unwrap_result (star_write S (user_code_selector sel) (user_data_selector sel)
          (kernel_code_selector sel) (kernel_data_selector sel))) (\<lambda>v.
        let c = c\<lparr>star := v\<rparr> in
        Ret (c\<lparr>tr := tss_selector sel\<rparr>)))))"

definition init_idt :: "'t idt_api \<Rightarrow> ('s, 'g, 't, 'z) seg_cpu_scheme \<Rightarrow> ('s, 'g, 't, 'z) seg_cpu_scheme outcome" where
  "init_idt T c = obind (IDT T) (\<lambda>idt. Ret (c\<lparr>idtr := Some idt\<rparr>))"

section \<open>Facts\<close>

text \<open>The segment a selector names.\<close>

definition segment :: "Descriptor option list \<Rightarrow> u64 \<Rightarrow> Descriptor option" where
  "segment slots sel = (if unat sel div 8 < length slots then slots ! (unat sel div 8) else None)"

lemma gdt_addE:
  assumes "gdt_docs G slots" and "length (slots g) + width d \<le> 8"
  obtains g' where "gdt_add_entry G d g = Ret (word_of_nat (8 * length (slots g) + dpl d), g')"
    and "slots g' = slots g @ Some d # replicate (width d - 1) None"
  using assms unfolding gdt_docs_def by blast

lemma GDT_ok:
  assumes d: "gdt_docs G slots"
  shows "\<exists>g. GDT G tss = Ret (g, \<lparr>kernel_code_selector = 0x08, kernel_data_selector = 0x10,
      user_code_selector = 0x23, user_data_selector = 0x1b, tss_selector = 0x28, kernel_data_selector2 = 0x38\<rparr>) \<and>
    slots g = [None, Some kernel_code_segment, Some kernel_data_segment, Some user_data_segment, Some user_code_segment,
      Some (tss_segment tss), None, Some kernel_data_segment]"
proof -
  note add = gdt_addE [OF d]
  have s0: "slots (gdt_new G) = [None]" using d by (simp add: gdt_docs_def)
  obtain g1 where g1: "gdt_add_entry G kernel_code_segment (gdt_new G) = Ret (0x08, g1)"
    "slots g1 = [None, Some kernel_code_segment]"
    using add [of "gdt_new G" kernel_code_segment] s0 by (auto simp: width_def dpl_def)
  obtain g2 where g2: "gdt_add_entry G kernel_data_segment g1 = Ret (0x10, g2)"
    "slots g2 = [None, Some kernel_code_segment, Some kernel_data_segment]"
    using add [of g1 kernel_data_segment] g1(2) by (auto simp: width_def dpl_def)
  obtain g3 where g3: "gdt_add_entry G user_data_segment g2 = Ret (0x1b, g3)"
    "slots g3 = [None, Some kernel_code_segment, Some kernel_data_segment, Some user_data_segment]"
    using add [of g2 user_data_segment] g2(2) by (auto simp: width_def dpl_def)
  obtain g4 where g4: "gdt_add_entry G user_code_segment g3 = Ret (0x23, g4)"
    "slots g4 = [None, Some kernel_code_segment, Some kernel_data_segment, Some user_data_segment, Some user_code_segment]"
    using add [of g3 user_code_segment] g3(2) by (auto simp: width_def dpl_def)
  obtain g5 where g5: "gdt_add_entry G (tss_segment tss) g4 = Ret (0x28, g5)"
    "slots g5 = [None, Some kernel_code_segment, Some kernel_data_segment, Some user_data_segment, Some user_code_segment,
      Some (tss_segment tss), None]"
    using add [of g4 "tss_segment tss"] g4(2) by (auto simp: width_def dpl_def)
  obtain g6 where g6: "gdt_add_entry G kernel_data_segment g5 = Ret (0x38, g6)"
    "slots g6 = [None, Some kernel_code_segment, Some kernel_data_segment, Some user_data_segment, Some user_code_segment,
      Some (tss_segment tss), None, Some kernel_data_segment]"
    using add [of g5 kernel_data_segment] g5(2) by (auto simp: width_def dpl_def)
  show ?thesis using g1(1) g2(1) g3(1) g4(1) g5(1) g6 by (intro exI [of _ g6]) (simp add: GDT_def)
qed

text \<open>A stack that lies in one half of the address space, so that its top is an address.\<close>

definition stack_ok :: "u64 \<Rightarrow> bool" where
  "stack_ok a \<longleftrightarrow> canonical a \<and> canonical (a + STACK_SIZE) \<and> unat a + unat STACK_SIZE < 2 ^ 64"

lemma stack_top_ok: "addr_docs X \<Longrightarrow> stack_ok a \<Longrightarrow> stack_top X a = Ret (a + STACK_SIZE)"
  by (simp add: stack_top_def stack_ok_def addr_docs_def)

definition kernel_tss :: "u64 \<Rightarrow> u64 \<Rightarrow> u64 \<Rightarrow> TaskStateSegment" where
  "kernel_tss s1 s2 s3 = \<lparr>interrupt_stack_table = [s1 + STACK_SIZE, s2 + STACK_SIZE, 0, 0, 0, 0, 0],
     privilege_stack_table = [s3 + STACK_SIZE, 0, 0]\<rparr>"

lemma TSS_ok:
  assumes "addr_docs X" and "stack_ok s1" and "stack_ok s2" and "stack_ok s3"
  shows "TSS X s1 s2 s3 = Ret (kernel_tss s1 s2 s3)"
  using assms
  by (simp add: TSS_def stack_top_ok TaskStateSegment_new_def kernel_tss_def DOUBLE_FAULT_STACK_INDEX_def
      PAGE_FAULT_STACK_INDEX_def numeral_eq_Suc)

lemma star_kernel:
  assumes "star_docs S"
  obtains v where "star_write S 0x23 0x1b 0x08 0x10 = Inr v" and "star_sysret v = 0x13" and "star_syscall v = 0x08"
proof -
  have "\<exists>v. star_write S 0x23 0x1b 0x08 0x10 = Inr v \<and> star_sysret v = word_of_nat (unat (0x1b :: 16 word) - 8) \<and>
      star_syscall v = word_of_nat (unat (0x08 :: 16 word))"
    using assms [unfolded star_docs_def Let_def, THEN spec [of _ "0x23"], THEN spec [of _ "0x1b"], THEN spec [of _ "0x08"],
      THEN spec [of _ "0x10"]] by simp
  then show thesis using that by auto
qed

lemma gdt_init_eq:
  assumes "addr_docs X" and "gdt_docs G slots" and "star_docs S" and "stack_ok s1" and "stack_ok s2" and "stack_ok s3"
  obtains g v where "gdt_init X G S (Some True) s1 s2 s3 c = Ret (c\<lparr>gdtr := Some g, cs := 0x08, ds := 0x10,
      gs := 0x38, gs_base := 0, star := v, tr := 0x28\<rparr>)"
    and "slots g = [None, Some kernel_code_segment, Some kernel_data_segment, Some user_data_segment, Some user_code_segment,
      Some (tss_segment (kernel_tss s1 s2 s3)), None, Some kernel_data_segment]"
    and "star_sysret v = 0x13" and "star_syscall v = 0x08"
proof -
  obtain g where g: "GDT G (kernel_tss s1 s2 s3) = Ret (g, \<lparr>kernel_code_selector = 0x08, kernel_data_selector = 0x10,
      user_code_selector = 0x23, user_data_selector = 0x1b, tss_selector = 0x28, kernel_data_selector2 = 0x38\<rparr>)"
    "slots g = [None, Some kernel_code_segment, Some kernel_data_segment, Some user_data_segment, Some user_code_segment,
      Some (tss_segment (kernel_tss s1 s2 s3)), None, Some kernel_data_segment]"
    using GDT_ok [OF assms(2)] by blast
  obtain v where v: "star_write S 0x23 0x1b 0x08 0x10 = Inr v" "star_sysret v = 0x13" "star_syscall v = 0x08"
    using star_kernel [OF assms(3)] .
  show thesis
    by (rule that [OF _ g(2) v(2,3)]) (simp add: gdt_init_def TSS_ok [OF assms(1,4,5,6)] g(1) v(1))
qed

section \<open>A concrete table\<close>

definition list_gdt :: "Descriptor option list gdt_api" where
  "list_gdt = \<lparr>gdt_new = [None], gdt_add_entry = (\<lambda>d g. if length g + width d \<le> 8
     then Ret (word_of_nat (8 * length g + dpl d), g @ Some d # replicate (width d - 1) None) else Panic)\<rparr>"

definition star_value :: "nat \<Rightarrow> nat \<Rightarrow> u64" where
  "star_value a b = word_of_nat (2 ^ 48 * a + 2 ^ 32 * b)"

definition std_star :: star_api where
  "std_star = \<lparr>star_write = (\<lambda>ucode udata kcode kdata.
     if 16 \<le> unat ucode \<and> unat ucode = unat udata + 8 \<and> unat kdata = unat kcode + 8 \<and> unat udata mod 4 = 3 \<and> unat kdata mod 4 = 0
     then Inr (star_value (unat udata - 8) (unat kcode)) else Inl ())\<rparr>"

lemma list_gdt_docs: "gdt_docs list_gdt (\<lambda>g. g)"
  by (simp add: gdt_docs_def list_gdt_def)

lemma star_value:
  assumes "a < 65536" and "b < 65536"
  shows "star_sysret (star_value a b) = word_of_nat a" and "star_syscall (star_value a b) = word_of_nat b"
proof -
  have v: "unat (star_value a b) = 2 ^ 48 * a + 2 ^ 32 * b"
    unfolding star_value_def using assms by (intro unat_word_of_nat64) simp
  have "(2 ^ 48 * a + 2 ^ 32 * b) div 2 ^ 48 = a" "(2 ^ 48 * a + 2 ^ 32 * b) div 2 ^ 32 mod 2 ^ 16 = b"
    using assms by simp_all
  then show "star_sysret (star_value a b) = word_of_nat a" and "star_syscall (star_value a b) = word_of_nat b"
    unfolding star_sysret_def star_syscall_def v by simp_all
qed

lemma std_star_docs: "star_docs std_star"
proof -
  have u: "unat u < 65536" "unat u - 8 < 65536" for u :: "16 word"
    using unsigned_less [of u, where 'a = nat] by simp_all
  show ?thesis unfolding star_docs_def Let_def std_star_def using u star_value by simp
qed

definition blank_cpu :: "(unit, Descriptor option list, nat \<Rightarrow> (handler \<times> nat option) option) seg_cpu" where
  "blank_cpu = \<lparr>regs = (\<lambda>_. 0), rip = 0, rflags = 2, cs = 0, ss = 0, gs_base = 7, kernel_gs_base = 0, star = 0,
     lstar = 0, sfmask = 0, efer_sce = False, cr4_fsgsbase = False, cells = (\<lambda>_. 0), ksys = (),
     ds = 0, gs = 0, tr = 0, gdtr = None, idtr = None\<rparr>"

lemma demo_stacks: "stack_ok 0x10000" "stack_ok 0x20000" "stack_ok 0x30000"
  by (simp_all add: stack_ok_def canonical_def STACK_SIZE_def)

section \<open>The properties of the component\<close>

text \<open>C15. \<^verbatim>\<open>gdt_init\<close> succeeds and the layout fits the system call instructions: the core runs in the
  kernel's code segment, from then on \<^verbatim>\<open>syscall\<close> switches to the kernel's code and data segments
  of the table at privilege level 0, \<^verbatim>\<open>sysretq\<close> switches to the user's at level 3, the task
  register holds the task state segment, and the table is exactly full.\<close>

theorem gdt_init_ok:
  assumes "addr_docs X" and "gdt_docs G slots" and "star_docs S" and "stack_ok s1" and "stack_ok s2" and "stack_ok s3"
  shows "\<exists>c' g. gdt_init X G S (Some True) s1 s2 s3 c = Ret c' \<and> gdtr c' = Some g \<and> length (slots g) = 8 \<and>
    segment (slots g) (cs c') = Some kernel_code_segment \<and> cpl c' = 0 \<and>
    (\<exists>tss. TSS X s1 s2 s3 = Ret tss \<and> segment (slots g) (ucast (tr c')) = Some (tss_segment tss)) \<and>
    (\<forall>(d :: ('x, 'y) cpu_scheme) d'. star d = star c' \<longrightarrow> syscall_instr d = Ret d' \<longrightarrow> segment (slots g) (cs d') = Some kernel_code_segment \<and>
      segment (slots g) (ss d') = Some kernel_data_segment \<and> cpl d' = 0) \<and>
    (\<forall>(d :: ('x, 'y) cpu_scheme) d'. star d = star c' \<longrightarrow> sysretq d = Ret d' \<longrightarrow> segment (slots g) (cs d') = Some user_code_segment \<and>
      segment (slots g) (ss d') = Some user_data_segment \<and> cpl d' = 3)"
proof -
  obtain g v where g: "gdt_init X G S (Some True) s1 s2 s3 c = Ret (c\<lparr>gdtr := Some g, cs := 0x08, ds := 0x10,
      gs := 0x38, gs_base := 0, star := v, tr := 0x28\<rparr>)" (is "_ = Ret ?c")
    "slots g = [None, Some kernel_code_segment, Some kernel_data_segment, Some user_data_segment, Some user_code_segment,
      Some (tss_segment (kernel_tss s1 s2 s3)), None, Some kernel_data_segment]" "star_sysret v = 0x13" "star_syscall v = 0x08"
    by (rule gdt_init_eq [OF assms])
  have "segment (slots g) (cs d') = Some kernel_code_segment \<and> segment (slots g) (ss d') = Some kernel_data_segment \<and> cpl d' = 0"
    if "star d = v" "syscall_instr d = Ret d'" for d d' :: "('x, 'y) cpu_scheme"
    using that g(4) by (auto simp: syscall_instr_def segment_def g(2) cpl_def split: if_splits)
  moreover have "segment (slots g) (cs d') = Some user_code_segment \<and> segment (slots g) (ss d') = Some user_data_segment \<and> cpl d' = 3"
    if "star d = v" "sysretq d = Ret d'" for d d' :: "('x, 'y) cpu_scheme"
    using that g(3) by (auto simp: sysretq_def segment_def g(2) cpl_def split: if_splits)
  moreover have "segment (slots g) (cs ?c) = Some kernel_code_segment" "cpl ?c = 0"
    "segment (slots g) (ucast (tr ?c)) = Some (tss_segment (kernel_tss s1 s2 s3))" "length (slots g) = 8"
    by (simp_all add: segment_def g(2) cpl_def)
  ultimately show ?thesis using g(1) TSS_ok [OF assms(1,4,5,6)]
    by (intro exI [of _ ?c] exI [of _ g]) simp
qed

theorem gdt_init_ok_witness:
  "\<exists>c' g. gdt_init (std_paging :: (_, unit) paging) list_gdt std_star (Some True) 0x10000 0x20000 0x30000 blank_cpu = Ret c' \<and>
    gdtr c' = Some g \<and> segment g (cs c') = Some kernel_code_segment \<and>
    (\<forall>d'. sysretq (blank_cpu\<lparr>efer_sce := True, star := star c'\<rparr>) = Ret d' \<longrightarrow> segment g (cs d') = Some user_code_segment \<and> cpl d' = 3)"
proof -
  obtain c' g where r: "gdt_init (std_paging :: (_, unit) paging) list_gdt std_star (Some True) 0x10000 0x20000 0x30000 blank_cpu = Ret c'"
    "gdtr c' = Some g" "segment g (cs c') = Some kernel_code_segment"
    "\<forall>(d :: (unit, (Descriptor option list, nat \<Rightarrow> (handler \<times> nat option) option, unit) seg_cpu_ext) cpu_scheme) d'.
      star d = star c' \<longrightarrow> sysretq d = Ret d' \<longrightarrow> segment g (cs d') = Some user_code_segment \<and>
      segment g (ss d') = Some user_data_segment \<and> cpl d' = 3"
    using gdt_init_ok [OF std_addr_docs list_gdt_docs std_star_docs demo_stacks, of blank_cpu] by blast
  have "\<forall>d'. sysretq (blank_cpu\<lparr>efer_sce := True, star := star c'\<rparr>) = Ret d' \<longrightarrow> segment g (cs d') = Some user_code_segment \<and> cpl d' = 3"
    using spec [OF r(4), of "blank_cpu\<lparr>efer_sce := True, star := star c'\<rparr>"] by simp
  with r(1-3) show ?thesis by blast
qed

text \<open>Double faults and page faults are handled on stacks of their own: after \<^verbatim>\<open>gdt_init\<close> and \<^verbatim>\<open>init_idt\<close>,
  the entry of each of the two vectors selects the slot of the interrupt stack table that holds the
  top of its 20 KiB stack, the stack for interrupts from user mode is the third one, and every
  other handler runs on the current stack.\<close>

lemma faults_have_stacks:
  assumes "addr_docs X" and "gdt_docs G slots" and "star_docs S" and "stack_ok s1" and "stack_ok s2" and "stack_ok s3"
    and "idt_docs T entry"
  shows "\<exists>c' g t tss i j. obind (gdt_init X G S (Some True) s1 s2 s3 c) (init_idt T) = Ret c' \<and>
    gdtr c' = Some g \<and> idtr c' = Some t \<and> segment (slots g) (ucast (tr c')) = Some (tss_segment tss) \<and>
    entry t 8 = Some (h_double_fault, Some i) \<and> interrupt_stack_table tss ! i = s1 + STACK_SIZE \<and>
    entry t 14 = Some (h_page_fault, Some j) \<and> interrupt_stack_table tss ! j = s2 + STACK_SIZE \<and>
    privilege_stack_table tss ! 0 = s3 + STACK_SIZE \<and>
    (\<forall>v h k. entry t v = Some (h, Some k) \<longrightarrow> v = 8 \<or> v = 14)"
proof -
  obtain g v where g: "gdt_init X G S (Some True) s1 s2 s3 c = Ret (c\<lparr>gdtr := Some g, cs := 0x08, ds := 0x10,
      gs := 0x38, gs_base := 0, star := v, tr := 0x28\<rparr>)" (is "_ = Ret ?c")
    "slots g = [None, Some kernel_code_segment, Some kernel_data_segment, Some user_data_segment, Some user_code_segment,
      Some (tss_segment (kernel_tss s1 s2 s3)), None, Some kernel_data_segment]" "star_sysret v = 0x13" "star_syscall v = 0x08"
    by (rule gdt_init_eq [OF assms(1-6)])
  obtain t where t: "IDT T = Ret t" "entry t = vector_table" using IDT_ok [OF assms(7)] by blast
  have "segment (slots g) (ucast (tr ?c)) = Some (tss_segment (kernel_tss s1 s2 s3))" by (simp add: segment_def g(2))
  moreover have "\<forall>v h k. vector_table v = Some (h, Some k) \<longrightarrow> v = 8 \<or> v = 14" by (simp add: vector_table_def)
  ultimately show ?thesis
    by (intro exI [of _ "?c\<lparr>idtr := Some t\<rparr>"] exI [of _ g] exI [of _ t] exI [of _ "kernel_tss s1 s2 s3"] exI [of _ 0] exI [of _ 1])
       (simp add: g(1) init_idt_def t kernel_tss_def vector_table_def)
qed

end
