(* ===== verification/Frames.thy ===== *)
theory Frames
  imports Paging
begin

text \<open>
  \<^verbatim>\<open>kernel/src/memory.rs\<close>: the frame allocator that hands out the usable frames of the
  bootloader's memory map one by one, and the static page mapper. The memory map comes from the
  \<^verbatim>\<open>bootloader\<close> crate and is a list of regions. The contract other components rely on is the
  locale \<open>frame_source\<close> (a source of frames is a list that is consumed from the front);
  \<open>BootInfoFrameAllocator\<close> is interpreted in it. The properties: the n-th call returns the n-th
  usable frame and then nothing, no frame is handed out twice, and every frame lies in a region
  the map marks as usable.
\<close>

section \<open>The memory map\<close>

text \<open>\<^verbatim>\<open>MemoryRegionType\<close> has one value the kernel names; the others are kept apart by a number.\<close>

datatype MemoryRegionType = Usable | OtherRegion nat

record MemoryRegion =
  start_addr :: u64
  end_addr :: u64
  region_type :: MemoryRegionType

type_synonym MemoryMap = "MemoryRegion list"

section \<open>The frame allocator\<close>

record BootInfoFrameAllocator =
  memory_map :: MemoryMap
  next_frame :: usize  \<comment> \<open>the field \<^verbatim>\<open>next\<close>\<close>

definition frame_allocator_init :: "MemoryMap \<Rightarrow> BootInfoFrameAllocator" where
  "frame_allocator_init m = \<lparr>memory_map = m, next_frame = 0\<rparr>"

text \<open>\<^verbatim>\<open>(start..end).step_by(4096)\<close>: the addresses from the start on that are below the end.\<close>

definition step_by_4096 :: "u64 \<Rightarrow> u64 \<Rightarrow> u64 list" where
  "step_by_4096 s e = map (page_at s) [0..<(unat e - unat s + 4095) div 4096]"

definition usable_addrs :: "BootInfoFrameAllocator \<Rightarrow> u64 list" where
  "usable_addrs fa =
     (let regions = memory_map fa;
          usable_regions = filter (\<lambda>r. region_type r = Usable) regions;
          addr_ranges = map (\<lambda>r. (start_addr r, end_addr r)) usable_regions
      in concat (map (\<lambda>(s, e). step_by_4096 s e) addr_ranges))"

text \<open>
  The iterator of \<^verbatim>\<open>usable_frames\<close> is lazy: \<^verbatim>\<open>nth(n)\<close> builds the frames it skips too, and
  \<^verbatim>\<open>PhysAddr::new\<close> panics on an address with bits above 52.
\<close>

fun nth_frame :: "('pt, 'fa) paging \<Rightarrow> u64 list \<Rightarrow> nat \<Rightarrow> PhysFrame option outcome" where
  "nth_frame X [] n = Ret None"
| "nth_frame X (a # as) n =
     obind (pa_new X a) (\<lambda>pa.
     let frame = frame_containing X pa in
     case n of 0 \<Rightarrow> Ret (Some frame) | Suc n' \<Rightarrow> nth_frame X as n')"

definition allocate_frame :: "bool \<Rightarrow> ('pt, 'fa) paging \<Rightarrow> BootInfoFrameAllocator
    \<Rightarrow> (PhysFrame option \<times> BootInfoFrameAllocator) outcome" where
  "allocate_frame oc X fa =
     obind (nth_frame X (usable_addrs fa) (unat (next_frame fa))) (\<lambda>frame.
     obind (add_chk oc (next_frame fa) 1) (\<lambda>n.
     Ret (frame, fa\<lparr>next_frame := n\<rparr>)))"

text \<open>A run of calls.\<close>

fun allocate_frames :: "bool \<Rightarrow> ('pt, 'fa) paging \<Rightarrow> nat \<Rightarrow> BootInfoFrameAllocator
    \<Rightarrow> (PhysFrame option list \<times> BootInfoFrameAllocator) outcome" where
  "allocate_frames oc X 0 fa = Ret ([], fa)"
| "allocate_frames oc X (Suc n) fa =
     obind (allocate_frame oc X fa) (\<lambda>(f, fa).
     obind (allocate_frames oc X n fa) (\<lambda>(fs, fa). Ret (f # fs, fa)))"

section \<open>The static mapper\<close>

text \<open>
  \<^verbatim>\<open>MAPPER\<close> is a \<^verbatim>\<open>MaybeUninit\<close>: nothing before \<^verbatim>\<open>init\<close> writes it, and reading it then is
  undefined. The physical address in \<^verbatim>\<open>CR3\<close> and the construction of the mapper over the level-4
  table at a virtual address are the crate's.
\<close>

definition memory_init :: "('pt, 'fa) paging \<Rightarrow> PhysAddr \<Rightarrow> (VirtAddr \<Rightarrow> VirtAddr \<Rightarrow> 'pt)
    \<Rightarrow> VirtAddr \<Rightarrow> 'pt option \<Rightarrow> ('pt \<times> 'pt option) outcome" where
  "memory_init X cr3 offset_page_table physical_memory_offset MAPPER =
     (let phys_addr = cr3 in
      obind (va_add X physical_memory_offset phys_addr) (\<lambda>virt_addr.
      let mapper = offset_page_table virt_addr physical_memory_offset
      in Ret (mapper, Some mapper)))"

definition mapper :: "'pt option \<Rightarrow> 'pt outcome" where
  "mapper MAPPER = (case MAPPER of None \<Rightarrow> UB | Some m \<Rightarrow> Ret m)"

text \<open>\<^verbatim>\<open>MapperGuard::with\<close>: run the closure on the guarded mapper.\<close>

definition mapper_with :: "'pt outcome \<Rightarrow> ('pt \<Rightarrow> 'r outcome) \<Rightarrow> 'r outcome" where
  "mapper_with guard f = obind guard f"

section \<open>The interface of frame sources\<close>

definition frame_at :: "('pt, 'fa) paging \<Rightarrow> u64 \<Rightarrow> PhysFrame" where
  "frame_at X a = (case pa_new X a of Ret pa \<Rightarrow> frame_containing X pa | _ \<Rightarrow> 0)"

definition fa_pending :: "('pt, 'fa) paging \<Rightarrow> BootInfoFrameAllocator \<Rightarrow> PhysFrame list" where
  "fa_pending X fa = map (frame_at X) (drop (unat (next_frame fa)) (usable_addrs fa))"

definition fa_good :: "('pt, 'fa) paging \<Rightarrow> BootInfoFrameAllocator \<Rightarrow> bool" where
  "fa_good X fa \<longleftrightarrow> (\<forall>a \<in> set (usable_addrs fa). \<exists>pa. pa_new X a = Ret pa) \<and>
     length (usable_addrs fa) < 2 ^ 64 - 1 \<and> unat (next_frame fa) \<le> length (usable_addrs fa)"

text \<open>
  A memory map is sane when its regions lie within the physical address space, start and end on
  frame boundaries, and two usable regions do not overlap.
\<close>

definition region_ok :: "MemoryRegion \<Rightarrow> bool" where
  "region_ok r \<longleftrightarrow> unat (end_addr r) \<le> 2 ^ 52 \<and> 4096 dvd unat (start_addr r) \<and> 4096 dvd unat (end_addr r)"

definition region_range :: "MemoryRegion \<Rightarrow> nat set" where
  "region_range r = {unat (start_addr r) ..< unat (end_addr r)}"

fun map_ok :: "MemoryMap \<Rightarrow> bool" where
  "map_ok [] = True"
| "map_ok (r # rs) \<longleftrightarrow> map_ok rs \<and> (region_type r = Usable \<longrightarrow> region_ok r \<and>
     (\<forall>q \<in> set rs. region_type q = Usable \<longrightarrow> region_range r \<inter> region_range q = {}))"

text \<open>The frame addresses of a map, region by region.\<close>

definition region_addrs :: "MemoryMap \<Rightarrow> u64 list" where
  "region_addrs m = concat (map (\<lambda>r. step_by_4096 (start_addr r) (end_addr r))
     (filter (\<lambda>r. region_type r = Usable) m))"

text \<open>The concrete paging instance over this allocator, and a small map, for examples.\<close>

abbreviation boot_paging :: "(Page \<rightharpoonup> PhysFrame \<times> PageTableFlags, BootInfoFrameAllocator) paging" where
  "boot_paging \<equiv> std_paging"

definition demo_map :: MemoryMap where
  "demo_map = [\<lparr>start_addr = 0, end_addr = 0x1000, region_type = OtherRegion 0\<rparr>,
     \<lparr>start_addr = 0x1000, end_addr = 0x4000, region_type = Usable\<rparr>,
     \<lparr>start_addr = 0x8000, end_addr = 0x9000, region_type = Usable\<rparr>]"

definition big_map :: MemoryMap where
  "big_map = [\<lparr>start_addr = 0x100000, end_addr = 0x900000, region_type = Usable\<rparr>]"

locale frame_source =
  fixes alloc :: "'s \<Rightarrow> (PhysFrame option \<times> 's) outcome"
    and pending :: "'s \<Rightarrow> PhysFrame list" and good :: "'s \<Rightarrow> bool"
  assumes alloc_some: "good s \<Longrightarrow> pending s = f # fs \<Longrightarrow>
      \<exists>s'. alloc s = Ret (Some f, s') \<and> pending s' = fs \<and> good s'"
    and alloc_none: "good s \<Longrightarrow> pending s = [] \<Longrightarrow> \<exists>s'. alloc s = Ret (None, s') \<and> pending s' = []"
begin

lemma alloc_cases:
  assumes "good s"
  obtains (some) f s' where "alloc s = Ret (Some f, s')" "pending s = f # pending s'" "good s'"
    | (none) s' where "alloc s = Ret (None, s')" "pending s = []"
  using assms alloc_some alloc_none by (cases "pending s") metis+

lemma alloc_returns: "good s \<Longrightarrow> \<exists>r s'. alloc s = Ret (r, s')"
  by (rule alloc_cases) blast+

end

lemma nth_frame_eq:
  assumes "\<forall>a \<in> set as. \<exists>pa. pa_new X a = Ret pa"
  shows "nth_frame X as n = Ret (if n < length as then Some (frame_at X (as ! n)) else None)"
  using assms
proof (induction as arbitrary: n)
  case (Cons a as)
  then obtain pa where "pa_new X a = Ret pa" by auto
  with Cons show ?case by (cases n) (simp_all add: frame_at_def Let_def)
qed simp

lemma allocate_frame_eq:
  assumes "\<forall>a \<in> set (usable_addrs fa). \<exists>pa. pa_new X a = Ret pa" and "unat (next_frame fa) < 2 ^ 64 - 1"
  shows "allocate_frame oc X fa =
    Ret (if unat (next_frame fa) < length (usable_addrs fa)
         then Some (frame_at X (usable_addrs fa ! unat (next_frame fa))) else None,
         fa\<lparr>next_frame := next_frame fa + 1\<rparr>)"
  using assms by (simp add: allocate_frame_def nth_frame_eq add_chk_def)

lemma usable_addrs_next [simp]: "usable_addrs (fa\<lparr>next_frame := n\<rparr>) = usable_addrs fa"
  by (simp add: usable_addrs_def)

lemma next_frame_Suc:
  assumes "unat (next_frame fa) < 2 ^ 64 - 1" shows "unat (next_frame fa + 1) = Suc (unat (next_frame fa))"
  using assms unat_add_fits [of "next_frame fa" 1] by simp

lemma fa_goodD:
  assumes "fa_good X fa"
  shows "\<forall>a \<in> set (usable_addrs fa). \<exists>pa. pa_new X a = Ret pa" and "unat (next_frame fa) < 2 ^ 64 - 1"
  using assms by (simp_all add: fa_good_def)

interpretation boot_frames: frame_source "allocate_frame oc X" "fa_pending X" "fa_good X" for oc X
proof
  fix fa f fs assume g: "fa_good X fa" and p: "fa_pending X fa = f # fs"
  let ?n = "unat (next_frame fa)"
  have lt: "?n < length (usable_addrs fa)" using p by (auto simp: fa_pending_def intro: ccontr)
  have "drop ?n (usable_addrs fa) = usable_addrs fa ! ?n # drop (Suc ?n) (usable_addrs fa)"
    using lt by (simp add: Cons_nth_drop_Suc)
  with p g lt show "\<exists>fa'. allocate_frame oc X fa = Ret (Some f, fa') \<and> fa_pending X fa' = fs \<and> fa_good X fa'"
    by (simp add: allocate_frame_eq [OF fa_goodD] fa_pending_def next_frame_Suc [OF fa_goodD(2)])
       (simp add: fa_good_def next_frame_Suc [OF fa_goodD(2), OF g])
next
  fix fa assume g: "fa_good X fa" and p: "fa_pending X fa = []"
  then have "\<not> unat (next_frame fa) < length (usable_addrs fa)" by (simp add: fa_pending_def)
  with g show "\<exists>fa'. allocate_frame oc X fa = Ret (None, fa') \<and> fa_pending X fa' = []"
    by (simp add: allocate_frame_eq [OF fa_goodD] fa_pending_def next_frame_Suc [OF fa_goodD(2)])
qed

section \<open>The addresses of a sane map\<close>

lemma usable_addrs_eq: "usable_addrs fa = region_addrs (memory_map fa)"
  by (simp add: usable_addrs_def region_addrs_def Let_def comp_def)

lemma region_addrs_Cons: "region_addrs (r # m) =
    (if region_type r = Usable then step_by_4096 (start_addr r) (end_addr r) @ region_addrs m else region_addrs m)"
  by (simp add: region_addrs_def)

lemma step_by_in:
  assumes "a \<in> set (step_by_4096 s e)" and "4096 dvd unat s" and "4096 dvd unat e"
  shows "unat s \<le> unat a" and "unat a + 4096 \<le> unat e" and "4096 dvd unat a"
proof -
  obtain i where i: "i < (unat e - unat s + 4095) div 4096" "a = page_at s i"
    using assms(1) unfolding step_by_4096_def set_map set_upt by (elim imageE) (metis atLeastLessThan_iff)
  obtain j k where jk: "unat s = 4096 * j" "unat e = 4096 * k" using assms(2,3) by blast
  then have "(unat e - unat s + 4095) div 4096 = k - j" by (simp add: diff_mult_distrib2 [symmetric])
  with i have "i < k - j" by simp
  then have le: "unat s + 4096 * i + 4096 \<le> unat e" using jk by simp
  then have "unat s + 4096 * i < 2 ^ 64" using unat_u64 [of e] by linarith
  then have "unat a = unat s + 4096 * i" using i(2) by (simp add: unat_page_at)
  with le assms(2) show "unat s \<le> unat a" "unat a + 4096 \<le> unat e" "4096 dvd unat a" by simp_all
qed

lemma step_by_distinct:
  assumes "4096 dvd unat s" and "4096 dvd unat e"
  shows "distinct (step_by_4096 s e)"
proof (cases "unat s \<le> unat e")
  case True
  obtain j k where jk: "unat s = 4096 * j" "unat e = 4096 * k" using assms by blast
  then have n: "(unat e - unat s + 4095) div 4096 = k - j" by (simp add: diff_mult_distrib2 [symmetric])
  have "unat s + 4096 * (k - j) \<le> 2 ^ 64" using jk True unat_u64 [of e] by linarith
  from distinct_pages_from [OF this] show ?thesis
    by (simp add: step_by_4096_def pages_from_def n)
next
  case False
  then show ?thesis by (simp add: step_by_4096_def)
qed

lemma region_addrs_in:
  assumes "map_ok m" and "a \<in> set (region_addrs m)"
  shows "\<exists>r \<in> set m. region_type r = Usable \<and> region_ok r \<and> {unat a ..< unat a + 4096} \<subseteq> region_range r \<and>
    4096 dvd unat a"
  using assms
proof (induction m)
  case (Cons r m)
  show ?case
  proof (cases "region_type r = Usable \<and> a \<in> set (step_by_4096 (start_addr r) (end_addr r))")
    case True
    with Cons.prems have r: "region_ok r" by simp
    then have "unat (start_addr r) \<le> unat a" "unat a + 4096 \<le> unat (end_addr r)" "4096 dvd unat a"
      using True step_by_in by (auto simp: region_ok_def)
    with True r show ?thesis by (auto simp: region_range_def)
  next
    case False
    with Cons show ?thesis by (auto simp: region_addrs_Cons split: if_splits)
  qed
qed (simp add: region_addrs_def)

lemma region_addrs_distinct: "map_ok m \<Longrightarrow> distinct (region_addrs m)"
proof (induction m)
  case (Cons r m)
  have "set (step_by_4096 (start_addr r) (end_addr r)) \<inter> set (region_addrs m) = {}"
    if u: "region_type r = Usable"
  proof (rule ccontr)
    assume "\<not> ?thesis"
    then obtain a where a: "a \<in> set (step_by_4096 (start_addr r) (end_addr r))" "a \<in> set (region_addrs m)" by auto
    have r: "region_ok r" using Cons.prems u by simp
    then have "unat a \<in> region_range r"
      using step_by_in [OF a(1)] by (auto simp: region_ok_def region_range_def)
    moreover obtain q where "q \<in> set m" "region_type q = Usable" "unat a \<in> region_range q"
      using region_addrs_in [OF _ a(2)] Cons.prems by fastforce
    ultimately show False using Cons.prems u by auto
  qed
  with Cons step_by_distinct show ?case by (auto simp: region_addrs_Cons region_ok_def)
qed (simp add: region_addrs_def)

lemma region_addrs_bound: "map_ok m \<Longrightarrow> a \<in> set (region_addrs m) \<Longrightarrow> unat a < 2 ^ 52"
  using region_addrs_in [of m a] by (fastforce simp: region_ok_def region_range_def)

lemma region_addrs_length:
  assumes "map_ok m" shows "length (region_addrs m) \<le> 2 ^ 52"
proof -
  have "inj_on unat (set (region_addrs m))" by (auto intro!: inj_onI unsigned_word_eqI)
  then have "length (region_addrs m) = card (unat ` set (region_addrs m))"
    using region_addrs_distinct [OF assms] by (simp add: card_image distinct_card)
  also have "\<dots> \<le> card {..<2 ^ 52 :: nat}"
    using region_addrs_bound [OF assms] by (intro card_mono) auto
  finally show ?thesis by simp
qed

text \<open>With the documented behaviour of the crate a fresh allocator over a sane map is good.\<close>

lemma frame_at_aligned:
  assumes "addr_docs X" and "page_docs X" and "unat a < 2 ^ 52" and "4096 dvd unat a"
  shows "frame_at X a = a"
  using assms by (simp add: frame_at_def addr_docs_def page_docs_def align_down_aligned)

lemma sane_map_pa:
  assumes "addr_docs X" and "map_ok (memory_map fa)"
  shows "\<forall>a \<in> set (usable_addrs fa). \<exists>pa. pa_new X a = Ret pa"
  using assms region_addrs_bound by (simp add: addr_docs_def usable_addrs_eq)

lemma frame_allocator_init_good:
  assumes "addr_docs X" and "map_ok m"
  shows "fa_good X (frame_allocator_init m)"
  using sane_map_pa [of X "frame_allocator_init m"] region_addrs_length [of m] assms
  by (simp add: fa_good_def frame_allocator_init_def usable_addrs_eq)

lemma allocate_frames_eq:
  assumes "\<forall>a \<in> set (usable_addrs fa). \<exists>pa. pa_new X a = Ret pa"
    and "unat (next_frame fa) + n < 2 ^ 64"
  shows "\<exists>fa'. allocate_frames oc X n fa =
    Ret (map (\<lambda>i. if i < length (usable_addrs fa) then Some (frame_at X (usable_addrs fa ! i)) else None)
      [unat (next_frame fa)..<unat (next_frame fa) + n], fa')"
  using assms
proof (induction n arbitrary: fa)
  case (Suc n)
  let ?fa = "fa\<lparr>next_frame := next_frame fa + 1\<rparr>"
  have lt: "unat (next_frame fa) < 2 ^ 64 - 1" using Suc.prems(2) by simp
  have nx: "unat (next_frame ?fa) = Suc (unat (next_frame fa))"
    using next_frame_Suc [OF lt] by simp
  have "\<exists>fa'. allocate_frames oc X n ?fa =
      Ret (map (\<lambda>i. if i < length (usable_addrs ?fa) then Some (frame_at X (usable_addrs ?fa ! i)) else None)
        [unat (next_frame ?fa)..<unat (next_frame ?fa) + n], fa')"
    using Suc.prems nx by (intro Suc.IH) simp_all
  then show ?case
    using allocate_frame_eq [OF Suc.prems(1) lt, of oc] nx
    by (auto simp: upt_conv_Cons simp del: upt_Suc)
qed simp

lemma allocate_frames_init:
  assumes "addr_docs X" and "page_docs X" and "map_ok m" and "n < 2 ^ 64"
  shows "\<exists>fa'. allocate_frames oc X n (frame_allocator_init m) =
    Ret (map (\<lambda>i. if i < length (region_addrs m) then Some (region_addrs m ! i) else None) [0..<n], fa')"
proof -
  let ?fa = "frame_allocator_init m"
  have u: "usable_addrs ?fa = region_addrs m" "next_frame ?fa = 0" "memory_map ?fa = m"
    by (simp_all add: usable_addrs_eq frame_allocator_init_def)
  have "frame_at X (region_addrs m ! i) = region_addrs m ! i" if "i < length (region_addrs m)" for i
    using that region_addrs_bound [OF assms(3) nth_mem] region_addrs_in [OF assms(3) nth_mem] assms(1,2)
    by (intro frame_at_aligned) auto
  then show ?thesis
    using allocate_frames_eq [OF sane_map_pa [OF assms(1)], of ?fa n oc] assms(3,4) u
    by (auto cong: if_cong)
qed

lemma fa_pending_init:
  assumes "addr_docs X" and "page_docs X" and "map_ok m"
  shows "fa_pending X (frame_allocator_init m) = region_addrs m"
proof -
  have "frame_at X a = a" if "a \<in> set (region_addrs m)" for a
    using that region_addrs_bound [OF assms(3)] region_addrs_in [OF assms(3)] assms(1,2)
    by (intro frame_at_aligned) auto
  then show ?thesis by (simp add: fa_pending_def frame_allocator_init_def usable_addrs_eq map_idI)
qed

lemma big_map_ok: "map_ok big_map"
  by (simp add: big_map_def region_ok_def)

lemma big_map_pending:
  "length (fa_pending boot_paging (frame_allocator_init big_map)) = 2048"
  "distinct (fa_pending boot_paging (frame_allocator_init big_map))"
  "fa_good boot_paging (frame_allocator_init big_map)"
  using region_addrs_distinct [OF big_map_ok] frame_allocator_init_good [OF std_addr_docs big_map_ok]
  by (simp_all add: fa_pending_init std_addr_docs std_page_docs big_map_ok)
     (simp add: big_map_def region_addrs_def step_by_4096_def)

lemma demo_map_ok: "map_ok demo_map"
  by (simp add: demo_map_def region_ok_def region_range_def ivl_disj_int)

lemma demo_addrs: "region_addrs demo_map = [0x1000, 0x2000, 0x3000, 0x8000]"
  by (simp add: demo_map_def region_addrs_def step_by_4096_def page_at_def upt_rec)

section \<open>The properties of the component\<close>

text \<open>C30. The frame allocator serves the frames of the memory map in order: over a sane map, with
  the crate behaving as documented, \<open>n\<close> calls return without panic, the \<open>i\<close>-th call returning
  the \<open>i\<close>-th usable frame, and \<^verbatim>\<open>None\<close> once the usable frames are used up.\<close>

theorem frames_in_order:
  assumes "addr_docs X" and "page_docs X" and "map_ok m" and "n < 2 ^ 64"
  shows "\<exists>fa'. allocate_frames oc X n (frame_allocator_init m) =
    Ret (map (\<lambda>i. if i < length (region_addrs m) then Some (region_addrs m ! i) else None) [0..<n], fa')"
  by (rule allocate_frames_init [OF assms])

theorem frames_in_order_witness:
  "\<exists>fa'. allocate_frames True boot_paging 5 (frame_allocator_init demo_map) =
    Ret ([Some 0x1000, Some 0x2000, Some 0x3000, Some 0x8000, None], fa')"
  using frames_in_order [OF std_addr_docs std_page_docs demo_map_ok, of 5 True]
  by (simp add: demo_addrs upt_rec)

text \<open>C31. No frame is handed out twice, and none that is in use: the frames returned by any number
  of calls are pairwise different, aligned to 4 KiB, and each lies entirely inside a region that
  the memory map marks as usable.\<close>

theorem frames_distinct_usable:
  assumes "addr_docs X" and "page_docs X" and "map_ok m" and "n < 2 ^ 64"
    and "allocate_frames oc X n (frame_allocator_init m) = Ret (fs, fa')"
  shows "distinct (List.map_filter id fs) \<and> (\<forall>f. Some f \<in> set fs \<longrightarrow> 4096 dvd unat f \<and>
    (\<exists>r \<in> set m. region_type r = Usable \<and> {unat f ..< unat f + 4096} \<subseteq> region_range r))"
proof -
  let ?as = "region_addrs m"
  have fs: "fs = map (\<lambda>i. if i < length ?as then Some (?as ! i) else None) [0..<n]"
    using allocate_frames_init [OF assms(1-4), of oc] assms(5) by auto
  have "List.map_filter id fs = take n ?as"
    unfolding fs by (induction n) (auto simp: map_filter_def take_Suc_conv_app_nth)
  then have "distinct (List.map_filter id fs)"
    using region_addrs_distinct [OF assms(3)] by simp
  moreover have "f \<in> set ?as" if "Some f \<in> set fs" for f
    using that by (auto simp: fs split: if_splits)
  ultimately show ?thesis using region_addrs_in [OF assms(3)] by blast
qed

theorem frames_distinct_usable_witness:
  "\<exists>fs fa'. allocate_frames False boot_paging 3 (frame_allocator_init demo_map) = Ret (fs, fa') \<and>
    fs \<noteq> [] \<and> distinct (List.map_filter id fs)"
proof -
  have h: "3 < (2::nat) ^ 64" by simp
  have "\<forall>a \<in> set (usable_addrs (frame_allocator_init demo_map)). \<exists>pa. pa_new boot_paging a = Ret pa"
    by (rule sane_map_pa [OF std_addr_docs]) (simp add: frame_allocator_init_def demo_map_ok)
  from allocate_frames_eq [OF this, of 3 False]
  obtain fs fa' where r: "allocate_frames False boot_paging 3 (frame_allocator_init demo_map) = Ret (fs, fa')"
    and "fs \<noteq> []" by (auto simp: frame_allocator_init_def upt_rec)
  with frames_distinct_usable [OF std_addr_docs std_page_docs demo_map_ok h r] show ?thesis by auto
qed

end
