(* ===== verification/Mapping_Loops.thy ===== *)
theory Mapping_Loops
  imports Frames
begin

text \<open>
  The loop the kernel runs in three places (the heap, the user stack, the pages of a process):
  take a frame from the allocator and map a page to it. Here is the common part, for any frame
  source: what one round does, what a run over a list of pages does, and that the frames used
  are the ones the source promised, each for one page only.
\<close>

section \<open>The loop with unwrap\<close>

text \<open>
  \<^verbatim>\<open>let frame = allocator.allocate_frame().unwrap(); mapper.map_to(page, frame, flags, ..).unwrap().flush();\<close>
  for each page, as in \<^verbatim>\<open>kernel_main\<close> and in \<^verbatim>\<open>elf::load\<close>.
\<close>

fun map_all :: "('s \<Rightarrow> (PhysFrame option \<times> 's) outcome) \<Rightarrow> ('pt, 's) paging
    \<Rightarrow> (Page \<times> PageTableFlags) list \<Rightarrow> 'pt \<Rightarrow> 's \<Rightarrow> ('pt \<times> 's) outcome" where
  "map_all alloc X [] pt fa = Ret (pt, fa)"
| "map_all alloc X ((page, flags) # ps) pt fa =
     obind (alloc fa) (\<lambda>(f, fa).
     obind (unwrap f) (\<lambda>frame.
     obind (pt_map_to X page frame flags pt fa) (\<lambda>(r, pt, fa).
     obind (unwrap_result r) (\<lambda>_. map_all alloc X ps pt fa))))"

text \<open>The page table \<open>pt'\<close> is \<open>pt\<close> with the mappings of \<open>m\<close> added.\<close>

definition mapped_as :: "('pt, 's) paging \<Rightarrow> 'pt \<Rightarrow> 'pt \<Rightarrow> (Page \<rightharpoonup> PhysFrame \<times> PageTableFlags) \<Rightarrow> bool" where
  "mapped_as X pt pt' m \<longleftrightarrow> (\<forall>a. pt_translate X pt' a =
     (case m (page_containing X a) of
        Some (f, fl) \<Rightarrow> Mapped f (a - page_containing X a) fl
      | None \<Rightarrow> pt_translate X pt a))"

definition is_mapped :: "('pt, 's) paging \<Rightarrow> 'pt \<Rightarrow> VirtAddr \<Rightarrow> bool" where
  "is_mapped X pt a \<longleftrightarrow> (\<exists>f off fl. pt_translate X pt a = Mapped f off fl)"

text \<open>Pairing pages with frames, in order.\<close>

definition mapping_of :: "(Page \<times> PageTableFlags) list \<Rightarrow> PhysFrame list \<Rightarrow> (Page \<rightharpoonup> PhysFrame \<times> PageTableFlags)" where
  "mapping_of ps fs = map_of (map2 (\<lambda>(p, fl) f. (p, f, fl)) ps fs)"

section \<open>Facts\<close>

lemma mapped_as_empty [simp]: "mapped_as X pt pt Map.empty"
  by (simp add: mapped_as_def)

lemma mapped_as_trans:
  assumes "mapped_as X pt pt1 m1" and "mapped_as X pt1 pt2 m2"
  shows "mapped_as X pt pt2 (m1 ++ m2)"
  using assms by (auto simp: mapped_as_def map_add_def split: option.splits)

lemma mapping_of_simps [simp]:
  "mapping_of [] fs = Map.empty" "mapping_of ps [] = Map.empty"
  "mapping_of ((p, fl) # ps) (f # fs) = (mapping_of ps fs)(p \<mapsto> (f, fl))"
  by (simp_all add: mapping_of_def)

lemma dom_mapping_of: "length fs = length ps \<Longrightarrow> dom (mapping_of ps fs) = fst ` set ps"
proof (induction ps arbitrary: fs)
  case (Cons p ps)
  then obtain f fs' where fs: "fs = f # fs'" "length fs' = length ps" by (cases fs) auto
  obtain q fl where p: "p = (q, fl)" by (cases p)
  have "mapping_of (p # ps) fs = (mapping_of ps fs')(q \<mapsto> (f, fl))" by (simp add: fs p)
  then show ?case using Cons.IH [OF fs(2)] by (simp only: dom_fun_upd) (simp add: p)
qed simp

lemma mapping_of_Some:
  "mapping_of ps fs p = Some (f, fl) \<Longrightarrow> f \<in> set fs \<and> (p, fl) \<in> set ps"
  by (induction ps fs rule: list_induct2') (auto split: if_splits)

lemma mapping_of_inj:
  assumes "distinct fs" and "mapping_of ps fs p = Some (f, fl)" and "mapping_of ps fs q = Some (f, fl')"
  shows "p = q"
  using assms
  by (induction ps fs rule: list_induct2') (auto split: if_splits dest: mapping_of_Some)

text \<open>
  A page none of whose predecessors in the list is the same stays unmapped until its turn.
\<close>

lemma mapped_as_untouched:
  assumes "page_docs X" and "mapped_as X pt pt' m" and "m (align_down_4k a) = None"
  shows "pt_translate X pt' a = pt_translate X pt a"
  using assms by (simp add: mapped_as_def page_docs_def)

context frame_source
begin

lemma alloc_map_step:
  assumes docs: "mapper_docs X good pending" and "good fa" and "4 \<le> length (pending fa)"
    and "\<not> is_mapped X pt page"
  shows "\<exists>fa1 pt' fa'. alloc fa = Ret (Some (hd (pending fa)), fa1) \<and>
    pt_map_to X page (hd (pending fa)) flags pt fa1 = Ret (Inr (), pt', fa') \<and> good fa' \<and>
    (\<exists>k \<in> {1..4}. pending fa' = drop k (pending fa)) \<and>
    mapped_as X pt pt' [page \<mapsto> (hd (pending fa), flags)]"
proof -
  obtain f fs where p: "pending fa = f # fs" using assms(3) by (cases "pending fa") auto
  obtain fa1 where fa1: "alloc fa = Ret (Some f, fa1)" "pending fa1 = fs" "good fa1"
    using alloc_some [OF assms(2) p] by blast
  obtain r pt' fa' where r: "pt_map_to X page f flags pt fa1 = Ret (r, pt', fa')"
    and post: "case r of
        Inr _ \<Rightarrow> (\<exists>k \<le> 3. pending fa' = drop k (pending fa1)) \<and> good fa' \<and>
          (\<forall>a. pt_translate X pt' a =
             (if page_containing X a = page then Mapped f (a - page) flags else pt_translate X pt a))
      | Inl e \<Rightarrow> pt_translate X pt' = pt_translate X pt \<and>
          (e = FrameAllocationFailed \<longrightarrow> length (pending fa1) < 3) \<and>
          (e \<noteq> FrameAllocationFailed \<longrightarrow> (\<exists>f off fl. pt_translate X pt page = Mapped f off fl))"
    using docs fa1(3) unfolding mapper_docs_def by blast
  have "3 \<le> length (pending fa1)" using assms(3) p fa1(2) by simp
  then obtain u where u: "r = Inr u" using post assms(4) by (cases r) (auto simp: is_mapped_def)
  obtain k where k: "k \<le> 3" "pending fa' = drop k (pending fa1)" "good fa'" using post u by auto
  have "mapped_as X pt pt' [page \<mapsto> (f, flags)]"
    using post u by (simp add: mapped_as_def)
  moreover have "pending fa' = drop (Suc k) (pending fa)" using k p fa1(2) by simp
  ultimately show ?thesis using fa1 r u k p by (auto intro!: bexI [of _ "Suc k"])
qed

text \<open>
  With four frames in store for every page, the loop maps all pages: each to a frame of its own
  that the source had pending, with its own flags, and nothing else changes.
\<close>

lemma map_all_ok:
  assumes "mapper_docs X good pending" and "page_docs X" and "good fa"
    and "4 * length ps \<le> length (pending fa)" and "distinct (map fst ps)"
    and "\<forall>(page, flags) \<in> set ps. 4096 dvd unat page \<and> \<not> is_mapped X pt page"
  shows "\<exists>pt' fa' fs k. map_all alloc X ps pt fa = Ret (pt', fa') \<and> good fa' \<and>
    pending fa' = drop k (pending fa) \<and> k \<le> 4 * length ps \<and>
    length fs = length ps \<and> set fs \<subseteq> set (take k (pending fa)) \<and>
    (distinct (pending fa) \<longrightarrow> distinct fs) \<and> mapped_as X pt pt' (mapping_of ps fs)"
  using assms(3-)
proof (induction ps arbitrary: pt fa)
  case Nil
  then show ?case by (auto intro: exI [of _ "0::nat"])
next
  case (Cons pf ps)
  obtain page flags where pf: "pf = (page, flags)" by (cases pf)
  let ?f = "hd (pending fa)"
  have un: "\<not> is_mapped X pt page" "4096 dvd unat page" using Cons.prems(4) pf by auto
  obtain fa1 pt1 fa2 k1 where step: "alloc fa = Ret (Some ?f, fa1)"
      "pt_map_to X page ?f flags pt fa1 = Ret (Inr (), pt1, fa2)" "good fa2"
      "k1 \<in> {1..4}" "pending fa2 = drop k1 (pending fa)" "mapped_as X pt pt1 [page \<mapsto> (?f, flags)]"
    using alloc_map_step [OF assms(1) Cons.prems(1) _ un(1), of flags] Cons.prems(2) by auto
  have un1: "\<forall>(q, fl) \<in> set ps. 4096 dvd unat q \<and> \<not> is_mapped X pt1 q"
  proof clarify
    fix q fl assume q: "(q, fl) \<in> set ps"
    then have "4096 dvd unat q" "\<not> is_mapped X pt q" using Cons.prems(4) by auto
    moreover have "q \<noteq> page" using q Cons.prems(3) pf by force
    ultimately show "4096 dvd unat q \<and> \<not> is_mapped X pt1 q"
      using mapped_as_untouched [OF assms(2) step(6), of q] by (simp add: is_mapped_def align_down_aligned)
  qed
  have "4 * length ps \<le> length (pending fa2)" "distinct (map fst ps)"
    using Cons.prems(2,3) step(4,5) by auto
  note IHx = Cons.IH [OF step(3) this un1]
  then obtain pt' fa' fs k where IH: "map_all alloc X ps pt1 fa2 = Ret (pt', fa')" "good fa'"
      "pending fa' = drop k (pending fa2)" "k \<le> 4 * length ps" "length fs = length ps"
      "set fs \<subseteq> set (take k (pending fa2))" "distinct (pending fa2) \<longrightarrow> distinct fs"
      "mapped_as X pt1 pt' (mapping_of ps fs)"
    by blast
  have "page \<notin> dom (mapping_of ps fs)" using IH(5) Cons.prems(3) pf by (simp add: dom_mapping_of)
  then have m: "[page \<mapsto> (?f, flags)] ++ mapping_of ps fs = mapping_of (pf # ps) (?f # fs)"
    using pf by (simp add: map_add_upd_left)
  obtain f0 p0 where p0: "pending fa = f0 # p0" "?f = f0" using Cons.prems(2) by (cases "pending fa") auto
  have "drop k1 (pending fa) = drop (k1 - 1) p0" using step(4) p0 by (cases k1) auto
  then have "set fs \<subseteq> set p0" using IH(6) step(5) by (auto dest: in_set_takeD in_set_dropD)
  have t: "take (k1 + k) (pending fa) = take k1 (pending fa) @ take k (drop k1 (pending fa))"
    by (rule take_add)
  have "?f \<in> set (take k1 (pending fa))" using p0 step(4) by (cases k1) auto
  then have "set (?f # fs) \<subseteq> set (take (k1 + k) (pending fa))" using IH(6) step(5) t by auto
  moreover have "distinct (?f # fs)" if "distinct (pending fa)"
    using that IH(7) step(5) p0 \<open>set fs \<subseteq> set p0\<close> by (metis distinct.simps(2) distinct_drop subset_code(1))
  moreover have "mapped_as X pt pt' (mapping_of (pf # ps) (?f # fs))"
    using mapped_as_trans [OF step(6) IH(8)] m by simp
  moreover have "map_all alloc X (pf # ps) pt fa = Ret (pt', fa')" using step(1,2) IH(1) by (simp add: pf)
  moreover have "pending fa' = drop (k1 + k) (pending fa)" using IH(3) step(5) by (simp add: add.commute)
  moreover have "k1 + k \<le> 4 * length (pf # ps)" "length (?f # fs) = length (pf # ps)"
    using step(4) IH(4,5) by simp_all
  ultimately show ?case using IH(2) by blast
qed

end

end
