(* ===== verification/Elf.thy ===== *)
theory Elf
  imports Mapping_Loops
begin

text \<open>
  \<^verbatim>\<open>kernel/src/elf/{mod,types}.rs\<close>: loading a program. The ELF headers are read by the \<^verbatim>\<open>object\<close>
  crate, which is a parameter (the record \<open>elf_api\<close>): the parsed entry point and program headers
  of a file and the constants of the ELF format. From there on everything is the kernel's:
  selecting segments, relocating them, collecting the pages with their flags, mapping them,
  copying the file contents through the new mapping and taking the write permission back. The
  properties: where the program ends up, what every page of it is mapped with in the end, that
  the bytes at the segments' addresses are the bytes of the file, and how the flags of a page
  shared by several segments come out.
\<close>

section \<open>The object crate\<close>

datatype ElfSegmentType = Null | Load | Dynamic | Interp | Note | Shlib | Phdr | Tls | Loos
  | GnuEhFrame | GnuStack | GnuRelo | Hios | Loproc | Hiproc

record ProgramHeader =
  p_type :: u32
  p_flags :: u32
  p_offset :: u64
  p_vaddr :: u64
  p_filesz :: u64
  p_memsz :: u64
  p_align :: u64

record elf_api =
  parse_entry :: "u8 list \<Rightarrow> u64 option"                      \<comment> \<open>\<^verbatim>\<open>FileHeader64::parse\<close>, then \<^verbatim>\<open>e_entry\<close>\<close>
  program_headers :: "u8 list \<Rightarrow> ProgramHeader list option"
  PT_const :: "ElfSegmentType \<Rightarrow> u32"
  PF_R :: u32
  PF_W :: u32
  PF_X :: u32

section \<open>The types\<close>

record VirtualMapDestination =
  vstart :: VirtAddr
  vlen :: usize
  original_start :: u64

record ElfSegment =
  ty :: ElfSegmentType
  seg_align :: usize
  seg_flags :: PageTableFlags
  file_range :: "usize \<times> usize"
  addr :: VirtualMapDestination

record ElfFile =
  segments :: "ElfSegment list"
  entry_point :: VirtAddr

definition all_types :: "ElfSegmentType list" where
  "all_types = [Null, Load, Dynamic, Interp, Note, Shlib, Phdr, Tls, Loos, GnuEhFrame, GnuStack, GnuRelo,
     Hios, Loproc, Hiproc]"

definition ElfSegmentType_try_from :: "elf_api \<Rightarrow> u32 \<Rightarrow> ElfSegmentType option" where
  "ElfSegmentType_try_from E n = find (\<lambda>t. PT_const E t = n) all_types"

definition VirtualMapDestination_remap :: "(VirtAddr \<Rightarrow> VirtAddr outcome) \<Rightarrow> VirtualMapDestination
    \<Rightarrow> VirtualMapDestination outcome" where
  "VirtualMapDestination_remap f d = obind (f (vstart d)) (\<lambda>a. Ret (d\<lparr>vstart := a\<rparr>))"

fun remap_segments :: "(VirtAddr \<Rightarrow> VirtAddr outcome) \<Rightarrow> ElfSegment list \<Rightarrow> ElfSegment list outcome" where
  "remap_segments f [] = Ret []"
| "remap_segments f (s # ss) =
     obind (VirtualMapDestination_remap f (addr s)) (\<lambda>a.
     obind (remap_segments f ss) (\<lambda>ss. Ret (s\<lparr>addr := a\<rparr> # ss)))"

definition ElfFile_remap :: "(VirtAddr \<Rightarrow> VirtAddr outcome) \<Rightarrow> ElfFile \<Rightarrow> ElfFile outcome" where
  "ElfFile_remap f e =
     obind (f (entry_point e)) (\<lambda>ep.
     obind (remap_segments f (segments e)) (\<lambda>ss.
     Ret (e\<lparr>entry_point := ep, segments := ss\<rparr>)))"

definition pages :: "('pt, 's) paging \<Rightarrow> VirtualMapDestination \<Rightarrow> Page list outcome" where
  "pages X d =
     (let virtual_page_start = page_containing X (vstart d) in
      obind (va_add X (vstart d) (vlen d)) (\<lambda>e.
      let virtual_page_end = page_containing X e
      in Ret (page_range_inclusive X virtual_page_start virtual_page_end)))"

section \<open>Selecting the segments\<close>

definition parse_segment_flags :: "elf_api \<Rightarrow> ProgramHeader \<Rightarrow> PageTableFlags" where
  "parse_segment_flags E ph =
     (let bit_flags = p_flags ph;
          flags = {PRESENT};
          flags = (if bit_flags AND PF_R E \<noteq> 0 then flags \<union> {USER_ACCESSIBLE} else flags);
          flags = (if bit_flags AND PF_W E \<noteq> 0 then flags \<union> {WRITABLE} else flags);
          flags = (if bit_flags AND PF_X E = 0 then flags \<union> {NO_EXECUTE} else flags)
      in flags)"

fun parse_segments :: "bool \<Rightarrow> ('pt, 's) paging \<Rightarrow> elf_api \<Rightarrow> ProgramHeader list \<Rightarrow> ElfSegment list outcome" where
  "parse_segments oc X E [] = Ret []"
| "parse_segments oc X E (ph # phs) =
     (case ElfSegmentType_try_from E (p_type ph) of
        None \<Rightarrow> parse_segments oc X E phs
      | Some parsed_ty \<Rightarrow>
          if parsed_ty = Null \<or> p_memsz ph = 0 then parse_segments oc X E phs
          else
            obind (va_new X (p_vaddr ph)) (\<lambda>start.
            obind (add_chk oc (p_offset ph) (p_filesz ph)) (\<lambda>file_end.
            obind (parse_segments oc X E phs) (\<lambda>ss.
            Ret (\<lparr>ty = parsed_ty, seg_align = p_align ph, seg_flags = parse_segment_flags E ph,
              file_range = (p_offset ph, file_end),
              addr = \<lparr>vstart = start, vlen = p_memsz ph, original_start = p_vaddr ph\<rparr>\<rparr> # ss)))))"

section \<open>Relocation\<close>

definition LOAD_TEXT_SECTION_AT :: u64 where
  "LOAD_TEXT_SECTION_AT = 0x660000"

text \<open>The address of the last executable segment.\<close>

definition default_text_addr :: "ElfSegment list \<Rightarrow> u64 option" where
  "default_text_addr ss = fold (\<lambda>s d. if NO_EXECUTE \<notin> seg_flags s then Some (vstart (addr s)) else d) ss None"

text \<open>Arithmetic on \<^verbatim>\<open>i64\<close>: with overflow checks a result out of range panics, otherwise it wraps.\<close>

definition i64_fits :: "int \<Rightarrow> bool" where
  "i64_fits x \<longleftrightarrow> - (2 ^ 63) \<le> x \<and> x < 2 ^ 63"

definition i64_sub :: "bool \<Rightarrow> u64 \<Rightarrow> u64 \<Rightarrow> u64 outcome" where
  "i64_sub oc a b = (if oc \<and> \<not> i64_fits (sint a - sint b) then Panic else Ret (a - b))"

definition i64_add :: "bool \<Rightarrow> u64 \<Rightarrow> u64 \<Rightarrow> u64 outcome" where
  "i64_add oc a b = (if oc \<and> \<not> i64_fits (sint a + sint b) then Panic else Ret (a + b))"

section \<open>The pages to map\<close>

text \<open>
  \<^verbatim>\<open>BTreeMap<Page, PageTableFlags>\<close> as the list of its entries in key order. \<open>merge_flags\<close> is the
  closure of \<^verbatim>\<open>and_modify\<close>.
\<close>

definition merge_flags :: "PageTableFlags \<Rightarrow> PageTableFlags \<Rightarrow> PageTableFlags" where
  "merge_flags new current =
     (let current = current \<union> new in
      if NO_EXECUTE \<notin> current \<or> NO_EXECUTE \<notin> new then current - {NO_EXECUTE} else current)"

fun btree_entry :: "Page \<Rightarrow> PageTableFlags \<Rightarrow> (Page \<times> PageTableFlags) list \<Rightarrow> (Page \<times> PageTableFlags) list" where
  "btree_entry page new [] = [(page, new)]"
| "btree_entry page new ((q, current) # m) =
     (if page < q then (page, new) # (q, current) # m
      else if page = q then (q, merge_flags new current) # m
      else (q, current) # btree_entry page new m)"

fun pages_to_map :: "('pt, 's) paging \<Rightarrow> ElfSegment list \<Rightarrow> (Page \<times> PageTableFlags) list
    \<Rightarrow> (Page \<times> PageTableFlags) list outcome" where
  "pages_to_map X [] m = Ret m"
| "pages_to_map X (s # ss) m =
     obind (pages X (addr s)) (\<lambda>ps.
     pages_to_map X ss (fold (\<lambda>page. btree_entry page (seg_flags s)) ps m))"

section \<open>Copying and protecting\<close>

text \<open>\<^verbatim>\<open>&bytes[range]\<close> panics on a range that is not inside the slice.\<close>

definition slice_range :: "usize \<times> usize \<Rightarrow> u8 list \<Rightarrow> u8 list outcome" where
  "slice_range r bytes =
     (if unat (fst r) \<le> unat (snd r) \<and> unat (snd r) \<le> length bytes
      then Ret (take (unat (snd r) - unat (fst r)) (drop (unat (fst r)) bytes)) else Panic)"

fun vwrite_slice :: "('pt, 's) paging \<Rightarrow> VirtAddr \<Rightarrow> u8 list \<Rightarrow> 'pt vm \<Rightarrow> 'pt vm outcome" where
  "vwrite_slice X a [] m = Ret m"
| "vwrite_slice X a (b # bs) m = obind (vwrite X a b m) (vwrite_slice X (a + 1) bs)"

definition copy_segment :: "('pt, 's) paging \<Rightarrow> u8 list \<Rightarrow> ElfSegment \<Rightarrow> 'pt vm \<Rightarrow> 'pt vm outcome" where
  "copy_segment X bytes section m =
     (if ty section = Load
      then obind (slice_range (file_range section) bytes) (\<lambda>section_src.
           vwrite_slice X (vstart (addr section)) section_src m)
      else Ret m)"

definition protect_page :: "('pt, 's) paging \<Rightarrow> Page \<times> PageTableFlags \<Rightarrow> 'pt vm \<Rightarrow> 'pt vm outcome" where
  "protect_page X e m =
     (if WRITABLE \<notin> snd e
      then (case pt_update_flags X (fst e) (snd e) (page_tbl m) of
              (r, pt) \<Rightarrow> obind (unwrap_result r) (\<lambda>_. Ret (m\<lparr>page_tbl := pt\<rparr>)))
      else Ret m)"

section \<open>load\<close>

text \<open>The part before any page is mapped: parse, relocate, collect the pages.\<close>

definition load_plan :: "bool \<Rightarrow> ('pt, 's) paging \<Rightarrow> elf_api \<Rightarrow> u8 list
    \<Rightarrow> (ElfFile \<times> (Page \<times> PageTableFlags) list) outcome" where
  "load_plan oc X E bytes =
     obind (unwrap (parse_entry E bytes)) (\<lambda>e_entry.
     obind (unwrap (program_headers E bytes)) (\<lambda>phs.
     obind (parse_segments oc X E phs) (\<lambda>segs.
     obind (va_new X e_entry) (\<lambda>entry.
     let elf_file = \<lparr>segments = segs, entry_point = entry\<rparr> in
     obind (unwrap (default_text_addr segs)) (\<lambda>text_addr.
     obind (i64_sub oc LOAD_TEXT_SECTION_AT text_addr) (\<lambda>offset_to_apply.
     obind (ElfFile_remap (\<lambda>src. obind (i64_add oc src offset_to_apply) (va_new X)) elf_file) (\<lambda>elf_file.
     obind (pages_to_map X (segments elf_file) []) (\<lambda>ps.
     Ret (elf_file, ps)))))))))"

definition load :: "bool \<Rightarrow> ('s \<Rightarrow> (PhysFrame option \<times> 's) outcome) \<Rightarrow> ('pt, 's) paging \<Rightarrow> elf_api \<Rightarrow> u8 list
    \<Rightarrow> 'pt vm \<Rightarrow> 's \<Rightarrow> (ElfFile \<times> 'pt vm \<times> 's) outcome" where
  "load oc alloc X E bytes m fa =
     obind (load_plan oc X E bytes) (\<lambda>(elf_file, ps).
     obind (map_all alloc X (map (\<lambda>(page, original_flags). (page, original_flags \<union> {WRITABLE})) ps) (page_tbl m) fa) (\<lambda>(pt, fa).
     obind (for_each (copy_segment X bytes) (segments elf_file) (m\<lparr>page_tbl := pt\<rparr>)) (\<lambda>m.
     obind (for_each (protect_page X) ps m) (\<lambda>m.
     Ret (elf_file, m, fa)))))"

section \<open>The page map\<close>

lemma btree_entry_keys: "set (map fst (btree_entry p fl m)) = insert p (set (map fst m))"
  by (induction m rule: btree_entry.induct) auto

lemma btree_entry_sorted:
  "sorted_wrt (<) (map fst m) \<Longrightarrow> sorted_wrt (<) (map fst (btree_entry p fl m))"
proof (induction p fl m rule: btree_entry.induct)
  case (2 p new q current m)
  then show ?case using btree_entry_keys [of p new m] by (auto simp: not_less_iff_gr_or_eq)
qed simp

lemma btree_entry_lookup:
  assumes "sorted_wrt (<) (map fst m)"
  shows "map_of (btree_entry p fl m) =
    (map_of m)(p \<mapsto> (case map_of m p of None \<Rightarrow> fl | Some c \<Rightarrow> merge_flags fl c))"
  using assms
proof (induction p fl m rule: btree_entry.induct)
  case (2 p new q current m)
  have "map_of m p = None" if "p < q"
    using 2(2) that by (auto simp: map_of_eq_None_iff dest: order.strict_trans)
  with 2 show ?case by (auto simp: fun_eq_iff)
qed simp

text \<open>
  The flags of a page, from the flags of the segments that touch it, in order: the first is
  inserted, each following one merged in.
\<close>

definition combined :: "PageTableFlags list \<Rightarrow> PageTableFlags option" where
  "combined fls = (case fls of [] \<Rightarrow> None | fl # fls \<Rightarrow> Some (fold merge_flags fls fl))"

definition seg_pages :: "('pt, 's) paging \<Rightarrow> ElfSegment \<Rightarrow> Page set" where
  "seg_pages X s = (case pages X (addr s) of Ret ps \<Rightarrow> set ps | _ \<Rightarrow> {})"

definition flags_at :: "('pt, 's) paging \<Rightarrow> ElfSegment list \<Rightarrow> Page \<Rightarrow> PageTableFlags list" where
  "flags_at X ss p = map seg_flags (filter (\<lambda>s. p \<in> seg_pages X s) ss)"

lemma combined_snoc:
  "combined (fls @ [fl]) = Some (case combined fls of None \<Rightarrow> fl | Some c \<Rightarrow> merge_flags fl c)"
  by (cases fls) (simp_all add: combined_def)

lemma fold_btree_entry:
  assumes "sorted_wrt (<) (map fst m)" and "distinct ps"
  shows "sorted_wrt (<) (map fst (fold (\<lambda>p. btree_entry p fl) ps m)) \<and>
    map_of (fold (\<lambda>p. btree_entry p fl) ps m) p =
      (if p \<in> set ps then Some (case map_of m p of None \<Rightarrow> fl | Some c \<Rightarrow> merge_flags fl c) else map_of m p)"
  using assms
proof (induction ps arbitrary: m)
  case (Cons q ps)
  show ?case
    using Cons.IH [OF btree_entry_sorted [OF Cons.prems(1)], of q fl] Cons.prems
    by (auto simp: btree_entry_lookup)
qed simp

lemma pages_to_map_lookup:
  assumes "pages_to_map X ss m = Ret r" and "sorted_wrt (<) (map fst m)"
    and "\<forall>s \<in> set ss. \<forall>ps. pages X (addr s) = Ret ps \<longrightarrow> distinct ps"
    and "\<forall>p. map_of m p = combined (flags_at X done p)"
  shows "sorted_wrt (<) (map fst r) \<and> (\<forall>p. map_of r p = combined (flags_at X (done @ ss) p))"
  using assms
proof (induction ss arbitrary: m "done")
  case (Cons s ss)
  obtain ps where ps: "pages X (addr s) = Ret ps"
    "pages_to_map X ss (fold (\<lambda>p. btree_entry p (seg_flags s)) ps m) = Ret r"
    using Cons.prems(1) by (auto simp: outcome_simps)
  have d: "distinct ps" using Cons.prems(3) ps(1) by simp
  note f = fold_btree_entry [OF Cons.prems(2) d, of "seg_flags s"]
  have "\<forall>p. map_of (fold (\<lambda>p. btree_entry p (seg_flags s)) ps m) p = combined (flags_at X (done @ [s]) p)"
    using f Cons.prems(4) ps(1) by (auto simp: flags_at_def seg_pages_def combined_snoc)
  from Cons.IH [OF ps(2) _ _ this] f Cons.prems(3) show ?case by simp
qed simp

lemma merge_flags_mem:
  "NO_EXECUTE \<in> merge_flags new cur \<longleftrightarrow> NO_EXECUTE \<in> new"
  "f \<noteq> NO_EXECUTE \<Longrightarrow> f \<in> merge_flags new cur \<longleftrightarrow> f \<in> new \<or> f \<in> cur"
  by (auto simp: merge_flags_def Let_def)

lemma combined_mem:
  assumes "combined fls = Some fl"
  shows "NO_EXECUTE \<in> fl \<longleftrightarrow> NO_EXECUTE \<in> last fls"
    and "f \<noteq> NO_EXECUTE \<Longrightarrow> f \<in> fl \<longleftrightarrow> (\<exists>g \<in> set fls. f \<in> g)"
  using assms
proof (induction fls arbitrary: fl rule: rev_induct)
  case (snoc g fls)
  { case 1 then show ?case
      by (cases "combined fls") (auto simp: combined_snoc merge_flags_mem) }
  { case 2 then show ?case using snoc(2)
      by (cases "combined fls") (auto simp: combined_snoc merge_flags_mem, auto simp: combined_def split: list.splits) }
qed (simp_all add: combined_def)

section \<open>Segments of the lower half\<close>

text \<open>The segment, with the byte after it, lies in the lower half of the address space.\<close>

definition low_segment :: "ElfSegment \<Rightarrow> bool" where
  "low_segment s \<longleftrightarrow> unat (vstart (addr s)) + unat (vlen (addr s)) < 2 ^ 47"

lemma low_pages:
  assumes "addr_docs X" and "page_docs X" and "low_segment s"
  defines "a \<equiv> vstart (addr s)" and "b \<equiv> vstart (addr s) + vlen (addr s)"
  shows "pages X (addr s) = Ret (pages_from (align_down_4k a)
      (Suc ((unat (align_down_4k b) - unat (align_down_4k a)) div 4096)))"
    and "unat b = unat a + unat (vlen (addr s))"
proof -
  have h: "unat a + unat (vlen (addr s)) < 140737488355328"
    using assms(3) by (simp add: low_segment_def a_def)
  then show u: "unat b = unat a + unat (vlen (addr s))"
    unfolding b_def a_def using unat_add_fits [of "vstart (addr s)" "vlen (addr s)"] by simp
  have c: "canonical a" "canonical b" unfolding canonical_def u using h by simp_all
  have "va_add X a (vlen (addr s)) = Ret b"
    using assms(1) c h unfolding a_def b_def by (simp add: addr_docs_def)
  moreover have "page_range_inclusive X (align_down_4k a) (align_down_4k b) =
      pages_from (align_down_4k a) (Suc ((unat (align_down_4k b) - unat (align_down_4k a)) div 4096))"
  proof -
    have half: "unat (align_down_4k a) < 2 ^ 47 \<longleftrightarrow> unat (align_down_4k b) < 2 ^ 47"
      unfolding align_down_low using u h by simp
    have "unat (align_down_4k a) \<le> unat (align_down_4k b)"
      using u by (simp add: unat_align_down div_le_mono)
    moreover have "page_range_inclusive X p q = (if unat p \<le> unat q then pages_from p (Suc ((unat q - unat p) div 4096)) else [])"
      if "4096 dvd unat p" "4096 dvd unat q" "unat p < 2 ^ 47 \<longleftrightarrow> unat q < 2 ^ 47" for p q
      using assms(2) that unfolding page_docs_def by blast
    ultimately show ?thesis using half by simp
  qed
  ultimately show "pages X (addr s) = Ret (pages_from (align_down_4k a)
      (Suc ((unat (align_down_4k b) - unat (align_down_4k a)) div 4096)))"
    using assms(2) by (simp add: pages_def page_docs_def a_def [symmetric])
qed

lemma low_pages_bound:
  assumes "unat b < 2 ^ 47" and "unat a \<le> unat b"
  shows "unat (align_down_4k a) + 4096 * Suc ((unat (align_down_4k b) - unat (align_down_4k a)) div 4096) \<le> 2 ^ 64"
proof -
  let ?a = "unat (align_down_4k a)" and ?b = "unat (align_down_4k b)"
  have "?a \<le> ?b" using assms(2) by (simp add: unat_align_down div_le_mono)
  moreover have "?b \<le> unat b" by (rule align_down_le)
  moreover have "4096 * ((?b - ?a) div 4096) \<le> ?b - ?a" by simp
  moreover have "unat b < 140737488355328" using assms(1) by simp
  ultimately show ?thesis by (simp add: algebra_simps)
qed

lemma low_seg_pages:
  assumes "addr_docs X" and "page_docs X" and "low_segment s"
  shows "\<And>ps. pages X (addr s) = Ret ps \<Longrightarrow> distinct ps"
    and "\<And>p. p \<in> seg_pages X s \<Longrightarrow> 4096 dvd unat p"
    and "\<And>x. unat (x - vstart (addr s)) < unat (vlen (addr s)) \<Longrightarrow> align_down_4k x \<in> seg_pages X s"
proof -
  let ?a = "vstart (addr s)" and ?b = "vstart (addr s) + vlen (addr s)"
  let ?n = "Suc ((unat (align_down_4k ?b) - unat (align_down_4k ?a)) div 4096)"
  note pg = low_pages [OF assms]
  have "unat ?b < 2 ^ 47" unfolding pg(2) using assms(3) by (simp add: low_segment_def)
  then have fit: "unat (align_down_4k ?a) + 4096 * ?n \<le> 2 ^ 64"
    by (rule low_pages_bound) (simp add: pg(2))
  show "distinct ps" if "pages X (addr s) = Ret ps" for ps
    using that distinct_pages_from [OF fit] unfolding pg(1) by simp
  show "4096 dvd unat p" if "p \<in> seg_pages X s" for p
    using that unat_in_pages_from(3) [OF _ fit] by (simp add: seg_pages_def pg(1))
  show "align_down_4k x \<in> seg_pages X s" if x: "unat (x - ?a) < unat (vlen (addr s))" for x
  proof -
    have "unat ?a + unat (x - ?a) < 2 ^ 64"
      using x assms(3) unat_u64 [of ?b] unfolding pg(2) by linarith
    then have "unat x = unat ?a + unat (x - ?a)" using unat_add_fits [of ?a "x - ?a"] by simp
    then show ?thesis using page_between [of ?a x ?b] x unfolding pg(2) by (simp add: seg_pages_def pg(1))
  qed
qed

section \<open>Memory seen through a set of mapped pages\<close>

text \<open>The physical address behind a virtual one when page \<open>p\<close> is mapped to the frame \<open>F p\<close>.\<close>

definition pa :: "(Page \<Rightarrow> PhysFrame) \<Rightarrow> VirtAddr \<Rightarrow> PhysAddr" where
  "pa F a = F (align_down_4k a) + (a - align_down_4k a)"

definition writable_view :: "('pt, 's) paging \<Rightarrow> 'pt \<Rightarrow> Page set \<Rightarrow> (Page \<Rightarrow> PhysFrame) \<Rightarrow> bool" where
  "writable_view X pt P F \<longleftrightarrow> inj_on F P \<and> (\<forall>p \<in> P. 4096 dvd unat (F p)) \<and>
     (\<forall>a. align_down_4k a \<in> P \<longrightarrow> (\<exists>fl. WRITABLE \<in> fl \<and>
        pt_translate X pt a = Mapped (F (align_down_4k a)) (a - align_down_4k a) fl))"

lemma page_offset: "unat (a - align_down_4k a) = unat a mod 4096"
  using unat_sub_fits [of "align_down_4k a" a] align_down_le [of a]
  by (simp add: unat_align_down minus_div_mult_eq_mod)

lemma pa_unat:
  assumes "4096 dvd unat (F (align_down_4k a))"
  shows "unat (pa F a) = unat (F (align_down_4k a)) + unat a mod 4096"
proof -
  obtain k where k: "unat (F (align_down_4k a)) = 4096 * k" using assms by blast
  then have "4096 * k < 4096 * 2 ^ 52" using unat_u64 [of "F (align_down_4k a)"] by simp
  then have "4096 * k + 4096 \<le> 2 ^ 64" by simp
  moreover have "unat a mod 4096 < 4096" by simp
  ultimately have "unat (F (align_down_4k a)) + unat (a - align_down_4k a) < 2 ^ 64"
    unfolding k page_offset by linarith
  then show ?thesis
    unfolding pa_def using unat_add_fits [of "F (align_down_4k a)" "a - align_down_4k a"] by (simp add: page_offset)
qed

lemma pa_inj:
  assumes "inj_on F P" and "\<forall>p \<in> P. 4096 dvd unat (F p)"
    and "align_down_4k a \<in> P" and "align_down_4k b \<in> P" and "pa F a = pa F b"
  shows "a = b"
proof -
  obtain i j where ij: "unat (F (align_down_4k a)) = 4096 * i" "unat (F (align_down_4k b)) = 4096 * j"
    using assms(2-4) by (metis dvdE)
  have eq: "4096 * i + unat a mod 4096 = 4096 * j + unat b mod 4096"
    using assms(2-5) pa_unat [of F a] pa_unat [of F b] unfolding ij by simp
  have "(4096 * i + unat a mod 4096) mod 4096 = unat a mod 4096" "(4096 * j + unat b mod 4096) mod 4096 = unat b mod 4096"
    by simp_all
  with eq have m: "unat a mod 4096 = unat b mod 4096" by simp
  with eq have "F (align_down_4k a) = F (align_down_4k b)" using ij by (simp add: word_unat_eq_iff)
  then have "align_down_4k a = align_down_4k b" using assms(1,3,4) by (simp add: inj_on_eq_iff)
  then have "unat a div 4096 = unat b div 4096" using unat_align_down [of a] unat_align_down [of b] by simp
  with m have "unat a = unat b" by (metis div_mult_mod_eq)
  then show ?thesis by (simp add: word_unat_eq_iff)
qed

lemma vwrite_view:
  assumes "writable_view X (page_tbl m) P F" and "align_down_4k a \<in> P"
  shows "vwrite X a v m = Ret (m\<lparr>phys := (phys m)(pa F a := v)\<rparr>)"
  using assms by (auto simp: writable_view_def vwrite_def pa_def)

lemma vwrite_slice_view:
  assumes "writable_view X (page_tbl m) P F" and "length bs \<le> 2 ^ 64"
    and "\<forall>x. unat (x - a) < length bs \<longrightarrow> align_down_4k x \<in> P"
  shows "\<exists>ph. vwrite_slice X a bs m = Ret (m\<lparr>phys := ph\<rparr>) \<and>
    (\<forall>x. align_down_4k x \<in> P \<longrightarrow>
       ph (pa F x) = (if unat (x - a) < length bs then bs ! unat (x - a) else phys m (pa F x))) \<and>
    (\<forall>y. (\<forall>x. align_down_4k x \<in> P \<longrightarrow> y \<noteq> pa F x) \<longrightarrow> ph y = phys m y)"
  using assms
proof (induction bs arbitrary: a m)
  case Nil
  show ?case by (intro exI [of _ "phys m"]) simp
next
  case (Cons b bs)
  let ?m = "m\<lparr>phys := (phys m)(pa F a := b)\<rparr>"
  have v: "inj_on F P" "\<forall>p \<in> P. 4096 dvd unat (F p)" using Cons.prems(1) by (simp_all add: writable_view_def)
  have a: "align_down_4k a \<in> P" using Cons.prems(3) [rule_format, of a] by simp
  have one: "unat (x - a) = Suc (unat (x - (a + 1)))" if "x \<noteq> a" for x
  proof -
    have "x - a \<noteq> 0" using that by simp
    then have "1 \<le> unat (x - a)" by (simp add: Suc_le_eq unat_gt_0)
    moreover from this have "unat (x - a - 1) = unat (x - a) - 1" using unat_sub_fits [of 1 "x - a"] by simp
    ultimately show ?thesis by (simp add: diff_diff_eq)
  qed
  have "unat (- 1 :: u64) = 18446744073709551615" by (simp add: unsigned_minus_1_eq_mask mask_eq_exp_minus_1)
  then have last: "\<not> unat (a - (a + 1)) < length bs" using Cons.prems(2) by simp
  have "\<forall>x. unat (x - (a + 1)) < length bs \<longrightarrow> align_down_4k x \<in> P"
    using Cons.prems(3) one last by (metis Suc_less_eq length_Cons)
  then obtain ph where ph: "vwrite_slice X (a + 1) bs ?m = Ret (?m\<lparr>phys := ph\<rparr>)"
      "\<forall>x. align_down_4k x \<in> P \<longrightarrow> ph (pa F x) =
        (if unat (x - (a + 1)) < length bs then bs ! unat (x - (a + 1)) else phys ?m (pa F x))"
      "\<forall>y. (\<forall>x. align_down_4k x \<in> P \<longrightarrow> y \<noteq> pa F x) \<longrightarrow> ph y = phys ?m y"
    using Cons.IH [of ?m "a + 1"] Cons.prems(1,2) by auto
  have "ph (pa F x) = (if unat (x - a) < length (b # bs) then (b # bs) ! unat (x - a) else phys m (pa F x))"
    if "align_down_4k x \<in> P" for x
  proof (cases "x = a")
    case True
    then show ?thesis using ph(2) a last by simp
  next
    case False
    then have "pa F x \<noteq> pa F a" using pa_inj [OF v that a] by blast
    then show ?thesis using ph(2) that one [OF False] by simp
  qed
  moreover have "ph y = phys m y" if "\<forall>x. align_down_4k x \<in> P \<longrightarrow> y \<noteq> pa F x" for y
    using ph(3) that a by auto
  ultimately show ?case using vwrite_view [OF Cons.prems(1) a] ph(1) by (intro exI [of _ ph]) simp
qed

section \<open>The copied image\<close>

text \<open>The byte of the file that segment \<open>s\<close> puts at address \<open>x\<close>, and the one that stays there after
  all segments were copied in order.\<close>

definition seg_byte :: "u8 list \<Rightarrow> ElfSegment \<Rightarrow> VirtAddr \<Rightarrow> u8 option" where
  "seg_byte bytes s x =
     (if ty s = Load \<and> unat (x - vstart (addr s)) < unat (snd (file_range s)) - unat (fst (file_range s))
      then Some (bytes ! (unat (fst (file_range s)) + unat (x - vstart (addr s)))) else None)"

fun image_byte :: "u8 list \<Rightarrow> ElfSegment list \<Rightarrow> VirtAddr \<Rightarrow> u8 option" where
  "image_byte bytes [] x = None"
| "image_byte bytes (s # ss) x = (case image_byte bytes ss x of Some b \<Rightarrow> Some b | None \<Rightarrow> seg_byte bytes s x)"

text \<open>A loadable segment whose file range is inside the file and not longer than the segment.\<close>

definition seg_file_ok :: "u8 list \<Rightarrow> ElfSegment \<Rightarrow> bool" where
  "seg_file_ok bytes s \<longleftrightarrow> ty s = Load \<longrightarrow>
     unat (fst (file_range s)) \<le> unat (snd (file_range s)) \<and> unat (snd (file_range s)) \<le> length bytes \<and>
     unat (snd (file_range s)) - unat (fst (file_range s)) \<le> unat (vlen (addr s))"

lemma copy_segment_view:
  assumes "writable_view X (page_tbl m) P F" and "seg_file_ok bytes s"
    and "\<forall>x. unat (x - vstart (addr s)) < unat (vlen (addr s)) \<longrightarrow> align_down_4k x \<in> P"
  shows "\<exists>ph. copy_segment X bytes s m = Ret (m\<lparr>phys := ph\<rparr>) \<and>
    (\<forall>x. align_down_4k x \<in> P \<longrightarrow>
       ph (pa F x) = (case seg_byte bytes s x of Some b \<Rightarrow> b | None \<Rightarrow> phys m (pa F x))) \<and>
    (\<forall>y. (\<forall>x. align_down_4k x \<in> P \<longrightarrow> y \<noteq> pa F x) \<longrightarrow> ph y = phys m y)"
proof (cases "ty s = Load")
  case False
  then show ?thesis by (intro exI [of _ "phys m"]) (simp add: copy_segment_def seg_byte_def)
next
  case True
  let ?lo = "unat (fst (file_range s))" and ?hi = "unat (snd (file_range s))"
  let ?bs = "take (?hi - ?lo) (drop ?lo bytes)"
  have r: "?lo \<le> ?hi" "?hi \<le> length bytes" "?hi - ?lo \<le> unat (vlen (addr s))"
    using assms(2) True by (simp_all add: seg_file_ok_def)
  have len: "length ?bs = ?hi - ?lo" using r(2) by simp
  have "?hi - ?lo \<le> 2 ^ 64" using unat_u64 [of "snd (file_range s)"] by linarith
  moreover have "\<forall>x. unat (x - vstart (addr s)) < length ?bs \<longrightarrow> align_down_4k x \<in> P"
    using assms(3) r(3) unfolding len by (meson less_le_trans)
  ultimately obtain ph where ph: "vwrite_slice X (vstart (addr s)) ?bs m = Ret (m\<lparr>phys := ph\<rparr>)"
      "\<forall>x. align_down_4k x \<in> P \<longrightarrow> ph (pa F x) = (if unat (x - vstart (addr s)) < length ?bs
         then ?bs ! unat (x - vstart (addr s)) else phys m (pa F x))"
      "\<forall>y. (\<forall>x. align_down_4k x \<in> P \<longrightarrow> y \<noteq> pa F x) \<longrightarrow> ph y = phys m y"
    using vwrite_slice_view [OF assms(1), of ?bs "vstart (addr s)"] unfolding len by blast
  have "copy_segment X bytes s m = Ret (m\<lparr>phys := ph\<rparr>)"
    using True r(1,2) ph(1) by (simp add: copy_segment_def slice_range_def)
  moreover have "ph (pa F x) = (case seg_byte bytes s x of Some b \<Rightarrow> b | None \<Rightarrow> phys m (pa F x))"
    if "align_down_4k x \<in> P" for x
    using ph(2) [rule_format, OF that] True r(1,2) unfolding len by (simp add: seg_byte_def nth_take)
  ultimately show ?thesis using ph(3) by blast
qed

lemma copy_all_view:
  assumes "writable_view X (page_tbl m) P F" and "\<forall>s \<in> set ss. seg_file_ok bytes s"
    and "\<forall>s \<in> set ss. \<forall>x. unat (x - vstart (addr s)) < unat (vlen (addr s)) \<longrightarrow> align_down_4k x \<in> P"
  shows "\<exists>ph. for_each (copy_segment X bytes) ss m = Ret (m\<lparr>phys := ph\<rparr>) \<and>
    (\<forall>x. align_down_4k x \<in> P \<longrightarrow>
       ph (pa F x) = (case image_byte bytes ss x of Some b \<Rightarrow> b | None \<Rightarrow> phys m (pa F x))) \<and>
    (\<forall>y. (\<forall>x. align_down_4k x \<in> P \<longrightarrow> y \<noteq> pa F x) \<longrightarrow> ph y = phys m y)"
  using assms
proof (induction ss arbitrary: m)
  case Nil
  show ?case by (intro exI [of _ "phys m"]) simp
next
  case (Cons s ss)
  have sf: "seg_file_ok bytes s" "\<forall>x. unat (x - vstart (addr s)) < unat (vlen (addr s)) \<longrightarrow> align_down_4k x \<in> P"
    using Cons.prems(2,3) by auto
  from copy_segment_view [OF Cons.prems(1) this]
  obtain p1 where p1: "copy_segment X bytes s m = Ret (m\<lparr>phys := p1\<rparr>)"
      "\<forall>x. align_down_4k x \<in> P \<longrightarrow> p1 (pa F x) = (case seg_byte bytes s x of Some b \<Rightarrow> b | None \<Rightarrow> phys m (pa F x))"
      "\<forall>y. (\<forall>x. align_down_4k x \<in> P \<longrightarrow> y \<noteq> pa F x) \<longrightarrow> p1 y = phys m y" by blast
  obtain p2 where p2: "for_each (copy_segment X bytes) ss (m\<lparr>phys := p1\<rparr>) = Ret (m\<lparr>phys := p2\<rparr>)"
      "\<forall>x. align_down_4k x \<in> P \<longrightarrow> p2 (pa F x) = (case image_byte bytes ss x of Some b \<Rightarrow> b | None \<Rightarrow> p1 (pa F x))"
      "\<forall>y. (\<forall>x. align_down_4k x \<in> P \<longrightarrow> y \<noteq> pa F x) \<longrightarrow> p2 y = p1 y"
    using Cons.IH [of "m\<lparr>phys := p1\<rparr>"] Cons.prems by (auto cong: option.case_cong)
  show ?case using p1 p2 by (intro exI [of _ p2]) (auto split: option.splits)
qed

section \<open>Taking the write permission back\<close>

lemma protect_all:
  assumes "mapper_docs X good pending" and "page_docs X" and "distinct (map fst es)"
    and "\<forall>e \<in> set es. align_down_4k (fst e) = fst e \<and> (\<exists>f fl. pt_translate X (page_tbl m) (fst e) = Mapped f 0 fl)"
  shows "\<exists>pt. for_each (protect_page X) es m = Ret (m\<lparr>page_tbl := pt\<rparr>) \<and>
    (\<forall>a. pt_translate X pt a = (case pt_translate X (page_tbl m) a of
       Mapped f off fl \<Rightarrow> Mapped f off (case map_of es (align_down_4k a) of
         Some fl' \<Rightarrow> if WRITABLE \<in> fl' then fl else fl' | None \<Rightarrow> fl)
     | r \<Rightarrow> r))"
  using assms(3,4)
proof (induction es arbitrary: m)
  case Nil
  show ?case by (intro exI [of _ "page_tbl m"]) (simp split: TranslateResult.splits)
next
  case (Cons e es)
  obtain p fl where e: "e = (p, fl)" by (cases e)
  let ?tr = "pt_translate X (page_tbl m)"
  have fresh: "map_of es p = None" using Cons.prems(1) e by (simp add: map_of_eq_None_iff)
  obtain pt1 where pt1: "protect_page X e m = Ret (m\<lparr>page_tbl := pt1\<rparr>)"
    "\<forall>a. pt_translate X pt1 a = (case ?tr a of
       Mapped f off g \<Rightarrow> Mapped f off (if align_down_4k a = p \<and> WRITABLE \<notin> fl then fl else g) | r \<Rightarrow> r)"
  proof (cases "WRITABLE \<in> fl")
    case True
    then show ?thesis using that [of "page_tbl m"] by (simp add: protect_page_def e split: TranslateResult.splits)
  next
    case False
    obtain f g where "?tr p = Mapped f 0 g" using Cons.prems(2) e by auto
    then obtain pt1 where "pt_update_flags X p fl (page_tbl m) = (Inr (), pt1)"
      "\<forall>a. pt_translate X pt1 a = (case ?tr a of
         Mapped g o' fl' \<Rightarrow> if page_containing X a = p then Mapped g o' fl else Mapped g o' fl' | r \<Rightarrow> r)"
      using assms(1) unfolding mapper_docs_def by blast
    then show ?thesis using that [of pt1] False assms(2)
      by (simp add: protect_page_def e page_docs_def split: TranslateResult.splits)
  qed
  have "\<forall>q \<in> set es. align_down_4k (fst q) = fst q \<and>
      (\<exists>f g. pt_translate X (page_tbl (m\<lparr>page_tbl := pt1\<rparr>)) (fst q) = Mapped f 0 g)"
  proof
    fix q assume "q \<in> set es"
    then obtain f g where "align_down_4k (fst q) = fst q" "?tr (fst q) = Mapped f 0 g" using Cons.prems(2) by auto
    then show "align_down_4k (fst q) = fst q \<and>
      (\<exists>f g. pt_translate X (page_tbl (m\<lparr>page_tbl := pt1\<rparr>)) (fst q) = Mapped f 0 g)"
      using pt1(2) by simp
  qed
  then obtain pt where pt: "for_each (protect_page X) es (m\<lparr>page_tbl := pt1\<rparr>) = Ret (m\<lparr>page_tbl := pt\<rparr>)"
      "\<forall>a. pt_translate X pt a = (case pt_translate X pt1 a of
         Mapped f off g \<Rightarrow> Mapped f off (case map_of es (align_down_4k a) of
           Some fl' \<Rightarrow> if WRITABLE \<in> fl' then g else fl' | None \<Rightarrow> g)
       | r \<Rightarrow> r)"
    using Cons.IH [of "m\<lparr>page_tbl := pt1\<rparr>"] Cons.prems(1) by (auto cong: TranslateResult.case_cong)
  have "pt_translate X pt a = (case ?tr a of
       Mapped f off g \<Rightarrow> Mapped f off (case map_of (e # es) (align_down_4k a) of
         Some fl' \<Rightarrow> if WRITABLE \<in> fl' then g else fl' | None \<Rightarrow> g)
     | r \<Rightarrow> r)" for a
    using pt(2) [rule_format, of a] pt1(2) [rule_format, of a] fresh e
    by (cases "?tr a") auto
  then show ?case using pt1(1) pt(1) by (intro exI [of _ pt]) simp
qed

section \<open>The whole of load\<close>

lemma load_plan_pages:
  "load_plan oc X E bytes = Ret (elf, ps) \<Longrightarrow> pages_to_map X (segments elf) [] = Ret ps"
  by (auto simp: load_plan_def outcome_simps Let_def)

lemma plan_lookup:
  assumes "addr_docs X" and "page_docs X" and "pages_to_map X ss [] = Ret ps" and "\<forall>s \<in> set ss. low_segment s"
  shows "distinct (map fst ps)" and "map_of ps p = combined (flags_at X ss p)"
    and "p \<in> fst ` set ps \<longleftrightarrow> (\<exists>s \<in> set ss. p \<in> seg_pages X s)"
    and "p \<in> fst ` set ps \<Longrightarrow> 4096 dvd unat p"
proof -
  have l: "sorted_wrt (<) (map fst ps) \<and> (\<forall>p. map_of ps p = combined (flags_at X ([] @ ss) p))"
    using low_seg_pages(1) [OF assms(1,2)] assms(3,4)
    by (intro pages_to_map_lookup) (auto simp: flags_at_def combined_def)
  then show "distinct (map fst ps)" by (simp add: strict_sorted_iff)
  show m: "map_of ps p = combined (flags_at X ss p)" using l by simp
  have "p \<in> fst ` set ps \<longleftrightarrow> map_of ps p \<noteq> None" by (simp add: map_of_eq_None_iff)
  also have "\<dots> \<longleftrightarrow> flags_at X ss p \<noteq> []" unfolding m by (auto simp: combined_def split: list.splits)
  also have "\<dots> \<longleftrightarrow> (\<exists>s \<in> set ss. p \<in> seg_pages X s)" by (auto simp: flags_at_def filter_empty_conv)
  finally show k: "p \<in> fst ` set ps \<longleftrightarrow> (\<exists>s \<in> set ss. p \<in> seg_pages X s)" .
  show "4096 dvd unat p" if "p \<in> fst ` set ps"
    using that k low_seg_pages(2) [OF assms(1,2)] assms(4) by blast
qed

text \<open>Every byte the file provides is on a page of the plan.\<close>

lemma image_byte_in: "image_byte bytes ss a = Some b \<Longrightarrow> \<exists>s \<in> set ss. seg_byte bytes s a = Some b"
  by (induction ss) (auto split: option.splits)

lemma image_byte_page:
  assumes "addr_docs X" and "page_docs X" and "load_plan oc X E bytes = Ret (elf, ps)"
    and "\<forall>s \<in> set (segments elf). low_segment s \<and> seg_file_ok bytes s" and "image_byte bytes (segments elf) a = Some b"
  shows "align_down_4k a \<in> fst ` set ps"
proof -
  obtain s where s: "s \<in> set (segments elf)" "seg_byte bytes s a = Some b" using image_byte_in [OF assms(5)] by blast
  then have "unat (a - vstart (addr s)) < unat (vlen (addr s))"
    using assms(4) by (auto simp: seg_byte_def seg_file_ok_def split: if_splits dest: bspec)
  then have "align_down_4k a \<in> seg_pages X s" using low_seg_pages(3) [OF assms(1,2)] assms(4) s(1) by blast
  then show ?thesis using plan_lookup(3) [OF assms(1,2) load_plan_pages [OF assms(3)]] assms(4) s(1) by blast
qed

lemma fa_pending_aligned:
  assumes "page_docs X" and "f \<in> set (fa_pending X fa)" shows "4096 dvd unat f"
  using assms by (auto simp: fa_pending_def frame_at_def page_docs_def split: outcome.splits dest!: in_set_dropD)

abbreviation with_write :: "(Page \<times> PageTableFlags) list \<Rightarrow> (Page \<times> PageTableFlags) list" where
  "with_write ps \<equiv> map (\<lambda>(page, original_flags). (page, original_flags \<union> {WRITABLE})) ps"

lemma with_write_mapping:
  assumes "distinct (map fst ps)" and "length fs = length ps" and "map_of ps p = Some fl"
  shows "\<exists>f \<in> set fs. mapping_of (with_write ps) fs p = Some (f, fl \<union> {WRITABLE})"
proof -
  have "p \<in> fst ` set (with_write ps)" using map_of_SomeD [OF assms(3)] by force
  then have "p \<in> dom (mapping_of (with_write ps) fs)" using dom_mapping_of [of fs "with_write ps"] assms(2) by simp
  then obtain f g where m: "mapping_of (with_write ps) fs p = Some (f, g)" by auto
  then have "f \<in> set fs" "(p, g) \<in> set (with_write ps)" using mapping_of_Some [OF m] by auto
  moreover from this(2) obtain fl' where "g = fl' \<union> {WRITABLE}" "(p, fl') \<in> set ps" by auto
  moreover from this(2) have "fl' = fl" using assms(1,3) by (simp add: map_of_eq_Some_iff)
  ultimately show ?thesis using m by simp
qed

text \<open>What the mapping loop of \<open>load\<close> leaves: every page of the plan on a frame of its own.\<close>

lemma load_mapped:
  assumes docs: "page_docs X" "mapper_docs X (fa_good X) (fa_pending X)"
    and ps: "distinct (map fst ps)" "\<forall>p \<in> fst ` set ps. 4096 dvd unat p \<and> \<not> is_mapped X pt p"
    and fa: "fa_good X fa" "4 * length ps \<le> length (fa_pending X fa)" "distinct (fa_pending X fa)"
  shows "\<exists>pt' fa' F. map_all (allocate_frame oc X) X (with_write ps) pt fa = Ret (pt', fa') \<and> fa_good X fa' \<and>
    writable_view X pt' (fst ` set ps) F \<and> F ` fst ` set ps \<subseteq> set (fa_pending X fa) \<and>
    (\<forall>a. pt_translate X pt' a = (case map_of ps (align_down_4k a) of
       Some fl \<Rightarrow> Mapped (F (align_down_4k a)) (a - align_down_4k a) (fl \<union> {WRITABLE})
     | None \<Rightarrow> pt_translate X pt a))"
proof -
  have k: "map fst (with_write ps) = map fst ps" by (simp add: case_prod_unfold comp_def)
  have u: "\<forall>(page, flags) \<in> set (with_write ps). 4096 dvd unat page \<and> \<not> is_mapped X pt page" using ps(2) by force
  have l: "4 * length (with_write ps) \<le> length (fa_pending X fa)" using fa(2) by simp
  have d: "distinct (map fst (with_write ps))" unfolding k by (rule ps(1))
  obtain pt' fa' fs n where r: "map_all (allocate_frame oc X) X (with_write ps) pt fa = Ret (pt', fa')"
      "fa_good X fa'" "length fs = length (with_write ps)" "set fs \<subseteq> set (take n (fa_pending X fa))" "distinct fs"
      "mapped_as X pt pt' (mapping_of (with_write ps) fs)"
    using boot_frames.map_all_ok [OF docs(2,1) fa(1) l d u, of oc] fa(3) by blast
  have len: "length fs = length ps" using r(3) by simp
  define F where "F p = fst (the (mapping_of (with_write ps) fs p))" for p
  have F: "F p \<in> set fs \<and> mapping_of (with_write ps) fs p = Some (F p, fl \<union> {WRITABLE})" if "map_of ps p = Some fl" for p fl
    using with_write_mapping [OF ps(1) len that] unfolding F_def by auto
  have N: "mapping_of (with_write ps) fs p = None" if "map_of ps p = None" for p
    using that dom_mapping_of [of fs "with_write ps"] r(3)
    by (force simp: map_of_eq_None_iff dom_def)
  have tr: "pt_translate X pt' a = (case map_of ps (align_down_4k a) of
       Some fl \<Rightarrow> Mapped (F (align_down_4k a)) (a - align_down_4k a) (fl \<union> {WRITABLE})
     | None \<Rightarrow> pt_translate X pt a)" for a
    using r(6) docs(1) F N by (auto simp: mapped_as_def page_docs_def split: option.splits)
  have S: "\<exists>fl. map_of ps p = Some fl" if "p \<in> fst ` set ps" for p
    using that by (metis map_of_eq_None_iff option.exhaust)
  have fr: "F ` fst ` set ps \<subseteq> set fs" using F S by blast
  have "inj_on F (fst ` set ps)"
    by (rule inj_onI) (metis F S mapping_of_inj [OF r(5)])
  moreover have "4096 dvd unat (F p)" if "p \<in> fst ` set ps" for p
    using that fr r(4) fa_pending_aligned [OF docs(1)] by (blast dest: in_set_takeD)
  moreover have "\<exists>fl. WRITABLE \<in> fl \<and> pt_translate X pt' a = Mapped (F (align_down_4k a)) (a - align_down_4k a) fl"
    if "align_down_4k a \<in> fst ` set ps" for a
    using tr [of a] S [OF that] by auto
  ultimately have "writable_view X pt' (fst ` set ps) F" by (simp add: writable_view_def)
  moreover have "F ` fst ` set ps \<subseteq> set (fa_pending X fa)" using fr r(4) by (blast dest: in_set_takeD)
  ultimately show ?thesis using r(1,2) tr by blast
qed

lemma load_ok:
  assumes docs: "addr_docs X" "page_docs X" "mapper_docs X (fa_good X) (fa_pending X)"
    and plan: "load_plan oc X E bytes = Ret (elf, ps)"
    and segs: "\<forall>s \<in> set (segments elf). low_segment s \<and> seg_file_ok bytes s"
    and unmapped: "\<forall>p \<in> fst ` set ps. \<not> is_mapped X (page_tbl m) p"
    and fa: "fa_good X fa" "4 * length ps \<le> length (fa_pending X fa)" "distinct (fa_pending X fa)"
  shows "\<exists>m' fa' F. load oc (allocate_frame oc X) X E bytes m fa = Ret (elf, m', fa') \<and> fa_good X fa' \<and>
    inj_on F (fst ` set ps) \<and> F ` fst ` set ps \<subseteq> set (fa_pending X fa) \<and>
    (\<forall>a. pt_translate X (page_tbl m') a = (case map_of ps (align_down_4k a) of
       Some fl \<Rightarrow> Mapped (F (align_down_4k a)) (a - align_down_4k a) fl
     | None \<Rightarrow> pt_translate X (page_tbl m) a)) \<and>
    (\<forall>x. align_down_4k x \<in> fst ` set ps \<longrightarrow> phys m' (pa F x) =
       (case image_byte bytes (segments elf) x of Some b \<Rightarrow> b | None \<Rightarrow> phys m (pa F x))) \<and>
    (\<forall>y. (\<forall>x. align_down_4k x \<in> fst ` set ps \<longrightarrow> y \<noteq> pa F x) \<longrightarrow> phys m' y = phys m y)"
proof -
  let ?P = "fst ` set ps"
  have low: "\<forall>s \<in> set (segments elf). low_segment s" using segs by blast
  note look = plan_lookup [OF docs(1,2) load_plan_pages [OF plan] low]
  have al: "\<forall>p \<in> ?P. 4096 dvd unat p \<and> \<not> is_mapped X (page_tbl m) p" using look(4) unmapped by blast
  from load_mapped [OF docs(2,3) look(1) al fa, of oc]
  obtain pt1 fa1 F where r: "map_all (allocate_frame oc X) X (with_write ps) (page_tbl m) fa = Ret (pt1, fa1)" "fa_good X fa1"
      and w: "writable_view X pt1 ?P F" and fr: "F ` ?P \<subseteq> set (fa_pending X fa)"
      and tr: "\<forall>a. pt_translate X pt1 a = (case map_of ps (align_down_4k a) of
         Some fl \<Rightarrow> Mapped (F (align_down_4k a)) (a - align_down_4k a) (fl \<union> {WRITABLE})
       | None \<Rightarrow> pt_translate X (page_tbl m) a)" by blast
  have "\<forall>s \<in> set (segments elf). \<forall>x. unat (x - vstart (addr s)) < unat (vlen (addr s)) \<longrightarrow> align_down_4k x \<in> ?P"
    using low low_seg_pages(3) [OF docs(1,2)] look(3) by blast
  then obtain ph where ph: "for_each (copy_segment X bytes) (segments elf) (m\<lparr>page_tbl := pt1\<rparr>) = Ret (m\<lparr>page_tbl := pt1, phys := ph\<rparr>)"
      "\<forall>x. align_down_4k x \<in> ?P \<longrightarrow> ph (pa F x) = (case image_byte bytes (segments elf) x of Some b \<Rightarrow> b | None \<Rightarrow> phys m (pa F x))"
      "\<forall>y. (\<forall>x. align_down_4k x \<in> ?P \<longrightarrow> y \<noteq> pa F x) \<longrightarrow> ph y = phys m y"
    using copy_all_view [of X "m\<lparr>page_tbl := pt1\<rparr>" ?P F "segments elf" bytes] w segs by (auto cong: option.case_cong)
  have "\<forall>e \<in> set ps. align_down_4k (fst e) = fst e \<and>
      (\<exists>f fl. pt_translate X (page_tbl (m\<lparr>page_tbl := pt1, phys := ph\<rparr>)) (fst e) = Mapped f 0 fl)"
  proof
    fix e assume e: "e \<in> set ps"
    then have a: "align_down_4k (fst e) = fst e" using al by (auto intro: align_down_aligned)
    moreover obtain fl where "map_of ps (fst e) = Some fl"
      using e by (metis image_eqI map_of_eq_None_iff option.exhaust)
    ultimately show "align_down_4k (fst e) = fst e \<and>
      (\<exists>f fl. pt_translate X (page_tbl (m\<lparr>page_tbl := pt1, phys := ph\<rparr>)) (fst e) = Mapped f 0 fl)"
      using tr by simp
  qed
  from protect_all [OF docs(3,2) look(1) this]
  obtain pt2 where pt2: "for_each (protect_page X) ps (m\<lparr>page_tbl := pt1, phys := ph\<rparr>) = Ret (m\<lparr>phys := ph, page_tbl := pt2\<rparr>)"
      "\<forall>a. pt_translate X pt2 a = (case pt_translate X pt1 a of
         Mapped f off fl \<Rightarrow> Mapped f off (case map_of ps (align_down_4k a) of
           Some fl' \<Rightarrow> if WRITABLE \<in> fl' then fl else fl' | None \<Rightarrow> fl)
       | r \<Rightarrow> r)"
    by (auto cong: TranslateResult.case_cong)
  have fin: "pt_translate X pt2 a = (case map_of ps (align_down_4k a) of
       Some fl \<Rightarrow> Mapped (F (align_down_4k a)) (a - align_down_4k a) fl
     | None \<Rightarrow> pt_translate X (page_tbl m) a)" for a
    using pt2(2) [rule_format, of a] tr [rule_format, of a]
    by (auto split: option.splits TranslateResult.splits)
  have "load oc (allocate_frame oc X) X E bytes m fa = Ret (elf, m\<lparr>phys := ph, page_tbl := pt2\<rparr>, fa1)"
    using plan r(1) ph(1) pt2(1) by (simp add: load_def)
  moreover have "inj_on F ?P" using w by (simp add: writable_view_def)
  ultimately show ?thesis
    using r(2) fr fin ph(2,3) by (intro exI [of _ "m\<lparr>phys := ph, page_tbl := pt2\<rparr>"] exI [of _ fa1] exI [of _ F]) simp
qed

section \<open>Relocation, in closed form\<close>

definition selected :: "elf_api \<Rightarrow> ProgramHeader \<Rightarrow> bool" where
  "selected E ph \<longleftrightarrow> (case ElfSegmentType_try_from E (p_type ph) of None \<Rightarrow> False
     | Some t \<Rightarrow> t \<noteq> Null \<and> p_memsz ph \<noteq> 0)"

definition seg_of :: "elf_api \<Rightarrow> ProgramHeader \<Rightarrow> ElfSegment" where
  "seg_of E ph = \<lparr>ty = the (ElfSegmentType_try_from E (p_type ph)), seg_align = p_align ph,
     seg_flags = parse_segment_flags E ph, file_range = (p_offset ph, p_offset ph + p_filesz ph),
     addr = \<lparr>vstart = p_vaddr ph, vlen = p_memsz ph, original_start = p_vaddr ph\<rparr>\<rparr>"

definition shifted :: "u64 \<Rightarrow> ElfSegment \<Rightarrow> ElfSegment" where
  "shifted d s = s\<lparr>addr := (addr s)\<lparr>vstart := vstart (addr s) + d\<rparr>\<rparr>"

lemma small_canonical: "unat a < 2 ^ 46 \<Longrightarrow> canonical a"
  by (simp add: canonical_def)

lemma parse_segments_eq:
  assumes "addr_docs X" and "\<forall>ph \<in> set phs. selected E ph \<longrightarrow> unat (p_vaddr ph) < 2 ^ 46 \<and>
    unat (p_offset ph) + unat (p_filesz ph) < 2 ^ 64"
  shows "parse_segments oc X E phs = Ret (map (seg_of E) (filter (selected E) phs))"
  using assms(2)
proof (induction phs)
  case (Cons ph phs)
  show ?case
  proof (cases "selected E ph")
    case True
    then have "va_new X (p_vaddr ph) = Ret (p_vaddr ph)" "add_chk oc (p_offset ph) (p_filesz ph) = Ret (p_offset ph + p_filesz ph)"
      using assms(1) Cons.prems small_canonical by (simp_all add: addr_docs_def add_chk_fits)
    then show ?thesis using True Cons by (auto simp: selected_def seg_of_def split: option.splits)
  next
    case False
    then show ?thesis using Cons by (auto simp: selected_def split: option.splits)
  qed
qed simp

lemma i64_range:
  assumes "- 9223372036854775808 \<le> x" and "x < 9223372036854775808"
  shows "i64_fits x" and "signed_take_bit 63 x = x"
proof -
  show "i64_fits x" using assms by (simp add: i64_fits_def)
  then show "signed_take_bit 63 x = x" by (intro signed_take_bit_int_eq_self) (simp_all add: i64_fits_def)
qed

lemma sint_small:
  assumes "unat (a :: u64) < 2 ^ 46" shows "sint a = uint a" and "0 \<le> uint a" and "uint a < 70368744177664"
proof -
  have "int (unat a) < int (2 ^ 46)" using assms by (simp only: of_nat_less_iff)
  then show u: "uint a < 70368744177664" by simp
  show z: "0 \<le> uint a" by simp
  have "sint a = signed_take_bit 63 (uint a)" by (simp add: sint_uint)
  also have "\<dots> = uint a" by (rule i64_range(2)) (use u z in \<open>linarith+\<close>)
  finally show "sint a = uint a" .
qed

lemma relocate_small:
  assumes "addr_docs X" and "unat src < 2 ^ 46" and "unat t < 2 ^ 46"
  shows "i64_sub oc LOAD_TEXT_SECTION_AT t = Ret (LOAD_TEXT_SECTION_AT - t)"
    and "obind (i64_add oc src (LOAD_TEXT_SECTION_AT - t)) (va_new X) = Ret (src + (LOAD_TEXT_SECTION_AT - t))"
proof -
  let ?d = "LOAD_TEXT_SECTION_AT - t"
  have h: "unat src < 70368744177664" "unat t < 70368744177664" using assms(2,3) by simp_all
  note i = sint_small [OF assms(2)] sint_small [OF assms(3)]
  have l: "sint LOAD_TEXT_SECTION_AT = 0x660000" by (simp add: LOAD_TEXT_SECTION_AT_def)
  have "i64_fits (0x660000 - uint t)" by (rule i64_range(1)) (use i(5,6) in \<open>linarith+\<close>)
  then show "i64_sub oc LOAD_TEXT_SECTION_AT t = Ret ?d" by (simp add: i64_sub_def l i)
  have "sint ?d = signed_take_bit 63 (0x660000 - uint t)"
    by (simp only: sint_word_ariths(2) l i) simp
  also have "\<dots> = 0x660000 - uint t"
    by (rule i64_range(2)) (use i(5,6) in \<open>linarith+\<close>)
  finally have d: "sint ?d = 0x660000 - uint t" .
  have "i64_fits (uint src + (0x660000 - uint t))" by (rule i64_range(1)) (use i(2,3,5,6) in \<open>linarith+\<close>)
  then have "i64_add oc src ?d = Ret (src + ?d)" by (simp add: i64_add_def d i)
  moreover have "canonical (src + ?d)"
  proof (cases "unat t \<le> unat src + 0x660000")
    case True
    have a: "unat (src + 0x660000) = unat src + 0x660000" using h unat_add_fits [of src "0x660000"] by simp
    have "src + ?d = (src + 0x660000) - t" by (simp add: LOAD_TEXT_SECTION_AT_def)
    also have "unat \<dots> = unat src + 0x660000 - unat t"
      using unat_sub_fits [of t "src + 0x660000"] True unfolding a by simp
    finally have "unat (src + ?d) = unat src + 0x660000 - unat t" .
    then have "unat (src + ?d) < 140737488355328" using h by linarith
    then show ?thesis unfolding canonical_def by simp
  next
    case False
    let ?y = "t - (src + 0x660000)" and ?z = "src + ?d"
    have y: "unat ?y = unat t - (unat src + 0x660000)"
      using False h unat_add_fits [of src "0x660000"] unat_sub_fits [of "src + 0x660000" t] by simp
    have "?z + ?y = 0" by (simp add: LOAD_TEXT_SECTION_AT_def)
    then have "\<not> unat ?z + unat ?y < 18446744073709551616"
      using unat_add_fits [of ?z ?y] y False by auto
    then have "18446603336221196288 \<le> unat ?z" using y h by linarith
    then show ?thesis unfolding canonical_def by simp
  qed
  ultimately show "obind (i64_add oc src ?d) (va_new X) = Ret (src + ?d)"
    using assms(1) by (simp add: addr_docs_def)
qed

lemma remap_segments_eq:
  "\<forall>s \<in> set ss. f (vstart (addr s)) = Ret (vstart (addr s) + d) \<Longrightarrow> remap_segments f ss = Ret (map (shifted d) ss)"
  by (induction ss) (simp_all add: VirtualMapDestination_remap_def shifted_def)

lemma default_text_addr_append:
  "default_text_addr (ss @ [s]) = (if NO_EXECUTE \<notin> seg_flags s then Some (vstart (addr s)) else default_text_addr ss)"
  by (simp add: default_text_addr_def)

lemma default_text_addr_shifted:
  "default_text_addr (map (shifted d) ss) = map_option (\<lambda>a. a + d) (default_text_addr ss)"
  by (induction ss rule: rev_induct) (simp_all add: default_text_addr_append shifted_def, simp add: default_text_addr_def)

lemma default_text_addr_in:
  "default_text_addr ss = Some t \<Longrightarrow> \<exists>s \<in> set ss. vstart (addr s) = t"
  by (induction ss rule: rev_induct) (auto simp: default_text_addr_append split: if_splits, simp add: default_text_addr_def)

lemma load_plan_eq:
  assumes "addr_docs X" and "parse_entry E bytes = Some e" and "program_headers E bytes = Some phs"
    and "unat e < 2 ^ 46" and "\<forall>ph \<in> set phs. selected E ph \<longrightarrow> unat (p_vaddr ph) < 2 ^ 46 \<and>
      unat (p_offset ph) + unat (p_filesz ph) < 2 ^ 64"
    and "default_text_addr (map (seg_of E) (filter (selected E) phs)) = Some t"
  defines "d \<equiv> LOAD_TEXT_SECTION_AT - t" and "ss \<equiv> map (seg_of E) (filter (selected E) phs)"
  shows "load_plan oc X E bytes = obind (pages_to_map X (map (shifted d) ss) [])
      (\<lambda>ps. Ret (\<lparr>segments = map (shifted d) ss, entry_point = e + d\<rparr>, ps))"
    and "default_text_addr (map (shifted d) ss) = Some LOAD_TEXT_SECTION_AT"
proof -
  have small: "unat (vstart (addr s)) < 2 ^ 46" if "s \<in> set ss" for s
    using that assms(5) by (auto simp: ss_def seg_of_def)
  obtain s where "s \<in> set ss" "vstart (addr s) = t"
    using default_text_addr_in [OF assms(6)] unfolding ss_def by blast
  then have t: "unat t < 2 ^ 46" using small by blast
  note r = relocate_small [OF assms(1) _ t, folded d_def]
  have "remap_segments (\<lambda>src. obind (i64_add oc src d) (va_new X)) ss = Ret (map (shifted d) ss)"
    using small r(2) by (intro remap_segments_eq) blast
  moreover have "va_new X e = Ret e" using assms(1) small_canonical [OF assms(4)] by (simp add: addr_docs_def)
  moreover have "parse_segments oc X E phs = Ret ss" unfolding ss_def by (rule parse_segments_eq [OF assms(1,5)])
  ultimately show "load_plan oc X E bytes = obind (pages_to_map X (map (shifted d) ss) [])
      (\<lambda>ps. Ret (\<lparr>segments = map (shifted d) ss, entry_point = e + d\<rparr>, ps))"
    using assms(2,3) assms(6) [folded ss_def] r(1) [OF t] r(2) [OF assms(4)]
    by (simp add: load_plan_def Let_def ElfFile_remap_def)
  show "default_text_addr (map (shifted d) ss) = Some LOAD_TEXT_SECTION_AT"
    unfolding default_text_addr_shifted using assms(6) by (simp add: ss_def d_def)
qed

text \<open>A file with one segment of code and one of data, for examples.\<close>

definition demo_elf :: elf_api where
  "demo_elf = \<lparr>parse_entry = (\<lambda>_. Some 0x201000), program_headers = (\<lambda>_. Some [
       \<lparr>p_type = 6, p_flags = 4, p_offset = 0, p_vaddr = 0x200000, p_filesz = 0, p_memsz = 0, p_align = 8\<rparr>,
       \<lparr>p_type = 1, p_flags = 5, p_offset = 1, p_vaddr = 0x201000, p_filesz = 2, p_memsz = 2, p_align = 4096\<rparr>,
       \<lparr>p_type = 1, p_flags = 6, p_offset = 3, p_vaddr = 0x202000, p_filesz = 1, p_memsz = 8, p_align = 4096\<rparr>]),
     PT_const = (\<lambda>t. case t of Null \<Rightarrow> 0 | Load \<Rightarrow> 1 | Dynamic \<Rightarrow> 2 | Interp \<Rightarrow> 3 | Note \<Rightarrow> 4 | Shlib \<Rightarrow> 5
       | Phdr \<Rightarrow> 6 | Tls \<Rightarrow> 7 | Loos \<Rightarrow> 0x60000000 | GnuEhFrame \<Rightarrow> 0x6474e550 | GnuStack \<Rightarrow> 0x6474e551
       | GnuRelo \<Rightarrow> 0x6474e552 | Hios \<Rightarrow> 0x6fffffff | Loproc \<Rightarrow> 0x70000000 | Hiproc \<Rightarrow> 0x7fffffff),
     PF_R = 4, PF_W = 2, PF_X = 1\<rparr>"

definition demo_bytes :: "u8 list" where
  "demo_bytes = [0x7f, 0xeb, 0xfe, 0x2a]"

definition demo_segments :: "ElfSegment list" where
  "demo_segments = [
     \<lparr>ty = Load, seg_align = 4096, seg_flags = {PRESENT, USER_ACCESSIBLE}, file_range = (1, 3),
      addr = \<lparr>vstart = 0x660000, vlen = 2, original_start = 0x201000\<rparr>\<rparr>,
     \<lparr>ty = Load, seg_align = 4096, seg_flags = {PRESENT, USER_ACCESSIBLE, WRITABLE, NO_EXECUTE}, file_range = (3, 4),
      addr = \<lparr>vstart = 0x661000, vlen = 8, original_start = 0x202000\<rparr>\<rparr>]"

definition demo_pages :: "(Page \<times> PageTableFlags) list" where
  "demo_pages = [(0x660000, {PRESENT, USER_ACCESSIBLE}), (0x661000, {PRESENT, USER_ACCESSIBLE, WRITABLE, NO_EXECUTE})]"

lemma demo_selected:
  "map (seg_of demo_elf) (filter (selected demo_elf) (the (program_headers demo_elf bs))) =
     map (shifted (- 0x45f000)) demo_segments"
  by (simp add: demo_elf_def selected_def ElfSegmentType_try_from_def all_types_def seg_of_def
      parse_segment_flags_def Let_def demo_segments_def shifted_def) auto

lemma boot_addr_docs: "addr_docs boot_paging" "page_docs boot_paging"
    "mapper_docs boot_paging (fa_good boot_paging) (fa_pending boot_paging)"
  by (rule std_addr_docs std_page_docs std_mapper_docs)+

lemma demo_plan_hyps:
  "parse_entry demo_elf bs = Some 0x201000" "program_headers demo_elf bs = Some (the (program_headers demo_elf bs))"
  "unat (0x201000 :: u64) < 2 ^ 46"
  "\<forall>ph \<in> set (the (program_headers demo_elf bs)). selected demo_elf ph \<longrightarrow> unat (p_vaddr ph) < 2 ^ 46 \<and>
      unat (p_offset ph) + unat (p_filesz ph) < 2 ^ 64"
  "default_text_addr (map (seg_of demo_elf) (filter (selected demo_elf) (the (program_headers demo_elf bs)))) = Some 0x201000"
  unfolding demo_selected
  by (simp_all add: demo_elf_def default_text_addr_shifted) (simp add: default_text_addr_def demo_segments_def)

lemma shifted_back: "map (shifted (LOAD_TEXT_SECTION_AT - 0x201000)) (map (shifted (- 0x45f000)) ss) = ss"
  by (simp add: shifted_def LOAD_TEXT_SECTION_AT_def comp_def)

lemma demo_page_list: "pages_to_map boot_paging demo_segments [] = Ret demo_pages"
  by (simp add: demo_segments_def demo_pages_def pages_def std_paging_def std_try_new_def canonical_def Let_def
      align_down_4k_def pages_from_def page_at_def)

lemma demo_plan:
  "load_plan True boot_paging demo_elf demo_bytes = Ret (\<lparr>segments = demo_segments, entry_point = 0x660000\<rparr>, demo_pages)"
  using load_plan_eq(1) [OF boot_addr_docs(1) demo_plan_hyps, of True demo_bytes]
  unfolding demo_selected shifted_back demo_page_list by (simp add: LOAD_TEXT_SECTION_AT_def)

lemma demo_load_hyps:
  "\<forall>s \<in> set (segments \<lparr>segments = demo_segments, entry_point = 0x660000\<rparr>). low_segment s \<and> seg_file_ok demo_bytes s"
  "\<forall>p \<in> fst ` set demo_pages. \<not> is_mapped boot_paging (page_tbl \<lparr>page_tbl = Map.empty, phys = (\<lambda>_. 0)\<rparr>) p"
  "4 * length demo_pages \<le> length (fa_pending boot_paging (frame_allocator_init big_map))"
  by (simp_all add: demo_segments_def demo_bytes_def low_segment_def seg_file_ok_def is_mapped_def std_translate_def
      demo_pages_def big_map_pending)

section \<open>The properties of the component\<close>

text \<open>C9. A loaded program is mapped as its segments ask: for segments in the lower half whose pages are
  free, with four frames in store per page, \<^verbatim>\<open>load\<close> returns, every page that a segment touches is
  mapped to a frame of its own with the combined flags of its segments (so the write permission
  used for copying is gone where no segment asked for it), and every other address translates as
  before.\<close>

theorem elf_load_maps:
  assumes "addr_docs X" and "page_docs X" and "mapper_docs X (fa_good X) (fa_pending X)"
    and "load_plan oc X E bytes = Ret (elf, ps)"
    and "\<forall>s \<in> set (segments elf). low_segment s \<and> seg_file_ok bytes s"
    and "\<forall>p \<in> fst ` set ps. \<not> is_mapped X (page_tbl m) p"
    and "fa_good X fa" and "4 * length ps \<le> length (fa_pending X fa)" and "distinct (fa_pending X fa)"
  shows "\<exists>m' fa' F. load oc (allocate_frame oc X) X E bytes m fa = Ret (elf, m', fa') \<and>
    inj_on F (\<Union>s \<in> set (segments elf). seg_pages X s) \<and>
    F ` (\<Union>s \<in> set (segments elf). seg_pages X s) \<subseteq> set (fa_pending X fa) \<and>
    (\<forall>a. pt_translate X (page_tbl m') a = (case combined (flags_at X (segments elf) (align_down_4k a)) of
       Some fl \<Rightarrow> Mapped (F (align_down_4k a)) (a - align_down_4k a) fl
     | None \<Rightarrow> pt_translate X (page_tbl m) a))"
proof -
  have low: "\<forall>s \<in> set (segments elf). low_segment s" using assms(5) by blast
  note look = plan_lookup [OF assms(1,2) load_plan_pages [OF assms(4)] low]
  have P: "fst ` set ps = (\<Union>s \<in> set (segments elf). seg_pages X s)" using look(3) by blast
  from load_ok [OF assms, unfolded P look(2)]
  obtain m' fa' F where "load oc (allocate_frame oc X) X E bytes m fa = Ret (elf, m', fa')"
      "inj_on F (\<Union>s \<in> set (segments elf). seg_pages X s)"
      "F ` (\<Union>s \<in> set (segments elf). seg_pages X s) \<subseteq> set (fa_pending X fa)"
      "\<forall>a. pt_translate X (page_tbl m') a = (case combined (flags_at X (segments elf) (align_down_4k a)) of
         Some fl \<Rightarrow> Mapped (F (align_down_4k a)) (a - align_down_4k a) fl | None \<Rightarrow> pt_translate X (page_tbl m) a)"
    by (elim exE conjE)
  then show ?thesis by (intro exI conjI)
qed

theorem elf_load_maps_witness:
  "\<exists>m' fa' F. load True (allocate_frame True boot_paging) boot_paging demo_elf demo_bytes
      \<lparr>page_tbl = Map.empty, phys = (\<lambda>_. 0)\<rparr> (frame_allocator_init big_map)
      = Ret (\<lparr>segments = demo_segments, entry_point = 0x660000\<rparr>, m', fa') \<and>
    inj_on (F :: Page \<Rightarrow> PhysFrame) (\<Union>s \<in> set demo_segments. seg_pages boot_paging s)"
  using elf_load_maps [OF boot_addr_docs demo_plan demo_load_hyps(1,2) big_map_pending(3) demo_load_hyps(3) big_map_pending(2)]
  by auto

text \<open>C17. The bytes of the program are in place: after \<^verbatim>\<open>load\<close>, reading any address of a page of the program
  gives the byte of the file that the last loadable segment covering it puts there; addresses
  that no file range covers (such as zero-initialised data) hold what the frame held before,
  and no byte outside of the program's frames has changed.\<close>

theorem elf_load_contents:
  assumes "addr_docs X" and "page_docs X" and "mapper_docs X (fa_good X) (fa_pending X)"
    and "load_plan oc X E bytes = Ret (elf, ps)"
    and "\<forall>s \<in> set (segments elf). low_segment s \<and> seg_file_ok bytes s"
    and "\<forall>p \<in> fst ` set ps. \<not> is_mapped X (page_tbl m) p"
    and "fa_good X fa" and "4 * length ps \<le> length (fa_pending X fa)" and "distinct (fa_pending X fa)"
  shows "\<exists>m' fa' F. load oc (allocate_frame oc X) X E bytes m fa = Ret (elf, m', fa') \<and>
    (\<forall>x. align_down_4k x \<in> fst ` set ps \<longrightarrow> vread X m' x =
       Ret (case image_byte bytes (segments elf) x of Some b \<Rightarrow> b | None \<Rightarrow> phys m (pa F x))) \<and>
    F ` fst ` set ps \<subseteq> set (fa_pending X fa) \<and>
    (\<forall>y. (\<forall>x. align_down_4k x \<in> fst ` set ps \<longrightarrow> y \<noteq> pa F x) \<longrightarrow> phys m' y = phys m y)"
proof -
  from load_ok [OF assms] obtain m' fa' F where r: "load oc (allocate_frame oc X) X E bytes m fa = Ret (elf, m', fa')"
      "F ` fst ` set ps \<subseteq> set (fa_pending X fa)"
    and tr: "\<forall>a. pt_translate X (page_tbl m') a = (case map_of ps (align_down_4k a) of
       Some fl \<Rightarrow> Mapped (F (align_down_4k a)) (a - align_down_4k a) fl | None \<Rightarrow> pt_translate X (page_tbl m) a)"
    and ph: "\<forall>x. align_down_4k x \<in> fst ` set ps \<longrightarrow> phys m' (pa F x) =
       (case image_byte bytes (segments elf) x of Some b \<Rightarrow> b | None \<Rightarrow> phys m (pa F x))"
      "\<forall>y. (\<forall>x. align_down_4k x \<in> fst ` set ps \<longrightarrow> y \<noteq> pa F x) \<longrightarrow> phys m' y = phys m y"
    by (elim exE conjE) (rule that; assumption)
  have "\<forall>x. align_down_4k x \<in> fst ` set ps \<longrightarrow> vread X m' x =
      Ret (case image_byte bytes (segments elf) x of Some b \<Rightarrow> b | None \<Rightarrow> phys m (pa F x))"
  proof (intro allI impI)
    fix x assume x: "align_down_4k x \<in> fst ` set ps"
    then obtain fl where "map_of ps (align_down_4k x) = Some fl"
      by (metis map_of_eq_None_iff option.exhaust)
    then have "pt_translate X (page_tbl m') x = Mapped (F (align_down_4k x)) (x - align_down_4k x) fl"
      using tr by simp
    then show "vread X m' x = Ret (case image_byte bytes (segments elf) x of Some b \<Rightarrow> b | None \<Rightarrow> phys m (pa F x))"
      unfolding ph(1) [rule_format, OF x, symmetric] by (simp add: vread_def pa_def)
  qed
  then show ?thesis using r ph(2) by (intro exI conjI)
qed

theorem elf_load_contents_witness:
  "\<exists>elf m' fa'. load True (allocate_frame True boot_paging) boot_paging demo_elf demo_bytes
      \<lparr>page_tbl = Map.empty, phys = (\<lambda>_. 0)\<rparr> (frame_allocator_init big_map) = Ret (elf, m', fa') \<and>
    vread boot_paging m' 0x660001 = Ret 0xfe \<and> vread boot_paging m' 0x661000 = Ret 0x2a"
proof -
  have "align_down_4k 0x660001 \<in> fst ` set demo_pages" "align_down_4k 0x661000 \<in> fst ` set demo_pages"
    by (simp_all add: align_down_4k_def demo_pages_def)
  moreover have "image_byte demo_bytes demo_segments 0x660001 = Some 0xfe" "image_byte demo_bytes demo_segments 0x661000 = Some 0x2a"
    by (simp_all add: demo_segments_def seg_byte_def demo_bytes_def)
  moreover obtain m' fa' F where r: "load True (allocate_frame True boot_paging) boot_paging demo_elf demo_bytes
      \<lparr>page_tbl = Map.empty, phys = (\<lambda>_. 0)\<rparr> (frame_allocator_init big_map)
      = Ret (\<lparr>segments = demo_segments, entry_point = 0x660000\<rparr>, m', fa')"
    and c: "\<And>x. align_down_4k x \<in> fst ` set demo_pages \<Longrightarrow> vread boot_paging m' x =
      Ret (case image_byte demo_bytes (segments \<lparr>segments = demo_segments, entry_point = 0x660000\<rparr>) x of
        Some b \<Rightarrow> b | None \<Rightarrow> phys \<lparr>page_tbl = Map.empty :: Page \<rightharpoonup> PhysFrame \<times> PageTableFlags, phys = (\<lambda>_. 0)\<rparr> (pa F x))"
    using elf_load_contents [OF boot_addr_docs demo_plan demo_load_hyps(1,2) big_map_pending(3) demo_load_hyps(3) big_map_pending(2)]
    by (elim exE conjE) (rule that, assumption, blast)
  ultimately have "vread boot_paging m' 0x660001 = Ret 0xfe" "vread boot_paging m' 0x661000 = Ret 0x2a"
    using c [of "0x660001"] c [of "0x661000"] by simp_all
  with r show ?thesis by blast
qed

text \<open>C34. Programs are relocated as a whole so that the code starts at 0x660000: the plan of \<^verbatim>\<open>load\<close> has
  exactly the segments of known type and non-zero size, in file order, each moved by the same
  distance, and so is the entry point; the last executable segment starts at
  \<^verbatim>\<open>LOAD_TEXT_SECTION_AT\<close>. Neither build profile panics for addresses below 2 to the 46.\<close>

theorem elf_relocated:
  assumes "addr_docs X" and "parse_entry E bytes = Some e" and "program_headers E bytes = Some phs"
    and "unat e < 2 ^ 46" and "\<forall>ph \<in> set phs. selected E ph \<longrightarrow> unat (p_vaddr ph) < 2 ^ 46 \<and>
      unat (p_offset ph) + unat (p_filesz ph) < 2 ^ 64"
    and "default_text_addr (map (seg_of E) (filter (selected E) phs)) = Some t"
  shows "load_plan oc X E bytes =
      obind (pages_to_map X (map (\<lambda>ph. shifted (LOAD_TEXT_SECTION_AT - t) (seg_of E ph)) (filter (selected E) phs)) [])
        (\<lambda>ps. Ret (\<lparr>segments = map (\<lambda>ph. shifted (LOAD_TEXT_SECTION_AT - t) (seg_of E ph)) (filter (selected E) phs),
          entry_point = e + (LOAD_TEXT_SECTION_AT - t)\<rparr>, ps)) \<and>
    default_text_addr (map (\<lambda>ph. shifted (LOAD_TEXT_SECTION_AT - t) (seg_of E ph)) (filter (selected E) phs)) = Some 0x660000"
  using load_plan_eq [OF assms] by (simp add: comp_def LOAD_TEXT_SECTION_AT_def)

theorem elf_relocated_witness:
  "\<exists>ps. load_plan True boot_paging demo_elf demo_bytes = Ret (\<lparr>segments = demo_segments, entry_point = 0x660000\<rparr>, ps)"
  using elf_relocated [OF boot_addr_docs(1) demo_plan_hyps, of True demo_bytes] demo_page_list
  unfolding map_map [symmetric, unfolded comp_def] demo_selected shifted_back by (simp add: LOAD_TEXT_SECTION_AT_def)

text \<open>C35. The flags of a page shared by segments: a page of the plan is writable, or user accessible, or
  present, if one of the segments that touch it is. Whether it can be executed is decided by the
  last of these segments alone: an executable segment followed by one that is not loses the
  permission, although the comment in the code says that the page is executable if either is.\<close>

theorem elf_page_flags:
  assumes "addr_docs X" and "page_docs X" and "load_plan oc X E bytes = Ret (elf, ps)"
    and "\<forall>s \<in> set (segments elf). low_segment s" and "(p, fl) \<in> set ps"
    and "touching = filter (\<lambda>s. p \<in> seg_pages X s) (segments elf)"
  shows "touching \<noteq> [] \<and> (NO_EXECUTE \<in> fl \<longleftrightarrow> NO_EXECUTE \<in> seg_flags (last touching)) \<and>
    (\<forall>f. f \<noteq> NO_EXECUTE \<longrightarrow> (f \<in> fl \<longleftrightarrow> (\<exists>s \<in> set touching. f \<in> seg_flags s)))"
proof -
  note look = plan_lookup [OF assms(1,2) load_plan_pages [OF assms(3)] assms(4)]
  have "map_of ps p = Some fl" using look(1) assms(5) by simp
  then have c: "combined (map seg_flags touching) = Some fl" using look(2) assms(6) by (simp add: flags_at_def)
  then have "touching \<noteq> []" by (auto simp: combined_def)
  then show ?thesis using combined_mem [OF c] by (simp add: last_map)
qed

theorem elf_page_flags_witness:
  "(0x660000, {PRESENT, USER_ACCESSIBLE}) \<in> set demo_pages \<and>
   NO_EXECUTE \<notin> seg_flags (last (filter (\<lambda>s. 0x660000 \<in> seg_pages boot_paging s) demo_segments))"
proof -
  have l: "\<forall>s \<in> set (segments \<lparr>segments = demo_segments, entry_point = 0x660000\<rparr>). low_segment s"
    using demo_load_hyps(1) by blast
  have p: "(0x660000, {PRESENT, USER_ACCESSIBLE}) \<in> set demo_pages" by (simp add: demo_pages_def)
  from elf_page_flags [OF boot_addr_docs(1,2) demo_plan l p refl] p show ?thesis by simp
qed

end
