(* ===== verification/User_Slice.thy ===== *)
theory User_Slice
  imports Frames
begin

text \<open>
  \<^verbatim>\<open>kernel/src/syscall/mod.rs\<close>: turning a pointer and a length given by a user program into a
  slice the kernel may access. A slice is its address and its length; the closures that get it
  read the memory through the page table. The properties: for a range inside one half of the
  address space the check accepts exactly the ranges all of whose bytes are mapped and user
  accessible (and writable for a mutable slice), and reading an accepted slice never faults; the
  arguments with which a user program makes the check itself panic, or pass unchecked, are
  characterised as well.
\<close>

section \<open>Result and Error of the syscall crate\<close>

datatype Error = NoSys | InvalidArgument

type_synonym 'a Result = "Error + 'a"

text \<open>\<^verbatim>\<open>e as u8\<close>: the discriminants count from 0.\<close>

primrec Error_as_u8 :: "Error \<Rightarrow> u8" where
  "Error_as_u8 NoSys = 0"
| "Error_as_u8 InvalidArgument = 1"

section \<open>Checking user pointers\<close>

datatype ReadAccess = ReadOnly | ReadWrite

definition check_user_addr :: "('pt, 'fa) paging \<Rightarrow> 'pt option \<Rightarrow> VirtAddr \<Rightarrow> ReadAccess \<Rightarrow> unit Result outcome" where
  "check_user_addr X MAPPER addr access =
     mapper_with (mapper MAPPER) (\<lambda>mapper. Ret (case pt_translate X mapper addr of
         NotMapped \<Rightarrow> Inl InvalidArgument
       | InvalidFrameAddress _ \<Rightarrow> Inl InvalidArgument
       | Mapped _ _ flags \<Rightarrow>
           if USER_ACCESSIBLE \<notin> flags then Inl InvalidArgument
           else (case access of
               ReadOnly \<Rightarrow> Inr ()
             | ReadWrite \<Rightarrow> if WRITABLE \<in> flags then Inr () else Inl InvalidArgument)))"

text \<open>The loop over the pages of the range, left by the first error.\<close>

fun check_user_pages :: "('pt, 'fa) paging \<Rightarrow> 'pt option \<Rightarrow> ReadAccess \<Rightarrow> Page list \<Rightarrow> unit Result outcome" where
  "check_user_pages X MAPPER access [] = Ret (Inr ())"
| "check_user_pages X MAPPER access (page # pages) =
     obind (check_user_addr X MAPPER (page_start X page) access) (\<lambda>r.
     case r of Inl e \<Rightarrow> Ret (Inl e) | Inr _ \<Rightarrow> check_user_pages X MAPPER access pages)"

definition isize_MAX :: usize where
  "isize_MAX = 0x7fffffffffffffff"

definition construct_user_slice :: "bool \<Rightarrow> ('pt, 'fa) paging \<Rightarrow> 'pt option \<Rightarrow> usize \<Rightarrow> usize
    \<Rightarrow> (usize \<times> usize) Result outcome" where
  "construct_user_slice oc X MAPPER ptr bytes =
     (case va_try_new X ptr of
        None \<Rightarrow> Ret (Inl InvalidArgument)
      | Some addr \<Rightarrow>
          if bytes > isize_MAX then Ret (Inl InvalidArgument)
          else
            let first_page = page_containing X addr in
            obind (sub_chk oc bytes 1) (\<lambda>b.
            obind (va_add X addr b) (\<lambda>last.
            let last_page = page_containing X last in
            obind (check_user_pages X MAPPER ReadOnly (page_range_inclusive X first_page last_page)) (\<lambda>r.
            case r of Inl e \<Rightarrow> Ret (Inl e) | Inr _ \<Rightarrow> Ret (Inr (ptr, bytes))))))"

definition construct_user_slice_mut :: "bool \<Rightarrow> ('pt, 'fa) paging \<Rightarrow> 'pt option \<Rightarrow> usize \<Rightarrow> usize
    \<Rightarrow> (usize \<times> usize) Result outcome" where
  "construct_user_slice_mut oc X MAPPER ptr bytes =
     (case va_try_new X ptr of
        None \<Rightarrow> Ret (Inl InvalidArgument)
      | Some addr \<Rightarrow>
          if bytes > isize_MAX then Ret (Inl InvalidArgument)
          else
            let first_page = page_containing X addr in
            obind (sub_chk oc bytes 1) (\<lambda>b.
            obind (va_add X addr b) (\<lambda>last.
            let last_page = page_containing X last in
            obind (check_user_pages X MAPPER ReadWrite (page_range_inclusive X first_page last_page)) (\<lambda>r.
            case r of Inl e \<Rightarrow> Ret (Inl e) | Inr _ \<Rightarrow> Ret (Inr (ptr, bytes))))))"

text \<open>
  \<^verbatim>\<open>construct_user_slice(ptr, bytes).map(f)\<close>; the closure gets the slice and may change the state.
\<close>

definition with_user_slice :: "bool \<Rightarrow> ('pt, 'fa) paging \<Rightarrow> 'pt option \<Rightarrow> usize \<Rightarrow> usize
    \<Rightarrow> (usize \<times> usize \<Rightarrow> 's \<Rightarrow> ('r \<times> 's) outcome) \<Rightarrow> 's \<Rightarrow> ('r Result \<times> 's) outcome" where
  "with_user_slice oc X MAPPER ptr bytes f s =
     obind (construct_user_slice oc X MAPPER ptr bytes) (\<lambda>r.
     case r of
       Inl e \<Rightarrow> Ret (Inl e, s)
     | Inr t \<Rightarrow> obind (f t s) (\<lambda>(v, s). Ret (Inr v, s)))"

definition with_user_slice_mut :: "bool \<Rightarrow> ('pt, 'fa) paging \<Rightarrow> 'pt option \<Rightarrow> usize \<Rightarrow> usize
    \<Rightarrow> (usize \<times> usize \<Rightarrow> 's \<Rightarrow> ('r \<times> 's) outcome) \<Rightarrow> 's \<Rightarrow> ('r Result \<times> 's) outcome" where
  "with_user_slice_mut oc X MAPPER ptr bytes f s =
     obind (construct_user_slice_mut oc X MAPPER ptr bytes) (\<lambda>r.
     case r of
       Inl e \<Rightarrow> Ret (Inl e, s)
     | Inr t \<Rightarrow> obind (f t s) (\<lambda>(v, s). Ret (Inr v, s)))"

section \<open>The specification\<close>

text \<open>
  The translation works page by page: within one page it adds the offset, and the flags are
  those of the page.
\<close>

definition translate_docs :: "('pt, 'fa) paging \<Rightarrow> bool" where
  "translate_docs X \<longleftrightarrow> (\<forall>pt a. pt_translate X pt a =
     (case pt_translate X pt (align_down_4k a) of
        Mapped f off fl \<Rightarrow> Mapped f (off + (a - align_down_4k a)) fl
      | r \<Rightarrow> r))"

text \<open>The access rights of user code to one byte.\<close>

definition user_may :: "('pt, 'fa) paging \<Rightarrow> 'pt \<Rightarrow> ReadAccess \<Rightarrow> VirtAddr \<Rightarrow> bool" where
  "user_may X pt access a \<longleftrightarrow> (case pt_translate X pt a of
     Mapped _ _ fl \<Rightarrow> USER_ACCESSIBLE \<in> fl \<and> (access = ReadWrite \<longrightarrow> WRITABLE \<in> fl)
   | _ \<Rightarrow> False)"

text \<open>A non-empty range of bytes inside the lower or the upper half of the address space.\<close>

definition range_in_half :: "usize \<Rightarrow> usize \<Rightarrow> bool" where
  "range_in_half ptr bytes \<longleftrightarrow> 0 < unat bytes \<and>
     (unat ptr + unat bytes \<le> 2 ^ 47 \<or> 2 ^ 64 - 2 ^ 47 \<le> unat ptr \<and> unat ptr + unat bytes \<le> 2 ^ 64)"

definition user_range :: "('pt, 'fa) paging \<Rightarrow> 'pt \<Rightarrow> ReadAccess \<Rightarrow> usize \<Rightarrow> usize \<Rightarrow> bool" where
  "user_range X pt access ptr bytes \<longleftrightarrow>
     (\<forall>x. unat ptr \<le> unat x \<and> unat x < unat ptr + unat bytes \<longrightarrow> user_may X pt access x)"

text \<open>The byte behind a mapped address.\<close>

definition byte_at :: "('pt, 'fa) paging \<Rightarrow> ('pt, 'm) vm_scheme \<Rightarrow> VirtAddr \<Rightarrow> u8" where
  "byte_at X m a = (case pt_translate X (page_tbl m) a of Mapped f off _ \<Rightarrow> phys m (f + off) | _ \<Rightarrow> 0)"

text \<open>A page table with one page for user code, read only, and the wrapping variant of the
  concrete instance, for examples.\<close>

definition demo_pt :: "Page \<rightharpoonup> PhysFrame \<times> PageTableFlags" where
  "demo_pt = [0x1000 \<mapsto> (0x8000, {PRESENT, USER_ACCESSIBLE}), 0x2000 \<mapsto> (0x9000, {PRESENT, WRITABLE})]"

abbreviation wrapping_paging :: "(Page \<rightharpoonup> PhysFrame \<times> PageTableFlags, BootInfoFrameAllocator) paging" where
  "wrapping_paging \<equiv> boot_paging\<lparr>va_add := (\<lambda>a n. unwrap (std_try_new (a + n)))\<rparr>"

text \<open>The two constructors differ in the access they ask for only.\<close>

definition construct_slice :: "ReadAccess \<Rightarrow> bool \<Rightarrow> ('pt, 'fa) paging \<Rightarrow> 'pt option \<Rightarrow> usize \<Rightarrow> usize
    \<Rightarrow> (usize \<times> usize) Result outcome" where
  "construct_slice access = (case access of
     ReadOnly \<Rightarrow> construct_user_slice | ReadWrite \<Rightarrow> construct_user_slice_mut)"

section \<open>Facts\<close>

lemma check_user_addr_eq:
  "check_user_addr X (Some pt) a access =
     Ret (if user_may X pt access a then Inr () else Inl InvalidArgument)"
  by (cases access) (auto simp: check_user_addr_def mapper_with_def mapper_def user_may_def
      split: TranslateResult.splits)

lemma check_user_pages_eq:
  "check_user_pages X (Some pt) access pages =
     Ret (if \<forall>p \<in> set pages. user_may X pt access (page_start X p) then Inr () else Inl InvalidArgument)"
  by (induction pages) (auto simp: check_user_addr_eq)

lemma construct_slice_eq:
  "construct_slice access oc X M ptr bytes =
     (case va_try_new X ptr of
        None \<Rightarrow> Ret (Inl InvalidArgument)
      | Some addr \<Rightarrow>
          if bytes > isize_MAX then Ret (Inl InvalidArgument)
          else
            obind (sub_chk oc bytes 1) (\<lambda>b.
            obind (va_add X addr b) (\<lambda>last.
            obind (check_user_pages X M access
              (page_range_inclusive X (page_containing X addr) (page_containing X last))) (\<lambda>r.
            case r of Inl e \<Rightarrow> Ret (Inl e) | Inr _ \<Rightarrow> Ret (Inr (ptr, bytes))))))"
  by (cases access) (simp_all only: construct_slice_def construct_user_slice_def construct_user_slice_mut_def
      Let_def ReadAccess.case)

lemma user_may_page:
  assumes "translate_docs X" shows "user_may X pt access a = user_may X pt access (align_down_4k a)"
proof -
  have "pt_translate X pt a = (case pt_translate X pt (align_down_4k a) of
      Mapped f off fl \<Rightarrow> Mapped f (off + (a - align_down_4k a)) fl | r \<Rightarrow> r)"
    using assms unfolding translate_docs_def by blast
  then show ?thesis unfolding user_may_def by (cases "pt_translate X pt (align_down_4k a)") simp_all
qed

lemma std_translate_docs: "translate_docs std_paging"
  unfolding translate_docs_def std_fields
  by (auto simp: std_translate_def split: option.splits)

lemma boot_docs: "addr_docs boot_paging" "page_docs boot_paging" "translate_docs boot_paging"
  by (rule std_addr_docs std_page_docs std_translate_docs)+

lemma range_in_halfD:
  assumes "range_in_half ptr bytes"
  shows "canonical ptr" and "canonical (ptr + (bytes - 1))" and "bytes \<le> isize_MAX"
    and "unat (ptr + (bytes - 1)) = unat ptr + (unat bytes - 1)" and "unat ptr + unat (bytes - 1) < 2 ^ 64"
    and "unat ptr < 2 ^ 47 \<longleftrightarrow> unat (ptr + (bytes - 1)) < 2 ^ 47" and "1 \<le> unat bytes"
proof -
  let ?p = "unat ptr" and ?b = "unat bytes"
  have h: "0 < ?b" "?p + ?b \<le> 140737488355328 \<or> 18446603336221196288 \<le> ?p \<and> ?p + ?b \<le> 18446744073709551616"
    using assms unfolding range_in_half_def by simp_all
  show pos: "1 \<le> ?b" using h(1) by linarith
  then have b: "unat (bytes - 1) = ?b - 1" using unat_sub_fits [of 1 bytes] by simp
  show s: "?p + unat (bytes - 1) < 2 ^ 64" unfolding b using h by simp linarith
  show u: "unat (ptr + (bytes - 1)) = ?p + (?b - 1)" using unat_add_fits [of ptr "bytes - 1"] s unfolding b by simp
  show "canonical ptr" unfolding canonical_def using h by simp linarith
  show "canonical (ptr + (bytes - 1))" unfolding canonical_def u using h by simp linarith
  show "?p < 2 ^ 47 \<longleftrightarrow> unat (ptr + (bytes - 1)) < 2 ^ 47" unfolding u using h by simp linarith
  have "?b \<le> 9223372036854775807" using h by linarith
  then show "bytes \<le> isize_MAX" by (simp add: isize_MAX_def word_le_nat_alt)
qed

text \<open>Every page of the range holds a byte of the range.\<close>

lemma page_holds_byte:
  assumes "p \<in> set (pages_from (align_down_4k a) (Suc ((unat (align_down_4k b) - unat (align_down_4k a)) div 4096)))"
    and "unat a \<le> unat b"
  shows "\<exists>x. unat a \<le> unat x \<and> unat x \<le> unat b \<and> align_down_4k x = p"
proof -
  let ?n = "(unat (align_down_4k b) - unat (align_down_4k a)) div 4096"
  have mono: "unat (align_down_4k a) \<le> unat (align_down_4k b)"
    using assms(2) by (simp add: unat_align_down div_le_mono)
  obtain i j where ij: "unat (align_down_4k a) = 4096 * i" "unat (align_down_4k b) = 4096 * j"
    using align_down_dvd by (metis dvdE)
  then have n: "?n = j - i" "i \<le> j" using mono by (simp_all add: diff_mult_distrib2 [symmetric])
  have "4096 * j < 4096 * 2 ^ 52" using unat_u64 [of "align_down_4k b"] unfolding ij(2) by simp
  then have "Suc j \<le> 2 ^ 52" by simp
  moreover have "i + Suc (j - i) = Suc j" using n(2) by simp
  ultimately have "4096 * (i + Suc (j - i)) \<le> 4096 * 2 ^ 52" by simp
  then have "unat (align_down_4k a) + 4096 * Suc ?n \<le> 2 ^ 64"
    unfolding n(1) unfolding ij(1) distrib_left [symmetric] by simp
  note p = unat_in_pages_from [OF assms(1) this]
  have al: "align_down_4k p = p" and dv: "4096 dvd unat p" using p(3) by (simp_all add: align_down_aligned)
  have hi: "unat p \<le> unat (align_down_4k b)"
  proof -
    obtain k where k: "unat p = 4096 * k" using dv by blast
    have "unat p < 4096 * i + 4096 * Suc (j - i)" using p(2) unfolding n(1) unfolding ij(1) .
    then have "k < i + Suc (j - i)" unfolding k by simp
    then show ?thesis using k ij(2) n(2) by simp
  qed
  show ?thesis
  proof (cases "unat a \<le> unat p")
    case True
    then show ?thesis using hi align_down_le [of b] al by (intro exI [of _ p]) simp
  next
    case False
    have "unat (align_down_4k a) = unat p"
    proof -
      have "unat a < unat (align_down_4k a) + 4096"
        using dividend_less_div_times [of 4096 "unat a"] by (simp add: unat_align_down)
      moreover obtain k where k: "unat p = 4096 * k" using dv by blast
      ultimately have "4096 * k < 4096 * Suc i" using False unfolding ij(1) by simp
      then show ?thesis using p(1) k unfolding ij(1) by simp
    qed
    then have "align_down_4k a = p" by (simp add: word_unat_eq_iff)
    then show ?thesis using assms(2) by blast
  qed
qed

lemma pages_vs_bytes:
  assumes "page_docs X" and "translate_docs X" and "unat a \<le> unat b" and "unat a < 2 ^ 47 \<longleftrightarrow> unat b < 2 ^ 47"
  shows "(\<forall>p \<in> set (page_range_inclusive X (page_containing X a) (page_containing X b)).
      user_may X pt access (page_start X p)) \<longleftrightarrow>
    (\<forall>x. unat a \<le> unat x \<and> unat x \<le> unat b \<longrightarrow> user_may X pt access x)" (is "?P \<longleftrightarrow> ?Q")
proof
  have ps: "page_start X p = p" "page_containing X x = align_down_4k x" for p x
    using assms(1) by (simp_all add: page_docs_def)
  show ?Q if ?P
  proof (intro allI impI)
    fix x :: u64 assume x: "unat a \<le> unat x \<and> unat x \<le> unat b"
    from bspec [OF that range_inclusive_cover [OF assms(1,4) conjunct1 [OF x] conjunct2 [OF x]]]
    have "user_may X pt access (align_down_4k x)" by (simp only: ps)
    then show "user_may X pt access x" by (simp only: user_may_page [OF assms(2), of _ _ x])
  qed
  have le: "unat (align_down_4k a) \<le> unat (align_down_4k b)"
    using assms(3) by (simp add: unat_align_down div_le_mono)
  have half: "unat (align_down_4k a) < 2 ^ 47 \<longleftrightarrow> unat (align_down_4k b) < 2 ^ 47"
    using assms(4) unfolding align_down_low .
  have range: "page_range_inclusive X (align_down_4k a) (align_down_4k b) =
      pages_from (align_down_4k a) (Suc ((unat (align_down_4k b) - unat (align_down_4k a)) div 4096))"
  proof -
    have "page_range_inclusive X p q = (if unat p \<le> unat q then pages_from p (Suc ((unat q - unat p) div 4096)) else [])"
      if "4096 dvd unat p" "4096 dvd unat q" "unat p < 2 ^ 47 \<longleftrightarrow> unat q < 2 ^ 47" for p q
      using assms(1) that unfolding page_docs_def by blast
    from this [OF align_down_dvd align_down_dvd half] le show ?thesis by simp
  qed
  show ?P if ?Q
  proof
    fix p assume "p \<in> set (page_range_inclusive X (page_containing X a) (page_containing X b))"
    from page_holds_byte [OF this [unfolded ps range] assms(3)]
    obtain x where x: "unat a \<le> unat x" "unat x \<le> unat b" "align_down_4k x = p" by blast
    then have "user_may X pt access x" using that by blast
    then show "user_may X pt access (page_start X p)"
      unfolding ps user_may_page [OF assms(2), of _ _ x] x(3) .
  qed
qed

lemma construct_slice_exact:
  assumes "addr_docs X" and "page_docs X" and "translate_docs X" and "range_in_half ptr bytes"
  shows "construct_slice access oc X (Some pt) ptr bytes =
    Ret (if user_range X pt access ptr bytes then Inr (ptr, bytes) else Inl InvalidArgument)"
proof -
  note r = range_in_halfD [OF assms(4)]
  let ?last = "ptr + (bytes - 1)"
  have tn: "va_try_new X ptr = Some ptr" and l: "va_add X ptr (bytes - 1) = Ret ?last"
    using assms(1) r(1,2,5) by (simp_all add: addr_docs_def)
  have sb: "sub_chk oc bytes 1 = Ret (bytes - 1)" using r(7) by (simp add: sub_chk_fits)
  have "unat ptr \<le> unat ?last" using r(4) by linarith
  note pb = pages_vs_bytes [OF assms(2,3) this r(6), of pt access]
  have lt: "unat x \<le> unat ?last \<longleftrightarrow> unat x < unat ptr + unat bytes" for x :: u64
    unfolding r(4) using r(7) by linarith
  have "\<not> isize_MAX < bytes" using r(3) by simp
  then show ?thesis
    unfolding construct_slice_eq tn option.case l sb obind.simps check_user_pages_eq pb lt user_range_def
    by (simp only: if_False sum.case split: if_split) simp
qed

lemma construct_slice_access:
  "construct_user_slice = construct_slice ReadOnly" "construct_user_slice_mut = construct_slice ReadWrite"
  by (simp_all add: construct_slice_def)

lemma vread_slice_eq:
  assumes "\<forall>i < n. user_may X (page_tbl m) access (a + word_of_nat i)"
  shows "vread_slice X m a n = Ret (map (\<lambda>i. byte_at X m (a + word_of_nat i)) [0..<n])"
  using assms
proof (induction n arbitrary: a)
  case (Suc n)
  have s: "a + 1 + word_of_nat i = a + word_of_nat (Suc i)" for i by simp
  have "user_may X (page_tbl m) access a" using Suc.prems [rule_format, of 0] by simp
  then have "vread X m a = Ret (byte_at X m a)"
    by (auto simp: user_may_def vread_def byte_at_def split: TranslateResult.splits)
  moreover have "vread_slice X m (a + 1) n = Ret (map (\<lambda>i. byte_at X m (a + 1 + word_of_nat i)) [0..<n])"
    using Suc.prems unfolding s [symmetric] by (intro Suc.IH) (metis Suc_less_eq s)
  ultimately show ?case by (simp only: vread_slice.simps obind.simps s upt_conv_Cons [of 0 "Suc n"] zero_less_Suc
      map_Suc_upt [symmetric] list.map map_map comp_def) simp
qed simp

lemma user_range_bytes:
  assumes "range_in_half ptr bytes" and "user_range X pt access ptr bytes" and "i < unat bytes"
  shows "user_may X pt access (ptr + word_of_nat i)"
proof -
  have "unat ptr + unat bytes \<le> 2 ^ 64"
    using unat_u64 [of "ptr + (bytes - 1)"] range_in_halfD(7) [OF assms(1)]
    unfolding range_in_halfD(4) [OF assms(1)] by linarith
  moreover from this have "i < 2 ^ 64" using assms(3) by linarith
  then have "unat (word_of_nat i :: u64) = i" by (rule unat_word_of_nat64)
  ultimately have "unat (ptr + word_of_nat i) = unat ptr + i"
    using assms(3) unat_add_fits [of ptr "word_of_nat i"] by simp
  then show ?thesis using assms(2,3) unfolding user_range_def by simp
qed

lemma demo_pt_translate:
  "pt_translate boot_paging demo_pt a =
    (if align_down_4k a = 0x1000 then Mapped 0x8000 (a - 0x1000) {PRESENT, USER_ACCESSIBLE}
     else if align_down_4k a = 0x2000 then Mapped 0x9000 (a - 0x2000) {PRESENT, WRITABLE} else NotMapped)"
  by (auto simp: std_translate_def demo_pt_def)

lemma demo_range: "range_in_half 0x1010 16" "user_range boot_paging demo_pt ReadOnly 0x1010 16"
proof -
  show "range_in_half 0x1010 16" by (simp add: range_in_half_def)
  have "unat x div 4096 = 1" if "4112 \<le> unat x" "unat x < 4128" for x :: u64 using that by simp
  then show "user_range boot_paging demo_pt ReadOnly 0x1010 16"
    unfolding user_range_def user_may_def demo_pt_translate by (simp add: align_down_4k_def)
qed

section \<open>The properties of the component\<close>

text \<open>C6. The check of user pointers is exact: for a non-empty range inside one half of the address
  space, \<^verbatim>\<open>construct_user_slice\<close> returns the slice if every byte of the range is mapped and user
  accessible and \<^verbatim>\<open>InvalidArgument\<close> if one is not, \<^verbatim>\<open>construct_user_slice_mut\<close> does so with
  mapped, user accessible and writable, and neither panics.\<close>

theorem user_slice_exact:
  assumes "addr_docs X" and "page_docs X" and "translate_docs X" and "range_in_half ptr bytes"
  shows "construct_user_slice oc X (Some pt) ptr bytes =
      Ret (if user_range X pt ReadOnly ptr bytes then Inr (ptr, bytes) else Inl InvalidArgument) \<and>
    construct_user_slice_mut oc X (Some pt) ptr bytes =
      Ret (if user_range X pt ReadWrite ptr bytes then Inr (ptr, bytes) else Inl InvalidArgument)"
  unfolding construct_slice_access using construct_slice_exact [OF assms] by blast

theorem user_slice_exact_witness:
  "construct_user_slice True boot_paging (Some demo_pt) 0x1010 16 = Ret (Inr (0x1010, 16)) \<and>
   construct_user_slice_mut True boot_paging (Some demo_pt) 0x1010 16 = Ret (Inl InvalidArgument)"
proof -
  have "\<not> user_range boot_paging demo_pt ReadWrite 0x1010 16"
    unfolding user_range_def user_may_def demo_pt_translate
    by (auto simp: align_down_4k_def intro!: exI [of _ "0x1010"])
  with user_slice_exact [OF boot_docs demo_range(1), of True demo_pt]
  show ?thesis using demo_range(2) by simp
qed

text \<open>A slice that passed the check can be read: after \<^verbatim>\<open>construct_user_slice\<close> returned \<^verbatim>\<open>Ok\<close> for a
  range inside one half of the address space, reading its bytes does not fault and gives the
  bytes the page table maps the range to, one per byte of the requested length.\<close>

lemma user_slice_readable:
  assumes "addr_docs X" and "page_docs X" and "translate_docs X" and "range_in_half ptr bytes"
    and "construct_user_slice oc X (Some (page_tbl m)) ptr bytes = Ret (Inr (p, n))"
  shows "p = ptr \<and> n = bytes \<and> vread_slice X m p (unat n) =
    Ret (map (\<lambda>i. byte_at X m (ptr + word_of_nat i)) [0..<unat bytes])"
proof -
  have r: "user_range X (page_tbl m) ReadOnly ptr bytes" "p = ptr" "n = bytes"
    using construct_slice_exact [OF assms(1-4), of ReadOnly oc "page_tbl m"] assms(5)
    unfolding construct_slice_access by (auto split: if_splits)
  from vread_slice_eq [of "unat bytes" X m ReadOnly ptr] user_range_bytes [OF assms(4) r(1)] r(2,3)
  show ?thesis by blast
qed

text \<open>Malformed arguments are turned down without looking at the page table: a pointer whose
  upper bits make it no address, and a length above \<^verbatim>\<open>isize::MAX\<close>, give \<^verbatim>\<open>InvalidArgument\<close> from
  both constructors.\<close>

lemma user_slice_malformed:
  assumes "addr_docs X" and "\<not> representable ptr \<or> isize_MAX < bytes"
  shows "construct_user_slice oc X M ptr bytes = Ret (Inl InvalidArgument) \<and>
    construct_user_slice_mut oc X M ptr bytes = Ret (Inl InvalidArgument)"
proof -
  have "va_try_new X ptr = None \<or> isize_MAX < bytes" using assms by (auto simp: addr_docs_def)
  then have "construct_slice access oc X M ptr bytes = Ret (Inl InvalidArgument)" for access
    unfolding construct_slice_eq by (auto split: option.splits)
  then show ?thesis unfolding construct_slice_access by blast
qed

text \<open>C32. A user program can make the check itself panic the kernel: with overflow checks on, every
  valid pointer with length 0 does (\<^verbatim>\<open>bytes - 1\<close> underflows), and so does, in every build, a valid
  pointer of the lower half with a length that carries the end of the range to an address that
  does not exist.\<close>

theorem user_slice_panics:
  assumes "addr_docs X" and "unat ptr < 2 ^ 47"
    and "bytes = 0 \<and> oc \<or> 2 ^ 48 < unat ptr + unat bytes \<and> bytes \<le> isize_MAX"
  shows "construct_user_slice oc X M ptr bytes = Panic \<and> construct_user_slice_mut oc X M ptr bytes = Panic"
proof -
  have c: "canonical ptr" using assms(2) by (simp add: canonical_def)
  then have tn: "va_try_new X ptr = Some ptr" using assms(1) by (simp add: addr_docs_def)
  have "construct_slice access oc X M ptr bytes = Panic" for access
  proof (cases "bytes = 0 \<and> oc")
    case True
    then show ?thesis unfolding construct_slice_eq tn by (simp add: sub_chk_def isize_MAX_def)
  next
    case False
    then have h: "281474976710656 < unat ptr + unat bytes" "unat bytes \<le> 9223372036854775807" "unat ptr < 140737488355328"
      using assms(2,3) by (auto simp: isize_MAX_def word_le_nat_alt)
    have "1 \<le> unat bytes" using h by linarith
    then have b: "unat (bytes - 1) = unat bytes - 1" "sub_chk oc bytes 1 = Ret (bytes - 1)"
      using unat_sub_fits [of 1 bytes] by (simp_all add: sub_chk_fits)
    have fits: "unat ptr + unat (bytes - 1) < 2 ^ 64" unfolding b using h by simp
    then have u: "unat (ptr + (bytes - 1)) = unat ptr + (unat bytes - 1)"
      using unat_add_fits [of ptr "bytes - 1"] unfolding b by simp
    have "\<not> representable (ptr + (bytes - 1))"
      unfolding representable_def canonical_def u using h by simp linarith
    moreover have "va_add X ptr (bytes - 1) = va_new X (ptr + (bytes - 1))"
      using assms(1) c fits unfolding addr_docs_def by blast
    ultimately have "va_add X ptr (bytes - 1) = Panic" using assms(1) by (simp add: addr_docs_def)
    then show ?thesis
      unfolding construct_slice_eq tn using b(2) False assms(3) by auto
  qed
  then show ?thesis unfolding construct_slice_access by blast
qed

theorem user_slice_panics_witness:
  "construct_user_slice True boot_paging (Some demo_pt) 0x1000 0 = Panic \<and>
   construct_user_slice False boot_paging (Some demo_pt) 0x1000 0x1000000000000 = Panic"
  using user_slice_panics [OF boot_docs(1), of "0x1000" 0 True "Some demo_pt"]
    user_slice_panics [OF boot_docs(1), of "0x1000" "0x1000000000000" False "Some demo_pt"]
  by (simp add: isize_MAX_def)

text \<open>The check is void for ranges that wrap around: if adding an offset to an address wraps
  modulo 2 to the 64, as \<^verbatim>\<open>u64\<close> addition does in a build without overflow checks, then a pointer into the
  upper half with a length that reaches past the end of the address space into the lower half is
  accepted whatever the page table says, for writing too: the range of pages is empty because
  its end comes before its start.\<close>

lemma user_slice_wraps:
  assumes "addr_docs X" and "page_docs X" and "\<forall>a n. va_add X a n = va_new X (a + n)"
    and "2 ^ 64 - 2 ^ 47 \<le> unat ptr" and "2 ^ 64 < unat ptr + unat bytes" and "unat bytes \<le> 2 ^ 47"
  shows "construct_user_slice oc X M ptr bytes = Ret (Inr (ptr, bytes)) \<and>
    construct_user_slice_mut oc X M ptr bytes = Ret (Inr (ptr, bytes))"
proof -
  let ?last = "ptr + (bytes - 1)"
  have h: "18446603336221196288 \<le> unat ptr" "18446744073709551616 < unat ptr + unat bytes" "unat bytes \<le> 140737488355328"
    using assms(4-6) by simp_all
  have p: "unat ptr < 18446744073709551616" using unat_u64 [of ptr] by simp
  have "1 \<le> unat bytes" using h p by linarith
  then have b: "unat (bytes - 1) = unat bytes - 1" "sub_chk oc bytes 1 = Ret (bytes - 1)"
    using unat_sub_fits [of 1 bytes] by (simp_all add: sub_chk_fits)
  have "unat ?last = (unat ptr + (unat bytes - 1)) mod 18446744073709551616"
    using unat_word_ariths(1) [of ptr "bytes - 1"] unfolding b by simp
  also have "\<dots> = unat ptr + (unat bytes - 1) - 18446744073709551616"
    using h p by (subst mod_if) (simp add: mod_if [of "_ - _"] not_less, linarith)
  finally have u: "unat ?last = unat ptr + (unat bytes - 1) - 18446744073709551616" .
  have low: "unat ?last < 140737488355328" unfolding u using h p by linarith
  have c: "canonical ptr" "canonical ?last"
    unfolding canonical_def using h low by simp_all
  have tn: "va_try_new X ptr = Some ptr" and l: "va_add X ptr (bytes - 1) = Ret ?last"
    using assms(1,3) c by (simp_all add: addr_docs_def)
  have "18446603336221196288 div 4096 * 4096 \<le> unat ptr div 4096 * 4096"
    using h by (intro mult_le_mono1 div_le_mono) simp
  then have "unat (align_down_4k ?last) < unat (align_down_4k ptr)"
    using low align_down_le [of ?last] by (simp add: unat_align_down [of ptr])
  then have "page_range_inclusive X (page_containing X ptr) (page_containing X ?last) = []"
    using assms(2) by (simp add: page_docs_def)
  moreover have "\<not> isize_MAX < bytes" using h by (simp add: isize_MAX_def word_less_nat_alt)
  ultimately have "construct_slice access oc X M ptr bytes = Ret (Inr (ptr, bytes))" for access
    unfolding construct_slice_eq tn by (simp add: b(2) l)
  then show ?thesis unfolding construct_slice_access by blast
qed

end
