(* ===== verification/Syscalls.thy ===== *)
theory Syscalls
  imports User_Slice Vga
begin

text \<open>
  The system calls: \<^verbatim>\<open>syscall/src/lib.rs\<close> (the numbers and the errors) and
  \<^verbatim>\<open>kernel/src/syscall/{handler,io,process}.rs\<close>. The kernel state is the console with the memory
  behind the active page table. The properties: what a write call prints and returns, that no
  call changes memory, page table or the interrupt state, what each error is encoded as, and
  that the only call that does not come back is exit.
\<close>

section \<open>Numbers of system calls\<close>

datatype Syscall = Read | Write | Exit

primrec Syscall_as_u8 :: "Syscall \<Rightarrow> u8" where
  "Syscall_as_u8 Read = 1"
| "Syscall_as_u8 Write = 2"
| "Syscall_as_u8 Exit = 3"

text \<open>The derived \<^verbatim>\<open>TryFromPrimitive\<close>: the variant with the given discriminant, if there is one.\<close>

definition Syscall_try_from :: "u8 \<Rightarrow> Syscall option" where
  "Syscall_try_from n = find (\<lambda>c. Syscall_as_u8 c = n) [Read, Write, Exit]"

text \<open>\<^verbatim>\<open>u8::try_from(usize)\<close>\<close>

definition u8_try_from :: "usize \<Rightarrow> u8 option" where
  "u8_try_from n = (if unat n < 256 then Some (ucast n) else None)"

section \<open>The kernel state\<close>

text \<open>
  \<^verbatim>\<open>MAPPER\<close> is a reference to the page table the processor uses, once \<^verbatim>\<open>memory::init\<close> has run.
\<close>

record 'pt kernel = console +
  vmem :: "'pt vm"
  mapper_ready :: bool

definition MAPPER :: "('pt, 'z) kernel_scheme \<Rightarrow> 'pt option" where
  "MAPPER s = (if mapper_ready s then Some (page_tbl (vmem s)) else None)"

section \<open>The calls\<close>

definition io_write :: "('pt, 'z) kernel_scheme irq_api \<Rightarrow> ('pt, 'z) kernel_ext lock_fn
    \<Rightarrow> usize \<Rightarrow> u8 list \<Rightarrow> ('pt, 'z) kernel_scheme \<Rightarrow> (usize Result \<times> ('pt, 'z) kernel_scheme) outcome" where
  "io_write I L fd bytes s =
     obind (println I L [str ''write''] s) (\<lambda>s.
     obind (print_bytes I L bytes s) (\<lambda>s.
     Ret (Inr (word_of_nat (length bytes)), s)))"

text \<open>The slice of \<^verbatim>\<open>read\<close> is not accessed; its length is all that is used.\<close>

definition io_read :: "('pt, 'z) kernel_scheme irq_api \<Rightarrow> ('pt, 'z) kernel_ext lock_fn
    \<Rightarrow> usize \<Rightarrow> usize \<times> usize \<Rightarrow> ('pt, 'z) kernel_scheme \<Rightarrow> (usize Result \<times> ('pt, 'z) kernel_scheme) outcome" where
  "io_read I L fd bytes s =
     obind (println I L [str ''read''] s) (\<lambda>s. Ret (Inr (snd bytes), s))"

definition process_exit :: "('pt, 'z) kernel_scheme irq_api \<Rightarrow> u8 \<Rightarrow> ('pt, 'z) kernel_scheme
    \<Rightarrow> (usize Result \<times> ('pt, 'z) kernel_scheme) outcome" where
  "process_exit I code s = hlt_loop I (enable_interrupts I s)"

text \<open>
  The closure that gets a shared slice reads it through the page table (a fault panics); the
  bytes are read before the first of them is printed.
\<close>

definition with_bytes :: "('pt, 'fa) paging \<Rightarrow> (u8 list \<Rightarrow> ('pt, 'z) kernel_scheme \<Rightarrow> 'r outcome)
    \<Rightarrow> usize \<times> usize \<Rightarrow> ('pt, 'z) kernel_scheme \<Rightarrow> 'r outcome" where
  "with_bytes X f t s = obind (vread_slice X (vmem s) (fst t) (unat (snd t))) (\<lambda>bytes. f bytes s)"

section \<open>The handler\<close>

definition STRACE :: bool where
  "STRACE = False"

definition strace :: "usize \<Rightarrow> usize \<Rightarrow> usize \<Rightarrow> usize \<Rightarrow> usize \<Rightarrow> usize \<Rightarrow> u8 list list" where
  "strace syscall_num arg0 arg1 arg2 arg3 arg4 =
     [str ''SYSCALL: num: '', fmt_dec syscall_num, str '', 0: 0x'', fmt_HEX arg0, str '', 1: 0x'', fmt_HEX arg1,
      str '' , 2: 0x'', fmt_HEX arg2, str '' , 3: 0x'', fmt_HEX arg3, str '' , 4: 0x'', fmt_HEX arg4]"

definition syscall_inner :: "bool \<Rightarrow> ('pt, 'fa) paging \<Rightarrow> ('pt, 'z) kernel_scheme irq_api
    \<Rightarrow> ('pt, 'z) kernel_ext lock_fn \<Rightarrow> usize \<Rightarrow> usize \<Rightarrow> usize \<Rightarrow> usize \<Rightarrow> usize \<Rightarrow> usize
    \<Rightarrow> ('pt, 'z) kernel_scheme \<Rightarrow> (usize Result \<times> ('pt, 'z) kernel_scheme) outcome" where
  "syscall_inner oc X I L syscall_num arg0 arg1 arg2 arg3 arg4 s =
     obind (if STRACE then println I L (strace syscall_num arg0 arg1 arg2 arg3 arg4) s else Ret s) (\<lambda>s.
     case Option.bind (u8_try_from syscall_num) Syscall_try_from of
       None \<Rightarrow> Ret (Inl NoSys, s)
     | Some syscall \<Rightarrow>
         let question_mark = (\<lambda>(r, s). case r of Inl e \<Rightarrow> Ret (Inl e, s) | Inr v \<Rightarrow> Ret (v, s)) in
         (case syscall of
            Read \<Rightarrow> obind (with_user_slice_mut oc X (MAPPER s) arg1 arg2 (io_read I L arg0) s) question_mark
          | Write \<Rightarrow> obind (with_user_slice oc X (MAPPER s) arg1 arg2 (with_bytes X (io_write I L arg0)) s) question_mark
          | Exit \<Rightarrow> process_exit I (ucast arg0) s))"

definition syscall_handler_inner :: "bool \<Rightarrow> ('pt, 'fa) paging \<Rightarrow> ('pt, 'z) kernel_scheme irq_api
    \<Rightarrow> ('pt, 'z) kernel_ext lock_fn \<Rightarrow> usize \<Rightarrow> usize \<Rightarrow> usize \<Rightarrow> usize \<Rightarrow> usize \<Rightarrow> usize
    \<Rightarrow> ('pt, 'z) kernel_scheme \<Rightarrow> (usize \<times> ('pt, 'z) kernel_scheme) outcome" where
  "syscall_handler_inner oc X I L syscall_num arg0 arg1 arg2 arg3 arg4 s =
     obind (syscall_inner oc X I L syscall_num arg0 arg1 arg2 arg3 arg4 s) (\<lambda>(r, s).
     case r of
       Inr val \<Rightarrow> if val > isize_MAX then Panic else Ret (val, s)
     | Inl e \<Rightarrow>
         let neg_err = - (ucast (Error_as_u8 e) :: usize)
         in Ret (neg_err, s))"

section \<open>Facts\<close>

definition env_docs :: "('pt, 'fa) paging \<Rightarrow> ('pt, 'z) kernel_scheme irq_api \<Rightarrow> ('pt, 'z) kernel_ext lock_fn \<Rightarrow> bool" where
  "env_docs X I L \<longleftrightarrow> addr_docs X \<and> page_docs X \<and> translate_docs X \<and> irq_docs I \<and> lock_docs L"

definition kernel_ok :: "('pt, 'z) kernel_scheme \<Rightarrow> bool" where
  "kernel_ok s \<longleftrightarrow> \<not> writer_locked s \<and> writer_ok (WRITER s) \<and> mapper_ready s"

definition user_bytes :: "('pt, 'fa) paging \<Rightarrow> 'pt vm \<Rightarrow> usize \<Rightarrow> usize \<Rightarrow> u8 list" where
  "user_bytes X m ptr n = map (\<lambda>i. byte_at X m (ptr + word_of_nat i)) [0..<unat n]"

definition printed :: "u8 list \<Rightarrow> ('pt, 'z) kernel_scheme \<Rightarrow> ('pt, 'z) kernel_scheme" where
  "printed bytes s = s\<lparr>WRITER := fold byte_written bytes (WRITER s)\<rparr>"

definition demo_kernel :: "(Page \<rightharpoonup> PhysFrame \<times> PageTableFlags) kernel" where
  "demo_kernel = \<lparr>int_flag = False, halted = False, WRITER = demo_writer, writer_locked = False,
     vmem = \<lparr>page_tbl = demo_pt, phys = (\<lambda>a. 0x41)\<rparr>, mapper_ready = True\<rparr>"

lemma fold_writer_ok: "writer_ok w \<Longrightarrow> writer_ok (fold byte_written bs w)"
  by (induction bs arbitrary: w) (simp_all add: byte_written_ok)

lemma printed_ok: "kernel_ok s \<Longrightarrow> kernel_ok (printed bs s)"
  by (simp add: kernel_ok_def printed_def fold_writer_ok)

lemma printed_fields [simp]:
  "vmem (printed bs s) = vmem s" "int_flag (printed bs s) = int_flag s" "halted (printed bs s) = halted s"
  "printed cs (printed bs s) = printed (bs @ cs) s"
  by (simp_all add: printed_def)

lemma env_docsD:
  assumes "env_docs X I L"
  shows "addr_docs X" and "page_docs X" and "translate_docs X" and "irq_docs I" and "lock_docs L"
  using assms by (simp_all add: env_docs_def)

lemma println_kernel:
  assumes "irq_docs I" and "lock_docs L" and "kernel_ok s"
    and "\<forall>b \<in> set msg. 0x20 \<le> b \<and> b \<le> 0x7e"
  shows "println I L [msg] s = Ret (printed (msg @ [0x0a]) s)"
proof -
  have "fold (\<lambda>b. byte_written (sanitize b)) (msg @ [0x0a]) w = fold byte_written (msg @ [0x0a]) w" for w
    using assms(4) by (simp add: sanitize_fold)
  then show ?thesis
    using assms(3) print_eq [OF assms(1,2), of s "[msg, [0x0a]]"]
    by (simp add: println_def printed_def kernel_ok_def)
qed

lemma words_printable:
  "\<forall>b \<in> set (str ''write''). 0x20 \<le> b \<and> b \<le> 0x7e" "\<forall>b \<in> set (str ''read''). 0x20 \<le> b \<and> b \<le> 0x7e"
  by (simp_all add: str_def)

lemma io_write_eq:
  assumes "irq_docs I" and "lock_docs L" and "kernel_ok s"
  shows "io_write I L fd bytes s =
    Ret (Inr (word_of_nat (length bytes)), printed (str ''write'' @ [0x0a] @ bytes) s)"
proof -
  have "kernel_ok (printed (str ''write'' @ [0x0a]) s)" by (rule printed_ok) (rule assms(3))
  then have "print_bytes I L bytes (printed (str ''write'' @ [0x0a]) s) =
      Ret (printed bytes (printed (str ''write'' @ [0x0a]) s))"
    using print_bytes_eq [OF assms(1,2)] by (simp add: kernel_ok_def printed_def)
  then show ?thesis unfolding io_write_def println_kernel [OF assms words_printable(1)] by simp
qed

lemma io_read_eq:
  assumes "irq_docs I" and "lock_docs L" and "kernel_ok s"
  shows "io_read I L fd t s = Ret (Inr (snd t), printed (str ''read'' @ [0x0a]) s)"
  unfolding io_read_def println_kernel [OF assms words_printable(2)] by simp

lemma construct_slice_cases:
  assumes "construct_slice access oc X M ptr bytes = Ret r"
  shows "r = Inl InvalidArgument \<or> r = Inr (ptr, bytes) \<and> bytes \<le> isize_MAX"
proof -
  have "check_user_addr X M a access = Ret (Inl e) \<Longrightarrow> e = InvalidArgument" for a e
    by (cases M; simp add: check_user_addr_eq split: if_splits) (simp add: check_user_addr_def mapper_with_def mapper_def)
  then have "check_user_pages X M access ps = Ret (Inl e) \<Longrightarrow> e = InvalidArgument" for ps e
    by (induction ps) (auto simp: outcome_simps case_eq_Ret)
  then show ?thesis using assms unfolding construct_slice_eq
    by (auto simp: outcome_simps case_eq_Ret not_less split: if_splits)
qed

lemma with_user_slice_cases:
  assumes "with_user_slice oc X M ptr bytes f s = Ret (r, s') \<or> with_user_slice_mut oc X M ptr bytes f s = Ret (r, s')"
  shows "r = Inl InvalidArgument \<and> s' = s \<or> (\<exists>v. r = Inr v \<and> f (ptr, bytes) s = Ret (v, s') \<and> bytes \<le> isize_MAX)"
  using assms construct_slice_cases [of ReadOnly oc X M ptr bytes] construct_slice_cases [of ReadWrite oc X M ptr bytes]
  unfolding with_user_slice_def with_user_slice_mut_def construct_slice_access
  by (auto simp: outcome_simps case_eq_Ret)

lemma try_from_simps:
  "Option.bind (u8_try_from 1) Syscall_try_from = Some Read"
  "Option.bind (u8_try_from 2) Syscall_try_from = Some Write"
  "Option.bind (u8_try_from 3) Syscall_try_from = Some Exit"
  by (simp_all add: u8_try_from_def Syscall_try_from_def)

lemma try_from_None:
  assumes "num \<notin> {1, 2, 3}" shows "Option.bind (u8_try_from num) Syscall_try_from = None"
proof (cases "unat num < 256")
  case True
  have u: "unat (ucast n :: u8) = unat n" if "unat n < 256" for n :: usize
    using that by (simp add: unsigned_ucast_eq take_bit_eq_mod)
  have "num = n" if "ucast num = (ucast n :: u8)" "unat n < 256" for n :: usize
    using u [OF True] u [OF that(2)] that(1) by (simp add: word_unat_eq_iff)
  from this [of 1] this [of 2] this [of 3] assms True show ?thesis
    by (auto simp: u8_try_from_def Syscall_try_from_def)
qed (simp add: u8_try_from_def)

text \<open>An unknown system call number, also one that does not fit a byte, has no effect and returns
  0: the code of \<^verbatim>\<open>Error::NoSys\<close> is the discriminant 0, so the result is not negative and a user
  program cannot tell it from success.\<close>

lemma syscall_unknown:
  "num \<notin> {1, 2, 3} \<Longrightarrow> syscall_handler_inner oc X I L num a0 a1 a2 a3 a4 s = Ret (0, s)"
  using try_from_None [of num] by (simp add: syscall_handler_inner_def syscall_inner_def STRACE_def)

lemma with_slice_exact:
  assumes "env_docs X I L" and "kernel_ok s" and "range_in_half ptr bytes"
  shows "with_user_slice oc X (MAPPER s) ptr bytes f s =
      (if user_range X (page_tbl (vmem s)) ReadOnly ptr bytes
       then obind (f (ptr, bytes) s) (\<lambda>(v, s). Ret (Inr v, s)) else Ret (Inl InvalidArgument, s))"
    and "with_user_slice_mut oc X (MAPPER s) ptr bytes f s =
      (if user_range X (page_tbl (vmem s)) ReadWrite ptr bytes
       then obind (f (ptr, bytes) s) (\<lambda>(v, s). Ret (Inr v, s)) else Ret (Inl InvalidArgument, s))"
  using construct_slice_exact [OF env_docsD(1-3) [OF assms(1)] assms(3)] assms(2)
  by (simp_all add: with_user_slice_def with_user_slice_mut_def construct_slice_access MAPPER_def kernel_ok_def)

lemma with_bytes_exact:
  assumes "range_in_half ptr bytes" and "user_range X (page_tbl (vmem s)) ReadOnly ptr bytes"
  shows "with_bytes X f (ptr, bytes) s = f (user_bytes X (vmem s) ptr bytes) s"
  using vread_slice_eq [of "unat bytes" X "vmem s" ReadOnly ptr] user_range_bytes [OF assms]
  by (simp add: with_bytes_def user_bytes_def)

lemma small_length: "range_in_half ptr bytes \<Longrightarrow> \<not> isize_MAX < bytes"
  using range_in_halfD(3) by (simp add: not_less)

lemma user_bytes_length: "word_of_nat (length (user_bytes X m ptr n)) = n"
  by (simp add: user_bytes_def)

lemma demo_env: "env_docs boot_paging std_irq std_lock" "kernel_ok demo_kernel" "page_tbl (vmem demo_kernel) = demo_pt"
  by (simp_all add: env_docs_def boot_docs std_irq_docs std_lock_docs kernel_ok_def demo_kernel_def demo_writer_ok)

text \<open>System calls are contained: whatever number and arguments a user program passes, a call
  that returns has not changed physical memory, the page table or the interrupt flag, has left
  the console well-formed and its lock free, and a negative result is -1 and means that nothing
  has changed at all.\<close>

lemma call_contained:
  assumes "env_docs X I L" and "kernel_ok s"
    and "syscall_handler_inner oc X I L num a0 a1 a2 a3 a4 s = Ret (v, s')"
  shows "vmem s' = vmem s \<and> int_flag s' = int_flag s \<and> kernel_ok s' \<and> (isize_MAX < v \<longrightarrow> v = -1 \<and> s' = s)"
proof (cases "Option.bind (u8_try_from num) Syscall_try_from")
  case None
  then show ?thesis using assms(2,3)
    by (simp add: syscall_handler_inner_def syscall_inner_def STRACE_def isize_MAX_def)
next
  case (Some c)
  note d = env_docsD [OF assms(1)]
  from assms(3) obtain r where inner: "syscall_inner oc X I L num a0 a1 a2 a3 a4 s = Ret (r, s')"
    and v: "case r of Inr val \<Rightarrow> val \<le> isize_MAX \<and> v = val | Inl e \<Rightarrow> v = - ucast (Error_as_u8 e)"
    unfolding syscall_handler_inner_def by (auto simp: outcome_simps case_eq_Ret Let_def not_less split: if_splits)
  have "r = Inl InvalidArgument \<and> s' = s \<or>
      (\<exists>w b. r = Inr w \<and> s' = printed b s)"
  proof (cases c)
    case Read
    then show ?thesis using inner Some
      by (auto simp: syscall_inner_def STRACE_def outcome_simps case_eq_Ret io_read_eq [OF d(4,5) assms(2)]
          dest!: with_user_slice_cases [OF disjI2])
  next
    case Write
    then show ?thesis using inner Some
      by (auto simp: syscall_inner_def STRACE_def outcome_simps case_eq_Ret with_bytes_def io_write_eq [OF d(4,5) assms(2)]
          dest!: with_user_slice_cases [OF disjI1])
  next
    case Exit
    then show ?thesis using inner Some by (simp add: syscall_inner_def STRACE_def process_exit_def)
  qed
  then show ?thesis using v assms(2) printed_ok by (auto simp: not_less isize_MAX_def)
qed

section \<open>The properties of the component\<close>

text \<open>C12. The system call \<^verbatim>\<open>write\<close> prints user memory and nothing else: for a buffer inside one half of
  the address space that user code may read, the call prints \<^verbatim>\<open>write\<close> on a line and then exactly
  the bytes the page table maps the buffer to, and returns their number; for a buffer with one
  byte user code may not read it returns -1 and changes nothing.\<close>

theorem syscall_write_exact:
  assumes "env_docs X I L" and "kernel_ok s" and "range_in_half ptr len"
  shows "syscall_handler_inner oc X I L 2 fd ptr len a3 a4 s =
    Ret (if user_range X (page_tbl (vmem s)) ReadOnly ptr len
         then (len, printed (str ''write'' @ [0x0a] @ user_bytes X (vmem s) ptr len) s)
         else (-1, s))"
  using small_length [OF assms(3)]
  by (simp add: syscall_handler_inner_def syscall_inner_def STRACE_def try_from_simps with_slice_exact [OF assms]
      with_bytes_exact [OF assms(3)] io_write_eq [OF env_docsD(4,5) [OF assms(1)] assms(2)] user_bytes_length)

theorem syscall_write_exact_witness:
  "syscall_handler_inner True boot_paging std_irq std_lock 2 1 0x1010 16 0 0 demo_kernel =
    Ret (16, printed (str ''write'' @ [0x0a] @ user_bytes boot_paging (vmem demo_kernel) 0x1010 16) demo_kernel)"
  using syscall_write_exact [OF demo_env(1,2) demo_range(1), of True 1 0 0] demo_range(2)
  by (simp add: demo_env(3))

text \<open>C33. The system call \<^verbatim>\<open>read\<close> returns the length of a buffer that user code may write without
  writing anything to it: only the line \<^verbatim>\<open>read\<close> is printed. For a buffer with a byte that user code
  may not write it returns -1 and changes nothing.\<close>

theorem syscall_read_exact:
  assumes "env_docs X I L" and "kernel_ok s" and "range_in_half ptr len"
  shows "syscall_handler_inner oc X I L 1 fd ptr len a3 a4 s =
    Ret (if user_range X (page_tbl (vmem s)) ReadWrite ptr len
         then (len, printed (str ''read'' @ [0x0a]) s) else (-1, s))"
  using small_length [OF assms(3)]
  by (simp add: syscall_handler_inner_def syscall_inner_def STRACE_def try_from_simps with_slice_exact [OF assms]
      io_read_eq [OF env_docsD(4,5) [OF assms(1)] assms(2)])

theorem syscall_read_exact_witness:
  "syscall_handler_inner False boot_paging std_irq std_lock 1 0 0x1010 16 0 0 demo_kernel = Ret (-1, demo_kernel)"
proof -
  have "\<not> user_range boot_paging demo_pt ReadWrite 0x1010 16"
    unfolding user_range_def user_may_def demo_pt_translate
    by (auto simp: align_down_4k_def intro!: exI [of _ "0x1010"])
  then show ?thesis
    using syscall_read_exact [OF demo_env(1,2) demo_range(1), of False 0 0 0] by (simp add: demo_env(3))
qed

text \<open>Exit does not return to the program, whatever its arguments.\<close>

lemma syscall_exit_diverges: "syscall_handler_inner oc X I L 3 a0 a1 a2 a3 a4 s = Diverge"
  by (simp add: syscall_handler_inner_def syscall_inner_def STRACE_def try_from_simps process_exit_def)

end
