(* ===== verification/Bump.thy ===== *)
theory Bump
  imports Zulu_Prelude
begin

unbundle bit_operations_syntax

text \<open>
  \<^verbatim>\<open>kernel/src/allocator/bump.rs\<close> and \<^verbatim>\<open>align_up\<close> of \<^verbatim>\<open>kernel/src/allocator/mod.rs\<close>: the bump
  allocator behind the kernel's heap. The three atomics are a record of words. An atomic
  \<^verbatim>\<open>fetch_add\<close> wraps around in every build; plain \<^verbatim>\<open>+\<close> and \<^verbatim>\<open>-\<close> panic on overflow when the checks
  are on. \<^verbatim>\<open>alloc\<close> is one atomic step; \<^verbatim>\<open>dealloc\<close> is a load followed by a compare-and-exchange,
  and other cores or interrupt handlers may run between the two, which the step relation
  \<open>bump_step\<close> models. The properties: alignment arithmetic, what each operation returns on
  every branch, the round trip of \<^verbatim>\<open>alloc\<close> and \<^verbatim>\<open>dealloc\<close>, disjointness of the live blocks under
  every interleaving, and the ways in which \<^verbatim>\<open>alloc\<close> falls short of the contract of
  \<^verbatim>\<open>GlobalAlloc\<close>.
\<close>

section \<open>Layouts\<close>

text \<open>\<^verbatim>\<open>core::alloc::Layout\<close>.\<close>

record Layout =
  layout_size :: usize
  layout_align :: usize

definition round_up :: "nat \<Rightarrow> nat \<Rightarrow> nat" where
  "round_up n a = (n + a - 1) div a * a"

definition rounded :: "Layout \<Rightarrow> usize" where
  "rounded l = word_of_nat (round_up (unat (layout_size l)) (unat (layout_align l)))"

text \<open>
  What the type guarantees: the alignment is a power of two, and the size rounded up to it does
  not exceed \<^verbatim>\<open>isize::MAX\<close>.
\<close>

definition layout_ok :: "Layout \<Rightarrow> bool" where
  "layout_ok l \<longleftrightarrow> (\<exists>k < 64. unat (layout_align l) = 2 ^ k) \<and>
     round_up (unat (layout_size l)) (unat (layout_align l)) < 2 ^ 63"

section \<open>The allocator\<close>

record BumpAllocator =
  heap_start :: usize
  heap_end :: usize
  next_ptr :: usize  \<comment> \<open>the field \<^verbatim>\<open>next\<close>\<close>

definition BumpAllocator_new :: BumpAllocator where
  "BumpAllocator_new = \<lparr>heap_start = 0, heap_end = 0, next_ptr = 0\<rparr>"

definition bump_init :: "bool \<Rightarrow> usize \<Rightarrow> usize \<Rightarrow> BumpAllocator \<Rightarrow> BumpAllocator outcome" where
  "bump_init oc start len b =
     (let b = b\<lparr>heap_start := start\<rparr> in
      obind (add_chk oc start len) (\<lambda>e.
      let b = b\<lparr>heap_end := e\<rparr>;
          b = b\<lparr>next_ptr := start\<rparr>
      in Ret b))"

definition align_up :: "bool \<Rightarrow> usize \<Rightarrow> usize \<Rightarrow> usize outcome" where
  "align_up oc value align =
     obind (add_chk oc value align) (\<lambda>x.
     obind (sub_chk oc x 1) (\<lambda>x.
     obind (sub_chk oc align 1) (\<lambda>m.
     Ret (x AND NOT m))))"

text \<open>
  \<^verbatim>\<open>alloc\<close> returns a pointer, \<open>0\<close> being \<^verbatim>\<open>null_mut()\<close>; the bump of \<^verbatim>\<open>next\<close> happens before the
  bounds check and is not taken back when the check fails.
\<close>

definition bump_alloc :: "bool \<Rightarrow> Layout \<Rightarrow> BumpAllocator \<Rightarrow> (usize \<times> BumpAllocator) outcome" where
  "bump_alloc oc layout b =
     obind (align_up oc (layout_size layout) (layout_align layout)) (\<lambda>size.
     let new_ptr = next_ptr b;
         b = b\<lparr>next_ptr := next_ptr b + size\<rparr>
     in Ret (if heap_end b < new_ptr then 0 else new_ptr, b))"

text \<open>
  \<^verbatim>\<open>dealloc\<close> in its two atomic parts: what the load decides (the value to expect and the new one,
  if the block is the last), and the exchange.
\<close>

definition dealloc_load :: "bool \<Rightarrow> usize \<Rightarrow> Layout \<Rightarrow> BumpAllocator \<Rightarrow> (usize \<times> usize) option outcome" where
  "dealloc_load oc ptr layout b =
     obind (align_up oc (layout_size layout) (layout_align layout)) (\<lambda>size.
     let current_ptr = next_ptr b in
     obind (add_chk oc ptr size) (\<lambda>e.
     if e = current_ptr
     then obind (sub_chk oc current_ptr size) (\<lambda>n. Ret (Some (current_ptr, n)))
     else Ret None))"

definition dealloc_exchange :: "(usize \<times> usize) option \<Rightarrow> BumpAllocator \<Rightarrow> BumpAllocator" where
  "dealloc_exchange x b = (case x of None \<Rightarrow> b
     | Some (current_ptr, n) \<Rightarrow> if next_ptr b = current_ptr then b\<lparr>next_ptr := n\<rparr> else b)"

definition bump_dealloc :: "bool \<Rightarrow> usize \<Rightarrow> Layout \<Rightarrow> BumpAllocator \<Rightarrow> BumpAllocator outcome" where
  "bump_dealloc oc ptr layout b =
     obind (dealloc_load oc ptr layout b) (\<lambda>x. Ret (dealloc_exchange x b))"

text \<open>The heap of the kernel.\<close>

definition HEAP_START :: usize where
  "HEAP_START = 0x444444440000"

definition HEAP_SIZE :: usize where
  "HEAP_SIZE = 100 * 1024"

definition kernel_heap :: BumpAllocator where
  "kernel_heap = \<lparr>heap_start = HEAP_START, heap_end = HEAP_START + HEAP_SIZE, next_ptr = HEAP_START\<rparr>"

text \<open>A sequence of allocations, for the properties about successive calls.\<close>

fun alloc_all :: "bool \<Rightarrow> Layout list \<Rightarrow> BumpAllocator \<Rightarrow> (usize list \<times> BumpAllocator) outcome" where
  "alloc_all oc [] b = Ret ([], b)"
| "alloc_all oc (l # ls) b =
     obind (bump_alloc oc l b) (\<lambda>(p, b). obind (alloc_all oc ls b) (\<lambda>(ps, b). Ret (p # ps, b)))"

section \<open>Interleaved use\<close>

text \<open>
  The blocks handed out and not yet given back, by start address, with their size; a block is
  live, or its \<^verbatim>\<open>dealloc\<close> has loaded \<^verbatim>\<open>next\<close> and the exchange is pending. The steps may be taken
  by any core or handler at any moment.
\<close>

datatype phase = Live | Freeing usize usize

record heap =
  bump :: BumpAllocator
  blocks :: "usize \<rightharpoonup> usize \<times> phase"

text \<open>
  A step of \<^verbatim>\<open>alloc\<close> is considered while \<^verbatim>\<open>next\<close> does not wrap around. The caller passes a
  layout of non-zero size, and gives a block back once, with its layout, as \<^verbatim>\<open>GlobalAlloc\<close>
  demands.
\<close>

inductive bump_step :: "bool \<Rightarrow> heap \<Rightarrow> heap \<Rightarrow> bool" for oc :: bool where
  step_alloc: "layout_ok l \<Longrightarrow> 0 < layout_size l \<Longrightarrow> align_up oc (layout_size l) (layout_align l) = Ret sz \<Longrightarrow>
     unat (next_ptr (bump s)) + unat sz < 2 ^ 64 \<Longrightarrow>
     bump_alloc oc l (bump s) = Ret (p, b) \<Longrightarrow>
     bump_step oc s (s\<lparr>bump := b, blocks := (if p = 0 then blocks s else (blocks s)(p \<mapsto> (sz, Live)))\<rparr>)"
| step_load: "blocks s p = Some (sz, Live) \<Longrightarrow> layout_ok l \<Longrightarrow>
     align_up oc (layout_size l) (layout_align l) = Ret sz \<Longrightarrow>
     dealloc_load oc p l (bump s) = Ret x \<Longrightarrow>
     bump_step oc s (s\<lparr>blocks := (blocks s)(p := (case x of None \<Rightarrow> None
       | Some (c, n) \<Rightarrow> Some (sz, Freeing c n)))\<rparr>)"
| step_exchange: "blocks s p = Some (sz, Freeing c n) \<Longrightarrow>
     bump_step oc s (s\<lparr>bump := dealloc_exchange (Some (c, n)) (bump s), blocks := (blocks s)(p := None)\<rparr>)"

definition heap_ready :: "usize \<Rightarrow> usize \<Rightarrow> heap \<Rightarrow> bool" where
  "heap_ready start len s \<longleftrightarrow> 0 < start \<and> unat start + unat len < 2 ^ 64 \<and>
     bump s = \<lparr>heap_start = start, heap_end = start + len, next_ptr = start\<rparr> \<and> blocks s = Map.empty"

definition block_range :: "usize \<Rightarrow> usize \<Rightarrow> nat set" where
  "block_range p sz = {unat p ..< unat p + unat sz}"

definition block_ok :: "usize \<Rightarrow> usize \<Rightarrow> nat \<Rightarrow> usize \<Rightarrow> usize \<times> phase \<Rightarrow> bool" where
  "block_ok start len hi p blk \<longleftrightarrow>
     0 < fst blk \<and> start \<le> p \<and> p \<le> start + len \<and> unat p + unat (fst blk) \<le> hi \<and>
     (\<forall>c n. snd blk = Freeing c n \<longrightarrow> unat c = unat p + unat (fst blk) \<and> n = p)"

definition blocks_apart :: "(usize \<rightharpoonup> usize \<times> phase) \<Rightarrow> bool" where
  "blocks_apart m \<longleftrightarrow> (\<forall>p q x y. p \<noteq> q \<longrightarrow> m p = Some x \<longrightarrow> m q = Some y \<longrightarrow>
     block_range p (fst x) \<inter> block_range q (fst y) = {})"

definition heap_inv :: "usize \<Rightarrow> usize \<Rightarrow> heap \<Rightarrow> bool" where
  "heap_inv start len s \<longleftrightarrow>
     heap_start (bump s) = start \<and> heap_end (bump s) = start + len \<and> 0 < start \<and>
     start \<le> next_ptr (bump s) \<and>
     (\<forall>p x. blocks s p = Some x \<longrightarrow> block_ok start len (unat (next_ptr (bump s))) p x) \<and>
     blocks_apart (blocks s)"

text \<open>Two blocks in use on the kernel heap, for examples.\<close>

definition two_blocks :: heap where
  "two_blocks = \<lparr>bump = kernel_heap\<lparr>next_ptr := HEAP_START + 16\<rparr>,
     blocks = [HEAP_START \<mapsto> (8, Live), HEAP_START + 8 \<mapsto> (8, Live)]\<rparr>"

section \<open>Alignment arithmetic\<close>

lemma round_up_ge: "0 < a \<Longrightarrow> n \<le> round_up n a"
proof -
  assume a: "0 < a"
  have "(n + a - 1) mod a < a" using a by simp
  moreover have "(n + a - 1) div a * a + (n + a - 1) mod a = n + a - 1" by simp
  ultimately show ?thesis using a unfolding round_up_def by linarith
qed

lemma round_up_dvd: "a dvd round_up n a"
  by (simp add: round_up_def)

lemma round_up_least: "0 < a \<Longrightarrow> a dvd m \<Longrightarrow> n \<le> m \<Longrightarrow> round_up n a \<le> m"
proof -
  assume a: "0 < a" and "a dvd m" and "n \<le> m"
  then obtain q where m: "m = a * q" by blast
  have "n + a - 1 < a * Suc q" using a \<open>n \<le> m\<close> m by simp
  then have "(n + a - 1) div a < Suc q" using a by (simp add: less_mult_imp_div_less mult.commute)
  then show ?thesis unfolding round_up_def m using a by (simp add: mult.commute)
qed

lemma layout_align_pos: "layout_ok l \<Longrightarrow> 0 < unat (layout_align l)"
  by (auto simp: layout_ok_def)

lemma layout_sum_fits:
  assumes "layout_ok l"
  shows "unat (layout_size l) + unat (layout_align l) < 2 ^ 64" and "unat (layout_size l) < 2 ^ 63"
proof -
  obtain k where k: "k < 64" "unat (layout_align l) = 2 ^ k"
    using assms by (auto simp: layout_ok_def)
  have "unat (layout_size l) \<le> round_up (unat (layout_size l)) (unat (layout_align l))"
    using assms by (simp add: layout_align_pos round_up_ge)
  then show s: "unat (layout_size l) < 2 ^ 63" using assms by (simp add: layout_ok_def)
  have "(2::nat) ^ k \<le> 2 ^ 63" using k by (intro power_increasing) auto
  with s k show "unat (layout_size l) + unat (layout_align l) < 2 ^ 64" by simp
qed

text \<open>For every layout \<open>align_up\<close> returns, under both profiles, and rounds the size up.\<close>

lemma unat_rounded:
  "layout_ok l \<Longrightarrow> unat (rounded l) = round_up (unat (layout_size l)) (unat (layout_align l))"
  by (simp add: rounded_def layout_ok_def unsigned_of_nat take_bit_nat_eq_self)

lemma align_up_layout:
  assumes "layout_ok l"
  shows "align_up oc (layout_size l) (layout_align l) = Ret (rounded l)"
proof -
  let ?v = "layout_size l" and ?a = "layout_align l"
  obtain k where k: "unat ?a = 2 ^ k" using assms by (auto simp: layout_ok_def)
  have pos: "0 < unat ?a" using assms by (rule layout_align_pos)
  note fits = layout_sum_fits(1) [OF assms]
  have sum: "unat (?v + ?a) = unat ?v + unat ?a" using fits by (simp add: unat_add_fits)
  have sub: "unat (?v + ?a - 1) = unat ?v + unat ?a - 1"
    using pos sum by (simp add: unat_sub_fits)
  have "?a - 1 = mask k" using word_eq_exp [OF k] by (simp add: mask_eq_exp_minus_1)
  then have "unat ((?v + ?a - 1) AND NOT (?a - 1)) = unat (rounded l)"
    by (simp add: unat_and_not_mask sub k round_up_def unat_rounded [OF assms])
  then have "(?v + ?a - 1) AND NOT (?a - 1) = rounded l" by (rule unsigned_word_eqI)
  moreover have "align_up oc ?v ?a = Ret ((?v + ?a - 1) AND NOT (?a - 1))"
    using fits pos sum by (simp add: align_up_def add_chk_def sub_chk_def)
  ultimately show ?thesis by simp
qed

lemma rounded_pos: "layout_ok l \<Longrightarrow> 0 < layout_size l \<Longrightarrow> 0 < rounded l"
  using round_up_ge [of "unat (layout_align l)" "unat (layout_size l)"]
  by (simp add: word_less_nat_alt unat_rounded layout_align_pos)

section \<open>The operations on every branch\<close>

lemma bump_alloc_layout:
  "layout_ok l \<Longrightarrow> bump_alloc oc l b =
    Ret (if heap_end b < next_ptr b then 0 else next_ptr b, b\<lparr>next_ptr := next_ptr b + rounded l\<rparr>)"
  by (simp add: bump_alloc_def align_up_layout Let_def)

lemma dealloc_load_layout:
  assumes "layout_ok l" and "unat p + unat (rounded l) < 2 ^ 64"
  shows "dealloc_load oc p l b =
    Ret (if p + rounded l = next_ptr b then Some (next_ptr b, p) else None)"
proof -
  have "unat (p + rounded l) = unat p + unat (rounded l)"
    using assms(2) by (simp add: unat_add_fits)
  then show ?thesis
    using assms by (auto simp: dealloc_load_def align_up_layout add_chk_def sub_chk_def Let_def diff_eq_eq)
qed

lemma bump_dealloc_layout:
  assumes "layout_ok l" and "unat p + unat (rounded l) < 2 ^ 64"
  shows "bump_dealloc oc p l b =
    Ret (if p + rounded l = next_ptr b then b\<lparr>next_ptr := p\<rparr> else b)"
  by (simp add: bump_dealloc_def dealloc_load_layout [OF assms] dealloc_exchange_def)

section \<open>Every interleaving keeps the blocks apart\<close>

lemma block_range_disjoint:
  "block_range p m \<inter> block_range q n = {} \<longleftrightarrow>
     m = 0 \<or> n = 0 \<or> unat p + unat m \<le> unat q \<or> unat q + unat n \<le> unat p"
proof -
  have "m \<noteq> 0 \<longleftrightarrow> 0 < unat m" "n \<noteq> 0 \<longleftrightarrow> 0 < unat n" by (simp_all add: unat_gt_0)
  then show ?thesis by (auto simp: block_range_def ivl_disj_un disjoint_iff)
qed

lemma block_ok_mono: "block_ok start len hi p x \<Longrightarrow> hi \<le> hi' \<Longrightarrow> block_ok start len hi' p x"
  by (auto simp: block_ok_def)

lemma heap_inv_block:
  "heap_inv start len s \<Longrightarrow> blocks s q = Some x \<Longrightarrow> block_ok start len (unat (next_ptr (bump s))) q x"
  unfolding heap_inv_def by blast

lemma heap_inv_apart:
  "heap_inv start len s \<Longrightarrow> p \<noteq> q \<Longrightarrow> blocks s p = Some x \<Longrightarrow> blocks s q = Some y \<Longrightarrow>
    block_range p (fst x) \<inter> block_range q (fst y) = {}"
  unfolding heap_inv_def blocks_apart_def by blast

lemma blocks_apart_upd:
  assumes "blocks_apart m"
    and "\<And>q y. q \<noteq> p \<Longrightarrow> m q = Some y \<Longrightarrow> block_range p (fst x) \<inter> block_range q (fst y) = {}"
  shows "blocks_apart (m(p \<mapsto> x))"
  unfolding blocks_apart_def
proof (intro allI impI)
  fix a b u v
  assume "a \<noteq> b" and "(m(p \<mapsto> x)) a = Some u" and "(m(p \<mapsto> x)) b = Some v"
  then show "block_range a (fst u) \<inter> block_range b (fst v) = {}"
    using assms(2) [of a u] assms(2) [of b v] assms(1) [unfolded blocks_apart_def, rule_format, of a b u v]
    by (cases "a = p"; cases "b = p") (simp_all add: Int_commute)
qed

lemma blocks_apart_del: "blocks_apart m \<Longrightarrow> blocks_apart (m(p := None))"
  by (simp add: blocks_apart_def)

lemma heap_inv_alloc:
  assumes "heap_inv start len s" and "layout_ok l" and "0 < layout_size l"
    and "unat (next_ptr (bump s)) + unat (rounded l) < 2 ^ 64"
    and "bump_alloc oc l (bump s) = Ret (p, b)"
  shows "heap_inv start len
    (s\<lparr>bump := b, blocks := (if p = 0 then blocks s else (blocks s)(p \<mapsto> (rounded l, Live)))\<rparr>)"
proof -
  let ?n = "next_ptr (bump s)"
  have b: "b = (bump s)\<lparr>next_ptr := ?n + rounded l\<rparr>"
    and p: "p = 0 \<or> p = ?n \<and> \<not> heap_end (bump s) < ?n"
    using assms(5) by (auto simp: bump_alloc_layout [OF assms(2)] split: if_splits)
  have n: "unat (?n + rounded l) = unat ?n + unat (rounded l)" using assms(4) by (simp add: unat_add_fits)
  have start: "start \<le> ?n" using assms(1) by (simp add: heap_inv_def)
  then have grown: "start \<le> ?n + rounded l" using n by (simp add: word_le_nat_alt)
  have old: "block_ok start len (unat ?n) q x" if "blocks s q = Some x" for q x
    using assms(1) that by (rule heap_inv_block)
  then have kept: "block_ok start len (unat (?n + rounded l)) q x" if "blocks s q = Some x" for q x
    using block_ok_mono [OF old [OF that]] n by simp
  show ?thesis
  proof (cases "p = 0")
    case True
    with assms(1) kept grown show ?thesis by (simp add: heap_inv_def b)
  next
    case False
    with p assms(1) have p: "p = ?n" "?n \<le> start + len" by (auto simp: heap_inv_def)
    have "block_ok start len (unat (?n + rounded l)) ?n (rounded l, Live)"
      using start p rounded_pos [OF assms(2,3)] n by (simp add: block_ok_def)
    moreover have "block_range ?n (rounded l) \<inter> block_range q (fst x) = {}" if "blocks s q = Some x" for q x
      using old [OF that] by (simp add: block_range_disjoint block_ok_def)
    then have "blocks_apart ((blocks s)(?n \<mapsto> (rounded l, Live)))"
      using assms(1) by (intro blocks_apart_upd) (simp_all add: heap_inv_def)
    ultimately show ?thesis
      using assms(1) kept grown False p(1) by (auto simp: heap_inv_def b)
  qed
qed

lemma heap_inv_load:
  assumes "heap_inv start len s" and "blocks s p = Some (sz, Live)" and "layout_ok l"
    and "rounded l = sz" and "dealloc_load oc p l (bump s) = Ret x"
  shows "heap_inv start len (s\<lparr>blocks := (blocks s)(p := (case x of None \<Rightarrow> None
       | Some (c, n) \<Rightarrow> Some (sz, Freeing c n)))\<rparr>)"
proof -
  let ?n = "next_ptr (bump s)"
  have ok: "block_ok start len (unat ?n) p (sz, Live)" using assms(1,2) by (simp add: heap_inv_def)
  have lt: "unat p + unat sz < 2 ^ 64"
    using ok unat_u64 [of ?n] by (simp add: block_ok_def)
  have x: "x = (if p + sz = ?n then Some (?n, p) else None)"
    using assms(5) dealloc_load_layout [OF assms(3), of p oc "bump s"] lt assms(4)
    by (auto split: if_splits)
  show ?thesis
  proof (cases "p + sz = ?n")
    case True
    have "unat ?n = unat p + unat sz" using lt True unat_add_fits [of p sz] by simp
    with ok have "block_ok start len (unat ?n) p (sz, Freeing ?n p)" by (simp add: block_ok_def)
    moreover have "blocks_apart ((blocks s)(p \<mapsto> (sz, Freeing ?n p)))"
      using assms(1) heap_inv_apart [OF assms(1) _ assms(2)]
      by (intro blocks_apart_upd) (auto simp: heap_inv_def)
    ultimately show ?thesis using assms(1) x True by (simp add: heap_inv_def)
  next
    case False
    with assms(1) x show ?thesis by (simp add: heap_inv_def blocks_apart_del)
  qed
qed

lemma heap_inv_exchange:
  assumes "heap_inv start len s" and "blocks s p = Some (sz, Freeing c n)"
  shows "heap_inv start len (s\<lparr>bump := dealloc_exchange (Some (c, n)) (bump s), blocks := (blocks s)(p := None)\<rparr>)"
proof (cases "next_ptr (bump s) = c")
  case True
  have "block_ok start len (unat c) p (sz, Freeing c n)"
    using assms True by (simp add: heap_inv_def)
  then have p: "0 < sz" "start \<le> p" "unat c = unat p + unat sz" "n = p" by (simp_all add: block_ok_def)
  have "block_ok start len (unat p) q x" if "blocks s q = Some x" and "q \<noteq> p" for q x
  proof -
    have "block_ok start len (unat c) q x" "block_range p sz \<inter> block_range q (fst x) = {}"
      using heap_inv_block [OF assms(1) that(1)] heap_inv_apart [OF assms(1) _ assms(2) that(1)] that(2) True
      by auto
    then show ?thesis using p by (auto simp: block_range_disjoint block_ok_def word_less_nat_alt)
  qed
  with p assms True show ?thesis
    by (simp add: heap_inv_def dealloc_exchange_def blocks_apart_del)
next
  case False
  with assms show ?thesis by (simp add: heap_inv_def dealloc_exchange_def blocks_apart_del)
qed

lemma heap_inv_step:
  assumes "heap_inv start len s" and "bump_step oc s t"
  shows "heap_inv start len t"
  using assms(2)
proof cases
  case (step_alloc l sz p b)
  then have "sz = rounded l" by (simp add: align_up_layout)
  with step_alloc assms(1) show ?thesis by (metis heap_inv_alloc)
next
  case (step_load p sz l x)
  then have "sz = rounded l" by (simp add: align_up_layout)
  with step_load assms(1) show ?thesis by (metis heap_inv_load)
next
  case (step_exchange p sz c n)
  with assms(1) show ?thesis by (simp add: heap_inv_exchange)
qed

interpretation bump_heap: inductive_invariant "heap_ready start len" "bump_step oc" "heap_inv start len"
  for start len oc
proof
  show "heap_inv start len s" if "heap_ready start len s" for s
    using that by (simp add: heap_ready_def heap_inv_def blocks_apart_def)
qed (rule heap_inv_step)

section \<open>The properties of the component\<close>

lemma pow2_layout: "k < 64 \<Longrightarrow> unat a = 2 ^ k \<Longrightarrow> round_up (unat n) (2 ^ k) < 2 ^ 63 \<Longrightarrow>
  layout_ok \<lparr>layout_size = n, layout_align = a\<rparr>"
  by (auto simp: layout_ok_def)

lemma layout_examples:
  "layout_ok \<lparr>layout_size = 13, layout_align = 8\<rparr>" "layout_ok \<lparr>layout_size = 8, layout_align = 8\<rparr>"
  "layout_ok \<lparr>layout_size = 1, layout_align = 1\<rparr>" "layout_ok \<lparr>layout_size = 200000, layout_align = 16\<rparr>"
  "layout_ok \<lparr>layout_size = 0x4000000000000000, layout_align = 1\<rparr>"
  by (rule pow2_layout [of 3] pow2_layout [of 0] pow2_layout [of 4]; simp add: round_up_def)+

lemma kernel_heap_init: "bump_init oc HEAP_START HEAP_SIZE BumpAllocator_new = Ret kernel_heap"
  by (simp add: bump_init_def add_chk_def BumpAllocator_new_def kernel_heap_def HEAP_START_def HEAP_SIZE_def)

text \<open>\<^verbatim>\<open>align_up\<close> is correct on every layout Rust can build, with overflow checks on or off: it
  returns, without panic or wrap-around, the least multiple of the alignment that is not below
  the size.\<close>

lemma align_up_correct:
  assumes "layout_ok l"
  shows "\<exists>sz. align_up oc (layout_size l) (layout_align l) = Ret sz \<and>
    unat (layout_align l) dvd unat sz \<and> unat (layout_size l) \<le> unat sz \<and>
    (\<forall>m. unat (layout_align l) dvd m \<longrightarrow> unat (layout_size l) \<le> m \<longrightarrow> unat sz \<le> m)"
  using assms layout_align_pos [OF assms]
  by (auto simp: align_up_layout unat_rounded round_up_dvd round_up_ge round_up_least)

text \<open>C27. Freeing the block just allocated undoes the allocation: when \<^verbatim>\<open>next\<close> is within the heap
  and does not wrap around, \<^verbatim>\<open>alloc\<close> followed by \<^verbatim>\<open>dealloc\<close> of the returned pointer with the same
  layout leaves the allocator as it was.\<close>

theorem alloc_dealloc_roundtrip:
  assumes "layout_ok l" and "next_ptr b \<le> heap_end b" and "unat (next_ptr b) + unat (rounded l) < 2 ^ 64"
  shows "obind (bump_alloc oc l b) (\<lambda>(p, b'). bump_dealloc oc p l b') = Ret b"
  using assms by (simp add: bump_alloc_layout bump_dealloc_layout not_less [symmetric])

theorem alloc_dealloc_roundtrip_witness:
  "obind (bump_alloc True \<lparr>layout_size = 13, layout_align = 8\<rparr> kernel_heap)
     (\<lambda>(p, b'). bump_dealloc True p \<lparr>layout_size = 13, layout_align = 8\<rparr> b') = Ret kernel_heap"
  by (rule alloc_dealloc_roundtrip [OF layout_examples(1)])
     (simp_all add: kernel_heap_def HEAP_START_def HEAP_SIZE_def unat_rounded [OF layout_examples(1)] round_up_def)

text \<open>A block that is not the last one is leaked, never corrupts the allocator: \<^verbatim>\<open>dealloc\<close> of a
  block that does not end at \<^verbatim>\<open>next\<close> returns and changes nothing.\<close>

lemma dealloc_inner_block_noop:
  assumes "layout_ok l" and "unat p + unat (rounded l) < 2 ^ 64"
    and "unat p + unat (rounded l) \<noteq> unat (next_ptr b)"
  shows "bump_dealloc oc p l b = Ret b"
  using assms unat_add_fits [of p "rounded l"] by (auto simp: bump_dealloc_layout)

text \<open>C4. Memory safety under every interleaving: in any state reachable from a fresh heap by
  steps of \<^verbatim>\<open>alloc\<close>, of the load of a \<^verbatim>\<open>dealloc\<close> and of its compare-and-exchange, taken in any
  order by any number of cores or handlers (as long as \<^verbatim>\<open>next\<close> does not wrap around), two
  different blocks in use never overlap, and each starts within the heap and ends below \<^verbatim>\<open>next\<close>.
  In particular the exchange of a delayed \<^verbatim>\<open>dealloc\<close> never gives away a block someone else holds.\<close>

theorem live_blocks_disjoint:
  assumes "reach (heap_ready start len) (bump_step oc) s"
    and "blocks s p = Some (m, ph)" and "blocks s q = Some (n, ph')" and "p \<noteq> q"
  shows "block_range p m \<inter> block_range q n = {} \<and> start \<le> p \<and> p \<le> heap_end (bump s) \<and>
    unat p + unat m \<le> unat (next_ptr (bump s))"
proof -
  have inv: "heap_inv start len s" using assms(1) by (rule bump_heap.inv_reach)
  then have "heap_end (bump s) = start + len" by (simp add: heap_inv_def)
  then show ?thesis
    using heap_inv_block [OF inv assms(2)] heap_inv_apart [OF inv assms(4,2,3)]
    by (simp add: block_ok_def)
qed

lemma two_blocks_reachable: "reach (heap_ready HEAP_START HEAP_SIZE) (bump_step oc) two_blocks"
proof -
  let ?l = "\<lparr>layout_size = 8, layout_align = 8\<rparr>"
  let ?s0 = "\<lparr>bump = kernel_heap, blocks = Map.empty\<rparr>"
  let ?s1 = "\<lparr>bump = kernel_heap\<lparr>next_ptr := HEAP_START + 8\<rparr>, blocks = [HEAP_START \<mapsto> (8, Live)]\<rparr>"
  note l = layout_examples(2)
  have r: "rounded ?l = 8" by (simp add: rounded_def round_up_def)
  note up = align_up_layout [OF l, unfolded r]
  note al = bump_alloc_layout [OF l, unfolded r]
  have "reach (heap_ready HEAP_START HEAP_SIZE) (bump_step oc) ?s0"
    by (rule reach.reach_init) (simp add: heap_ready_def kernel_heap_def HEAP_START_def HEAP_SIZE_def)
  moreover have "bump_step oc ?s0 ?s1"
    using bump_step.step_alloc [OF l _ up, where s = ?s0 and p = HEAP_START and
      b = "kernel_heap\<lparr>next_ptr := HEAP_START + 8\<rparr>"]
    by (simp add: al kernel_heap_def HEAP_START_def HEAP_SIZE_def)
  moreover have "bump_step oc ?s1 two_blocks"
    using bump_step.step_alloc [OF l _ up, where s = ?s1 and p = "HEAP_START + 8" and
      b = "kernel_heap\<lparr>next_ptr := HEAP_START + 16\<rparr>"]
    by (simp add: al two_blocks_def kernel_heap_def HEAP_START_def HEAP_SIZE_def)
  ultimately show ?thesis by (blast intro: reach.reach_step)
qed

theorem live_blocks_disjoint_witness:
  "block_range HEAP_START 8 \<inter> block_range (HEAP_START + 8) 8 = {} \<and> blocks two_blocks HEAP_START = Some (8, Live)"
  using live_blocks_disjoint [OF two_blocks_reachable [of True],
    where p = HEAP_START and m = 8 and ph = Live and q = "HEAP_START + 8" and n = 8 and ph' = Live]
  by (simp add: two_blocks_def)

text \<open>Alignment holds when all requests agree on it: if \<^verbatim>\<open>next\<close> is a multiple of an alignment
  and every layout in a sequence of allocations has that alignment, then every pointer returned
  is a multiple of it (null included), whatever the sizes and even across wrap-around.\<close>

lemma uniform_alignment:
  assumes "\<forall>l \<in> set ls. layout_ok l \<and> layout_align l = a" and "unat a dvd unat (next_ptr b)"
    and "alloc_all oc ls b = Ret (ps, b')"
  shows "\<forall>p \<in> set ps. unat a dvd unat p"
  using assms
proof (induction ls arbitrary: b ps)
  case (Cons l ls)
  then have l: "layout_ok l" "layout_align l = a" by auto
  then obtain k where k: "k < 64" "unat a = 2 ^ k" by (auto simp: layout_ok_def)
  have "unat a dvd 2 ^ 64" using k by (simp add: le_imp_power_dvd del: power_numeral)
  moreover have "unat a dvd unat (next_ptr b) + unat (rounded l)"
    using Cons.prems(2) l round_up_dvd [of "unat a"] by (simp add: unat_rounded)
  ultimately have "unat a dvd unat (next_ptr b + rounded l)"
    by (simp add: unat_word_ariths dvd_mod)
  with Cons.IH [of "b\<lparr>next_ptr := next_ptr b + rounded l\<rparr>"] Cons.prems l show ?case
    by (auto simp: bump_alloc_layout outcome_simps split: if_splits)
qed simp

text \<open>C28. \<^verbatim>\<open>alloc\<close> compares the start of the new block with the end of the heap and not its end:
  on the freshly initialised kernel heap every request, of whatever size, returns the
  non-null pointer \<^verbatim>\<open>HEAP_START\<close>; a request larger than the heap is handed memory past its end
  where \<^verbatim>\<open>GlobalAlloc\<close> demands null.\<close>

theorem alloc_exceeds_heap:
  assumes "layout_ok l" and "HEAP_SIZE < layout_size l"
  shows "\<exists>b b'. bump_init oc HEAP_START HEAP_SIZE BumpAllocator_new = Ret b \<and>
    bump_alloc oc l b = Ret (HEAP_START, b') \<and> HEAP_START \<noteq> 0 \<and>
    unat (heap_end b) < unat HEAP_START + unat (layout_size l)"
  using assms
  by (simp add: kernel_heap_init bump_alloc_layout)
     (simp add: kernel_heap_def HEAP_START_def HEAP_SIZE_def word_less_nat_alt)

theorem alloc_exceeds_heap_witness:
  "\<exists>b b'. bump_init False HEAP_START HEAP_SIZE BumpAllocator_new = Ret b \<and>
    bump_alloc False \<lparr>layout_size = 200000, layout_align = 16\<rparr> b = Ret (HEAP_START, b') \<and> HEAP_START \<noteq> 0 \<and>
    unat (heap_end b) < unat HEAP_START + 200000"
  using alloc_exceeds_heap [OF layout_examples(4), of False] by (simp add: HEAP_SIZE_def)

text \<open>\<^verbatim>\<open>alloc\<close> rounds the size of a block and not its address: after a one-byte allocation the
  kernel heap returns, for a layout of alignment 8, a pointer that is not a multiple of 8.\<close>

lemma alloc_misaligned:
  "\<exists>b. alloc_all oc [\<lparr>layout_size = 1, layout_align = 1\<rparr>, \<lparr>layout_size = 8, layout_align = 8\<rparr>] kernel_heap
     = Ret ([HEAP_START, HEAP_START + 1], b) \<and> \<not> 8 dvd unat (HEAP_START + 1)"
  by (simp add: bump_alloc_layout layout_examples)
     (simp add: kernel_heap_def rounded_def round_up_def HEAP_START_def HEAP_SIZE_def)

text \<open>A failed allocation still advances \<^verbatim>\<open>next\<close>, and \<^verbatim>\<open>fetch_add\<close> wraps around: four requests of
  $2^{62}$ bytes, three of them refused, bring \<^verbatim>\<open>next\<close> back to where it was, and the fifth request
  returns the very pointer the first one returned, while the first block is still in use.\<close>

lemma alloc_wraps_to_same_block:
  "\<exists>b. alloc_all oc (replicate 5 \<lparr>layout_size = 0x4000000000000000, layout_align = 1\<rparr>) kernel_heap
     = Ret ([HEAP_START, 0, 0, 0, HEAP_START], b)"
  by (simp add: numeral_eq_Suc bump_alloc_layout layout_examples)
     (simp add: kernel_heap_def rounded_def round_up_def HEAP_START_def HEAP_SIZE_def)

end
