(* ===== verification/Entry.thy ===== *)
theory Entry
  imports Cpu Syscalls Bump
begin

text \<open>
  Entering and leaving the kernel: the assembly of \<^verbatim>\<open>syscall_handler\<close>
  (\<^verbatim>\<open>kernel/src/syscall/handler.rs\<close>), of the \<^verbatim>\<open>syscall_N\<close> functions of the user library
  (\<^verbatim>\<open>syscall/src/lib.rs\<close>), of \<^verbatim>\<open>enter_user_mode\<close> (\<^verbatim>\<open>kernel/src/main.rs\<close>) and of
  \<^verbatim>\<open>breakpoint_handler\<close> (\<^verbatim>\<open>kernel/src/interrupts.rs\<close>), and the thread data in GS they rely on
  (\<^verbatim>\<open>kernel/src/syscall/mod.rs\<close>). The properties: a system call comes back to the instruction
  after it with the stack, the flags and the preserved registers of the program, with the
  handler's result in \<^verbatim>\<open>rax\<close>, and with the kernel ready for the next call; entering user mode
  makes it ready for the first one.
\<close>

section \<open>Thread data\<close>

text \<open>
  \<^verbatim>\<open>Option<NonZeroU64>\<close> is stored as one word, \<^verbatim>\<open>None\<close> as 0.
\<close>

record ThreadData =
  kernel_rsp :: "u64 option"
  user_tmp_rsp :: "u64 option"

definition niche :: "u64 option \<Rightarrow> u64" where
  "niche x = (case x of None \<Rightarrow> 0 | Some v \<Rightarrow> v)"

definition unniche :: "u64 \<Rightarrow> u64 option" where
  "unniche w = (if w = 0 then None else Some w)"

definition kernel_rsp_offset :: u64 where
  "kernel_rsp_offset = 0"

definition user_rsp_offset :: u64 where
  "user_rsp_offset = 8"

definition read_thread_data :: "u64 \<Rightarrow> ('s, 'z) cpu_scheme \<Rightarrow> ThreadData outcome" where
  "read_thread_data a c =
     obind (load64 (a + kernel_rsp_offset) c) (\<lambda>k.
     obind (load64 (a + user_rsp_offset) c) (\<lambda>u.
     Ret \<lparr>kernel_rsp = unniche k, user_tmp_rsp = unniche u\<rparr>))"

definition write_thread_data :: "u64 \<Rightarrow> ThreadData \<Rightarrow> ('s, 'z) cpu_scheme \<Rightarrow> ('s, 'z) cpu_scheme outcome" where
  "write_thread_data a d c =
     obind (store64 (a + kernel_rsp_offset) (niche (kernel_rsp d)) c)
       (store64 (a + user_rsp_offset) (niche (user_tmp_rsp d)))"

text \<open>
  \<^verbatim>\<open>init_thread_data\<close>: \<^verbatim>\<open>Box::new\<close> takes 16 bytes, aligned to 8, from the kernel allocator and
  panics when there are none; \<^verbatim>\<open>wrgsbase\<close> needs \<^verbatim>\<open>CR4.FSGSBASE\<close>.
\<close>

definition init_thread_data :: "bool \<Rightarrow> ('pt, 'fa) paging \<Rightarrow> ThreadData
    \<Rightarrow> BumpAllocator \<times> ('s, 'z) cpu_scheme \<Rightarrow> (BumpAllocator \<times> ('s, 'z) cpu_scheme) outcome" where
  "init_thread_data oc X data = (\<lambda>(b, c).
     obind (bump_alloc oc \<lparr>layout_size = 16, layout_align = 8\<rparr> b) (\<lambda>(p, b).
     if p = 0 then Panic
     else
       obind (write_thread_data p data c) (\<lambda>c.
       obind (va_new X p) (\<lambda>thread_data.
       if cr4_fsgsbase c then Ret (b, c\<lparr>gs_base := thread_data\<rparr>) else Panic))))"

text \<open>\<^verbatim>\<open>with_thread_data\<close> reads and writes back the structure with interrupts off.\<close>

definition with_thread_data :: "bool \<Rightarrow> ('s, 'z) cpu_scheme irq_api \<Rightarrow> (ThreadData \<Rightarrow> ThreadData)
    \<Rightarrow> ('s, 'z) cpu_scheme \<Rightarrow> ('s, 'z) cpu_scheme outcome" where
  "with_thread_data debug I f = without_interrupts I (\<lambda>c.
     let gs = gs_base c in
     if debug \<and> gs = 0 then Panic
     else obind (read_thread_data gs c) (\<lambda>d. write_thread_data gs (f d) c))"

section \<open>Setting up the syscall instruction\<close>

definition INTERRUPT_FLAG :: u64 where
  "INTERRUPT_FLAG = 0x200"

definition syscall_init :: "('pt, 'fa) paging \<Rightarrow> u64 \<Rightarrow> ('s, 'z) cpu_scheme \<Rightarrow> ('s, 'z) cpu_scheme outcome" where
  "syscall_init X syscall_handler_addr c =
     obind (va_new X syscall_handler_addr) (\<lambda>syscall_rip.
     let flags_to_clear = sfmask c OR INTERRUPT_FLAG in
     Ret (c\<lparr>sfmask := flags_to_clear, efer_sce := True, cr4_fsgsbase := True, lstar := syscall_rip\<rparr>))"

section \<open>The assembly\<close>

definition syscall_handler :: "instr list" where
  "syscall_handler = [
     SWAPGS,
     MOV_TO_GS user_rsp_offset RSP,
     MOV_FROM_GS RSP kernel_rsp_offset,
     PUSH RCX,
     PUSH R11,
     MOV RCX R10,
     CALL ''syscall_handler_inner'',
     POP R11,
     POP RCX,
     MOV_TO_GS kernel_rsp_offset RSP,
     MOV_FROM_GS RSP user_rsp_offset,
     SWAPGS,
     SYSRETQ]"

text \<open>The user stub, up to and after the \<^verbatim>\<open>syscall\<close> instruction.\<close>

definition syscall_stub_before :: "instr list" where
  "syscall_stub_before = [PUSH RBP, MOV RBP RSP, MOV R10 RCX]"

definition syscall_stub_after :: "instr list" where
  "syscall_stub_after = [LEAVE, RET]"

definition user_mode_flags :: u64 where
  "user_mode_flags = INTERRUPT_FLAG OR 2"

definition enter_user_mode :: "instr list" where
  "enter_user_mode = [
     MOV RCX RDI,
     MOVI R11 user_mode_flags,
     MOV RSP RSI,
     MOV RBP RSI,
     SWAPGS,
     SYSRETQ]"

definition breakpoint_handler :: "instr list" where
  "breakpoint_handler = [PUSH R10, PUSH R11, CALL ''my_write'', POP R11, POP R10, IRETQ]"

text \<open>\<^verbatim>\<open>my_write\<close>, which the handler calls: print the text at an address.\<close>

definition my_write :: "('pt, 'fa) paging \<Rightarrow> ('pt, 'z) kernel_scheme irq_api \<Rightarrow> ('pt, 'z) kernel_ext lock_fn
    \<Rightarrow> u64 \<Rightarrow> usize \<Rightarrow> ('pt, 'z) kernel_scheme \<Rightarrow> ('pt, 'z) kernel_scheme outcome" where
  "my_write X I L ptr len s =
     obind (vread_slice X (vmem s) ptr (unat len)) (\<lambda>slice.
     obind (unwrap (from_utf8 slice)) (\<lambda>string.
     print I L [string] s))"

section \<open>Running them\<close>

text \<open>
  The processor on a \<^verbatim>\<open>syscall\<close> instruction: it jumps to the address in \<^verbatim>\<open>LSTAR\<close>, where the handler is.
\<close>

definition do_syscall :: "(string \<Rightarrow> ('s, 'z) cpu_scheme \<Rightarrow> ('s, 'z) cpu_scheme outcome)
    \<Rightarrow> ('s, 'z) cpu_scheme \<Rightarrow> ('s, 'z) cpu_scheme outcome" where
  "do_syscall callee c = obind (syscall_instr c) (run_code callee syscall_handler)"

text \<open>
  The function the handler calls, compiled to use the stack down to \<open>lo\<close>; there is no other.
\<close>

definition kernel_functions :: "bool \<Rightarrow> ('pt, 'fa) paging \<Rightarrow> ('pt, 'z) kernel_scheme irq_api \<Rightarrow> ('pt, 'z) kernel_ext lock_fn
    \<Rightarrow> u64 \<Rightarrow> ((('pt, 'z) kernel_scheme, 'y) cpu_scheme \<Rightarrow> reg \<Rightarrow> u64)
    \<Rightarrow> ((('pt, 'z) kernel_scheme, 'y) cpu_scheme \<Rightarrow> u64 \<Rightarrow> u64)
    \<Rightarrow> string \<Rightarrow> (('pt, 'z) kernel_scheme, 'y) cpu_scheme \<Rightarrow> (('pt, 'z) kernel_scheme, 'y) cpu_scheme outcome" where
  "kernel_functions oc X I L lo junk_reg junk_mem name =
     (if name = ''syscall_handler_inner'' then sysv_call lo junk_reg junk_mem (syscall_handler_inner oc X I L)
      else (\<lambda>_. UB))"

text \<open>
  \<^verbatim>\<open>syscall_N\<close> of the user library, called with its arguments in registers and the return address
  on the stack. \<open>next_rip\<close> is the address of the \<^verbatim>\<open>leave\<close> instruction; if the kernel returned to
  another address the stub would not go on.
\<close>

definition syscall_N :: "(string \<Rightarrow> ('s, 'z) cpu_scheme \<Rightarrow> ('s, 'z) cpu_scheme outcome) \<Rightarrow> u64
    \<Rightarrow> ('s, 'z) cpu_scheme \<Rightarrow> ('s, 'z) cpu_scheme outcome" where
  "syscall_N callee next_rip c =
     obind (run_code callee syscall_stub_before c) (\<lambda>c.
     obind (do_syscall callee (c\<lparr>rip := next_rip\<rparr>)) (\<lambda>c.
     if rip c = next_rip then run_code callee syscall_stub_after c else UB))"

section \<open>Invariants\<close>

text \<open>
  Where things are: the thread data at \<open>td\<close>, and a kernel stack from \<open>lo\<close> up to \<open>krsp\<close> that does
  not overlap it and has room for the three words the handler pushes.
\<close>

definition layout :: "u64 \<Rightarrow> u64 \<Rightarrow> u64 \<Rightarrow> bool" where
  "layout td lo krsp \<longleftrightarrow> 8 dvd unat td \<and> 8 dvd unat krsp \<and> unat td + 16 \<le> 2 ^ 64 \<and>
     unat lo + 24 \<le> unat krsp \<and> (unat td + 16 \<le> unat lo \<or> unat krsp \<le> unat td)"

text \<open>User code runs, and a system call will find the thread data and in it the kernel stack.\<close>

definition user_ready :: "u64 \<Rightarrow> u64 \<Rightarrow> ('s, 'z) cpu_scheme \<Rightarrow> bool" where
  "user_ready td krsp c \<longleftrightarrow> cpl c = 3 \<and> efer_sce c \<and> kernel_gs_base c = td \<and> cells c td = krsp"

definition kernel_cell :: "u64 \<Rightarrow> u64 \<Rightarrow> u64 \<Rightarrow> u64 \<Rightarrow> bool" where
  "kernel_cell td lo krsp a \<longleftrightarrow> a = td + 8 \<or> lo \<le> a \<and> a < krsp"

text \<open>
  The life of a user program: instructions of its own, which may change its registers and its
  memory but none of the kernel's, and system calls.
\<close>

inductive user_step :: "(string \<Rightarrow> ('s, 'y) cpu_scheme \<Rightarrow> ('s, 'y) cpu_scheme outcome) \<Rightarrow> u64
    \<Rightarrow> ('s, 'y) cpu_scheme \<Rightarrow> ('s, 'y) cpu_scheme \<Rightarrow> bool"
  for callee td where
  own_code: "cpl c' = 3 \<Longrightarrow> efer_sce c' = efer_sce c \<Longrightarrow> kernel_gs_base c' = kernel_gs_base c
    \<Longrightarrow> cells c' td = cells c td \<Longrightarrow> user_step callee td c c'"
| system_call: "do_syscall callee c = Ret c' \<Longrightarrow> user_step callee td c c'"

inductive_cases user_step_cases: "user_step callee td c c'"

section \<open>Facts\<close>

lemma ring_bits: "(x AND - 4) AND (3 :: u64) = 0" "(x OR 3) AND (3 :: u64) = 3"
proof -
  have "(x AND NOT 3) AND (3 :: u64) = 0" by (simp only: and.assoc) simp
  then show "(x AND - 4) AND (3 :: u64) = 0" by simp
qed (simp add: bit_eq_iff bit_simps)

lemma layoutD:
  assumes "layout td lo krsp"
  shows "unat (krsp - 8) = unat krsp - 8" "unat (krsp - 16) = unat krsp - 16" "unat (krsp - 24) = unat krsp - 24"
    "unat (td + 8) = unat td + 8" "8 dvd unat td" "8 dvd unat (td + 8)"
    "8 dvd unat krsp" "8 dvd unat (krsp - 8)" "8 dvd unat (krsp - 16)" "8 dvd unat (krsp - 24)"
proof -
  have l: "8 dvd unat td" "8 dvd unat krsp" "unat td + 16 \<le> 18446744073709551616" "unat lo + 24 \<le> unat krsp"
    using assms by (simp_all add: layout_def)
  then show u: "unat (krsp - 8) = unat krsp - 8" "unat (krsp - 16) = unat krsp - 16" "unat (krsp - 24) = unat krsp - 24"
    using unat_sub_fits [of 8 krsp] unat_sub_fits [of 16 krsp] unat_sub_fits [of 24 krsp] by simp_all
  show v: "unat (td + 8) = unat td + 8" using unat_add_fits [of td 8] l(3) by simp
  show "8 dvd unat td" "8 dvd unat krsp" by (rule l)+
  then show "8 dvd unat (td + 8)" "8 dvd unat (krsp - 8)" "8 dvd unat (krsp - 16)" "8 dvd unat (krsp - 24)"
    unfolding u v using l(4) by (simp_all add: dvd_diff_nat)
qed

lemma layout_distinct:
  assumes "layout td lo krsp"
  shows "krsp - 8 \<noteq> td" "krsp - 16 \<noteq> td" "krsp - 24 \<noteq> td" "krsp - 8 \<noteq> td + 8" "krsp - 16 \<noteq> td + 8"
    "krsp - 24 \<noteq> td + 8" "td + 8 \<noteq> td"
    "\<not> (lo \<le> td \<and> td < krsp - 24)" "\<not> (lo \<le> td + 8 \<and> td + 8 < krsp - 24)"
    "lo \<le> krsp - 8" "lo \<le> krsp - 16" "lo \<le> krsp - 24" "krsp - 8 < krsp" "krsp - 16 < krsp" "krsp - 24 < krsp"
    "\<not> krsp - 8 < krsp - 24" "\<not> krsp - 16 < krsp - 24"
  using layoutD(1-4) [OF assms] assms
  by (auto simp: layout_def word_unat_eq_iff word_le_nat_alt word_less_nat_alt)

lemmas exec_defs = push64_def pop64_def store64_def load64_def swapgs_def sysretq_def Let_def
  kernel_rsp_offset_def user_rsp_offset_def

lemma do_syscall_eq:
  assumes l: "layout td lo krsp" and r: "user_ready td krsp c"
    and f: "callee ''syscall_handler_inner'' = sysv_call lo junk_reg junk_mem f"
    and v: "f (regs c RDI) (regs c RSI) (regs c RDX) (regs c R10) (regs c R8) (regs c R9) (ksys c) = Ret (v, s')"
  shows "\<exists>c'. do_syscall callee c = Ret c' \<and> regs c' RAX = v \<and> ksys c' = s' \<and> rip c' = rip c \<and>
    rflags c' = (rflags c AND 0x3c7fd7) OR 2 \<and> (\<forall>q \<in> callee_saved. regs c' q = regs c q) \<and>
    gs_base c' = gs_base c \<and> user_ready td krsp c' \<and>
    (\<forall>a. \<not> kernel_cell td lo krsp a \<longrightarrow> cells c' a = cells c a)"
proof -
  note d = layoutD [OF l] layout_distinct [OF l]
  have u: "cpl c = 3" "efer_sce c" "kernel_gs_base c = td" "cells c td = krsp"
    using r by (simp_all add: user_ready_def)
  have tr: "a < krsp" if "a < krsp - 24" for a using that d(25) by (rule order.strict_trans)
  show ?thesis
    unfolding do_syscall_def syscall_handler_def
    using u d v
    by (simp add: syscall_instr_def exec_defs cpl_def ring_bits f sysv_call_def user_ready_def kernel_cell_def)
       (auto dest: tr simp: callee_saved_def)
qed

lemma do_syscall_returned:
  assumes l: "layout td lo krsp" and r: "user_ready td krsp c"
    and f: "callee ''syscall_handler_inner'' = sysv_call lo junk_reg junk_mem f"
    and c': "do_syscall callee c = Ret c'"
  shows "\<exists>v s'. f (regs c RDI) (regs c RSI) (regs c RDX) (regs c R10) (regs c R8) (regs c R9) (ksys c) = Ret (v, s')"
proof -
  note d = layoutD [OF l] layout_distinct [OF l]
  let ?f = "f (regs c RDI) (regs c RSI) (regs c RDX) (regs c R10) (regs c R8) (regs c R9) (ksys c)"
  have u: "cpl c = 3" "efer_sce c" "kernel_gs_base c = td" "cells c td = krsp"
    using r by (simp_all add: user_ready_def)
  show ?thesis
  proof (cases ?f)
    case (Ret vs)
    then show ?thesis by (cases vs) simp
  qed (use c' u d in \<open>simp_all add: do_syscall_def syscall_handler_def syscall_instr_def exec_defs cpl_def
      ring_bits f sysv_call_def\<close>)
qed

lemma user_step_ready:
  assumes "layout td lo krsp" and "callee ''syscall_handler_inner'' = sysv_call lo junk_reg junk_mem f"
    and "user_ready td krsp c" and "user_step callee td c c'"
  shows "user_ready td krsp c'"
  using assms(4)
proof (rule user_step_cases)
  assume "cpl c' = 3" "efer_sce c' = efer_sce c" "kernel_gs_base c' = kernel_gs_base c" "cells c' td = cells c td"
  then show ?thesis using assms(3) by (simp add: user_ready_def)
next
  assume "do_syscall callee c = Ret c'"
  then show ?thesis
    using do_syscall_returned [where callee = callee, OF assms(1,3,2)]
      do_syscall_eq [where callee = callee, OF assms(1,3,2)] by fastforce
qed

lemma enter_user_mode_eq:
  assumes "cpl c = 0" and "efer_sce c" and "gs_base c = td" and "cells c td = krsp"
  shows "\<exists>c'. run_code callee enter_user_mode c = Ret c' \<and> rip c' = regs c RDI \<and> regs c' RSP = regs c RSI \<and>
    regs c' RBP = regs c RSI \<and> rflags c' = 0x202 \<and> user_ready td krsp c' \<and> gs_base c' = kernel_gs_base c \<and>
    cells c' = cells c \<and> ksys c' = ksys c"
  using assms
  by (simp add: enter_user_mode_def exec_defs cpl_def user_ready_def ring_bits user_mode_flags_def INTERRUPT_FLAG_def)

lemma niche_inverse: "x \<noteq> Some 0 \<Longrightarrow> unniche (niche x) = x"
  by (cases x) (simp_all add: niche_def unniche_def)

lemma kernel_functions_inner:
  "kernel_functions oc X I L lo jr jm ''syscall_handler_inner'' = sysv_call lo jr jm (syscall_handler_inner oc X I L)"
  by (simp add: kernel_functions_def [abs_def])

text \<open>The state \<^verbatim>\<open>kernel_main\<close> leaves for the user program.\<close>

definition entered :: "u64 \<Rightarrow> u64 \<Rightarrow> u64 \<Rightarrow> (string \<Rightarrow> ('s, 'y) cpu_scheme \<Rightarrow> ('s, 'y) cpu_scheme outcome)
    \<Rightarrow> ('s, 'y) cpu_scheme \<Rightarrow> bool" where
  "entered td lo krsp callee c \<longleftrightarrow> layout td lo krsp \<and>
     (\<exists>k. cpl k = 0 \<and> efer_sce k \<and> gs_base k = td \<and> cells k td = krsp \<and> run_code callee enter_user_mode k = Ret c)"

lemma entered_ready:
  assumes "entered td lo krsp callee c" shows "layout td lo krsp \<and> user_ready td krsp c"
proof -
  obtain k where k: "cpl k = 0" "efer_sce k" "gs_base k = td" "cells k td = krsp" "run_code callee enter_user_mode k = Ret c"
    using assms by (auto simp: entered_def)
  with enter_user_mode_eq [OF k(1-4), of callee] assms show ?thesis by (auto simp: entered_def)
qed

interpretation user_session: inductive_invariant
  "entered td lo krsp (kernel_functions oc X I L lo jr jm)" "user_step (kernel_functions oc X I L lo jr jm) td"
  "\<lambda>c. layout td lo krsp \<and> user_ready td krsp c"
  for td lo krsp oc X I L jr jm
proof
  show "layout td lo krsp \<and> user_ready td krsp c'"
    if "layout td lo krsp \<and> user_ready td krsp c" "user_step (kernel_functions oc X I L lo jr jm) td c c'" for c c'
    using that user_step_ready [where callee = "kernel_functions oc X I L lo jr jm", OF _ kernel_functions_inner] by blast
qed (rule entered_ready)

lemma stub_before:
  assumes "8 dvd unat (regs c RSP)" and "8 \<le> unat (regs c RSP)"
  shows "run_code callee syscall_stub_before c = Ret (c\<lparr>regs := (regs c)(RSP := regs c RSP - 8, RBP := regs c RSP - 8,
      R10 := regs c RCX), cells := (cells c)(regs c RSP - 8 := regs c RBP)\<rparr>)"
  using conjunct1 [OF sub8_aligned [OF assms]]
  by (simp add: syscall_stub_before_def exec_defs set_reg_def fun_upd_twist)

lemma stub_after:
  assumes "8 dvd unat sp" and "8 \<le> unat sp" and "regs c RBP = sp - 8"
  shows "run_code callee syscall_stub_after c = Ret (c\<lparr>regs := (regs c)(RBP := cells c (sp - 8), RSP := sp + 8),
      rip := cells c sp\<rparr>)"
  using conjunct1 [OF sub8_aligned [OF assms(1,2)]] assms(1,3)
  by (simp add: syscall_stub_after_def exec_defs set_reg_def fun_upd_twist)

lemma syscall_N_eq:
  assumes l: "layout td lo krsp" and r: "user_ready td krsp c"
    and f: "callee ''syscall_handler_inner'' = sysv_call lo junk_reg junk_mem f"
    and sp: "8 dvd unat (regs c RSP)" "8 \<le> unat (regs c RSP)"
    and free: "\<not> kernel_cell td lo krsp (regs c RSP)" "\<not> kernel_cell td lo krsp (regs c RSP - 8)" "regs c RSP - 8 \<noteq> td"
    and v: "f (regs c RDI) (regs c RSI) (regs c RDX) (regs c RCX) (regs c R8) (regs c R9) (ksys c) = Ret (v, s')"
  shows "\<exists>c'. syscall_N callee next_rip c = Ret c' \<and> regs c' RAX = v \<and> ksys c' = s' \<and>
    rip c' = cells c (regs c RSP) \<and> regs c' RSP = regs c RSP + 8 \<and>
    (\<forall>q \<in> callee_saved - {RSP}. regs c' q = regs c q) \<and> user_ready td krsp c' \<and>
    (\<forall>a. \<not> kernel_cell td lo krsp a \<and> a \<noteq> regs c RSP - 8 \<longrightarrow> cells c' a = cells c a)"
proof -
  let ?sp = "regs c RSP"
  define c1 where "c1 = c\<lparr>regs := (regs c)(RSP := ?sp - 8, RBP := ?sp - 8, R10 := regs c RCX),
    cells := (cells c)(?sp - 8 := regs c RBP), rip := next_rip\<rparr>"
  have r1: "user_ready td krsp c1" using r free(3) by (simp add: c1_def user_ready_def cpl_def)
  have "f (regs c1 RDI) (regs c1 RSI) (regs c1 RDX) (regs c1 R10) (regs c1 R8) (regs c1 R9) (ksys c1) = Ret (v, s')"
    using v by (simp add: c1_def)
  from do_syscall_eq [where callee = callee, OF l r1 f this]
  obtain c2 where c2: "do_syscall callee c1 = Ret c2" "regs c2 RAX = v" "ksys c2 = s'" "rip c2 = next_rip"
      "\<forall>q \<in> callee_saved. regs c2 q = regs c1 q" "user_ready td krsp c2"
      "\<forall>a. \<not> kernel_cell td lo krsp a \<longrightarrow> cells c2 a = cells c1 a"
    by (auto simp: c1_def)
  have bp: "regs c2 RBP = ?sp - 8" using c2(5) by (simp add: c1_def)
  have ne: "?sp \<noteq> ?sp - 8" by simp
  have st: "cells c2 ?sp = cells c ?sp" "cells c2 (?sp - 8) = regs c RBP"
    using c2(7) free ne by (simp_all add: c1_def)
  have "syscall_N callee next_rip c = Ret (c2\<lparr>regs := (regs c2)(RBP := cells c2 (?sp - 8), RSP := ?sp + 8),
      rip := cells c2 ?sp\<rparr>)"
    using c2(1,4) stub_after [OF sp bp, of callee]
    by (simp add: syscall_N_def stub_before [OF sp] c1_def)
  then show ?thesis using c2 st free
    by (auto simp: user_ready_def cpl_def c1_def callee_saved_def)
qed

text \<open>A processor in user mode about to make a call, for examples.\<close>

definition demo_cpu :: "(Page \<rightharpoonup> PhysFrame \<times> PageTableFlags) kernel cpu" where
  "demo_cpu = \<lparr>regs = (\<lambda>r. case r of RDI \<Rightarrow> 9 | RSP \<Rightarrow> 0xdeadef00 | _ \<Rightarrow> 0x77), rip = 0x660010, rflags = 0x202,
     cs = 0x23, ss = 0x1b, gs_base = 0, kernel_gs_base = HEAP_START, star = 0x0010000800000000,
     lstar = 0x8000, sfmask = 0x200, efer_sce = True, cr4_fsgsbase = True,
     cells = (\<lambda>a. if a = HEAP_START then 0x18000 else a), ksys = demo_kernel\<rparr>"

abbreviation demo_functions where
  "demo_functions \<equiv> kernel_functions True boot_paging std_irq std_lock 0x10000 (\<lambda>_ _. 0xbad) (\<lambda>_ _. 0xbad)"

lemma demo_cpu_ready: "layout HEAP_START 0x10000 0x18000" "user_ready HEAP_START 0x18000 demo_cpu"
  by (simp_all add: layout_def user_ready_def demo_cpu_def cpl_def HEAP_START_def)

lemma demo_call: "syscall_handler_inner True boot_paging std_irq std_lock (regs demo_cpu RDI) a0 a1 a2 a3 a4 s = Ret (0, s)"
  by (rule syscall_unknown) (simp add: demo_cpu_def)

section \<open>The properties of the component\<close>

text \<open>C14. A system call comes back where it was made: when the handler function returns, the program
  goes on at the instruction after \<^verbatim>\<open>syscall\<close>, in user mode, with the function's result in \<^verbatim>\<open>rax\<close>,
  the flags it had (those \<^verbatim>\<open>sysret\<close> restores), its stack pointer and its preserved registers, its
  GS base and all memory except the kernel's stack and scratch word; the handler got the
  arguments in the order of the call, and the kernel is ready for the next call with its stack
  pointer where it was.\<close>

theorem syscall_round_trip:
  assumes "layout td lo krsp" and "user_ready td krsp c"
    and "syscall_handler_inner oc X I L (regs c RDI) (regs c RSI) (regs c RDX) (regs c R10) (regs c R8) (regs c R9)
      (ksys c) = Ret (v, s')"
  shows "\<exists>c'. do_syscall (kernel_functions oc X I L lo jr jm) c = Ret c' \<and> regs c' RAX = v \<and> ksys c' = s' \<and>
    rip c' = rip c \<and> rflags c' = (rflags c AND 0x3c7fd7) OR 2 \<and> (\<forall>q \<in> callee_saved. regs c' q = regs c q) \<and>
    gs_base c' = gs_base c \<and> user_ready td krsp c' \<and>
    (\<forall>a. \<not> kernel_cell td lo krsp a \<longrightarrow> cells c' a = cells c a)"
  by (rule do_syscall_eq [where callee = "kernel_functions oc X I L lo jr jm", OF assms(1,2) kernel_functions_inner assms(3)])

theorem syscall_round_trip_witness:
  "\<exists>c'. do_syscall demo_functions demo_cpu = Ret c' \<and> regs c' RAX = 0 \<and> rip c' = 0x660010 \<and> rflags c' = 0x202 \<and>
    regs c' RSP = 0xdeadef00 \<and> user_ready HEAP_START 0x18000 c'"
  using syscall_round_trip [OF demo_cpu_ready demo_call, of "\<lambda>_ _. 0xbad" "\<lambda>_ _. 0xbad"]
  by (auto simp: demo_cpu_def callee_saved_def)

text \<open>C24. The functions \<^verbatim>\<open>syscall_N\<close> of the user library are calls of the kernel: called with the
  System V convention they hand their six arguments to the handler function, and return to
  their caller with the result in \<^verbatim>\<open>rax\<close>, the return address popped and every preserved register
  as it was; of user memory only the word below the return address changes.\<close>

theorem syscall_N_calls_kernel:
  assumes "layout td lo krsp" and "user_ready td krsp c"
    and "8 dvd unat (regs c RSP)" and "8 \<le> unat (regs c RSP)"
    and "\<not> kernel_cell td lo krsp (regs c RSP)" and "\<not> kernel_cell td lo krsp (regs c RSP - 8)" and "regs c RSP - 8 \<noteq> td"
    and "syscall_handler_inner oc X I L (regs c RDI) (regs c RSI) (regs c RDX) (regs c RCX) (regs c R8) (regs c R9)
      (ksys c) = Ret (v, s')"
  shows "\<exists>c'. syscall_N (kernel_functions oc X I L lo jr jm) next_rip c = Ret c' \<and> regs c' RAX = v \<and> ksys c' = s' \<and>
    rip c' = cells c (regs c RSP) \<and> regs c' RSP = regs c RSP + 8 \<and>
    (\<forall>q \<in> callee_saved - {RSP}. regs c' q = regs c q) \<and> user_ready td krsp c' \<and>
    (\<forall>a. \<not> kernel_cell td lo krsp a \<and> a \<noteq> regs c RSP - 8 \<longrightarrow> cells c' a = cells c a)"
  by (rule syscall_N_eq [where callee = "kernel_functions oc X I L lo jr jm", OF assms(1,2) kernel_functions_inner assms(3-8)])

theorem syscall_N_calls_kernel_witness:
  "\<exists>c'. syscall_N demo_functions 0x660020 demo_cpu = Ret c' \<and> regs c' RAX = 0 \<and> rip c' = 0xdeadef00 \<and>
    regs c' RSP = 0xdeadef08 \<and> regs c' RBP = 0x77"
proof -
  have "8 dvd unat (regs demo_cpu RSP)" "8 \<le> unat (regs demo_cpu RSP)"
    "\<not> kernel_cell HEAP_START 0x10000 0x18000 (regs demo_cpu RSP)"
    "\<not> kernel_cell HEAP_START 0x10000 0x18000 (regs demo_cpu RSP - 8)" "regs demo_cpu RSP - 8 \<noteq> HEAP_START"
    by (simp_all add: demo_cpu_def kernel_cell_def HEAP_START_def)
  from syscall_N_calls_kernel [OF demo_cpu_ready this demo_call, of "\<lambda>_ _. 0xbad" "\<lambda>_ _. 0xbad" "0x660020"]
  show ?thesis by (auto simp: demo_cpu_def callee_saved_def HEAP_START_def)
qed

text \<open>One kernel stack is enough for ever: from \<^verbatim>\<open>enter_user_mode\<close> on, through any sequence of user
  code (that cannot write kernel memory) and system calls that return, the program is in user
  mode and the next system call will find the thread data and the same initial kernel stack
  pointer.\<close>

lemma user_session_stable:
  assumes "reach (entered td lo krsp (kernel_functions oc X I L lo jr jm)) (user_step (kernel_functions oc X I L lo jr jm) td) c"
  shows "user_ready td krsp c"
  using user_session.inv_reach [OF assms] by simp

text \<open>After \<^verbatim>\<open>syscall::init\<close> the \<^verbatim>\<open>syscall\<close> instruction works, goes to the handler, and clears the
  interrupt flag, so the handler runs with interrupts disabled.\<close>

lemma syscall_masks_interrupts:
  assumes "addr_docs X" and "canonical handler"
  shows "\<exists>k. syscall_init X handler c = Ret k \<and>
    (\<forall>d. sfmask d = sfmask k \<and> efer_sce d = efer_sce k \<and> lstar d = lstar k \<longrightarrow>
       (\<exists>e. syscall_instr d = Ret e \<and> rip e = handler \<and> rflags e AND INTERRUPT_FLAG = 0 \<and> cpl e = 0))"
proof -
  have "(f AND NOT m AND NOT (0x200 :: u64)) AND 0x200 = 0" for f m :: u64
    by (simp only: and.assoc) simp
  then have m: "(f AND NOT m AND - 513) AND 0x200 = 0" for f m :: u64 by simp
  have "va_new X handler = Ret handler" using assms by (simp add: addr_docs_def)
  then show ?thesis
    using ring_bits(1) by (auto simp: syscall_init_def syscall_instr_def Let_def INTERRUPT_FLAG_def m cpl_def)
qed

text \<open>\<^verbatim>\<open>init_thread_data\<close> on the fresh kernel heap puts the structure into the first block of the heap
  and its address into GS; reading it back through GS gives the same structure, so
  \<^verbatim>\<open>None\<close> and every non-zero stack pointer survive the encoding as one word.\<close>

lemma init_thread_data_eq:
  assumes "addr_docs X" and "cr4_fsgsbase c"
  shows "\<exists>b. init_thread_data oc X d (kernel_heap, c) = Ret (b, c\<lparr>cells := (cells c)(HEAP_START := niche (kernel_rsp d),
      HEAP_START + 8 := niche (user_tmp_rsp d)), gs_base := HEAP_START\<rparr>)"
proof -
  obtain b where "bump_alloc oc \<lparr>layout_size = 16, layout_align = 8\<rparr> kernel_heap = Ret (HEAP_START, b)"
    by (simp add: bump_alloc_def align_up_def add_chk_def sub_chk_def kernel_heap_def HEAP_START_def HEAP_SIZE_def)
  moreover have "va_new X HEAP_START = Ret HEAP_START"
    using assms(1) by (simp add: addr_docs_def canonical_def HEAP_START_def)
  moreover have "8 dvd unat HEAP_START" "8 dvd unat (HEAP_START + 8)" "HEAP_START \<noteq> 0"
    by (simp_all add: HEAP_START_def)
  ultimately show ?thesis
    using assms(2) by (simp add: init_thread_data_def write_thread_data_def exec_defs)
qed

lemma init_thread_data_read:
  assumes "addr_docs X" and "cr4_fsgsbase c" and "kernel_rsp d \<noteq> Some 0" and "user_tmp_rsp d \<noteq> Some 0"
    and "init_thread_data oc X d (kernel_heap, c) = Ret (b, c')"
  shows "read_thread_data (gs_base c') c' = Ret d"
proof -
  have "8 dvd unat HEAP_START" "8 dvd unat (HEAP_START + 8)" by (simp_all add: HEAP_START_def)
  then show ?thesis using init_thread_data_eq [OF assms(1,2), of oc d] assms(3-5)
    by (auto simp: read_thread_data_def exec_defs niche_inverse)
qed

end
