(* ===== verification/Kernel_Heap.thy ===== *)
theory Kernel_Heap
  imports Mapping_Loops Bump
begin

text \<open>
  \<^verbatim>\<open>kernel/src/allocator/mod.rs\<close>: \<^verbatim>\<open>init_kernel_heap\<close> maps the pages of the kernel heap and hands
  their address range to the bump allocator. It is generic in the frame allocator and so is the
  model: the allocator is an argument with the contract \<open>frame_source\<close>. The properties: with
  enough frames every byte of the heap is mapped, present, writable and not accessible to user
  code, different pages to different frames; on an error the bump allocator is left untouched.
\<close>

section \<open>init_kernel_heap\<close>

text \<open>The loop over the pages, left with an error by the question marks of the source.\<close>

fun map_heap :: "('s \<Rightarrow> (PhysFrame option \<times> 's) outcome) \<Rightarrow> ('pt, 's) paging
    \<Rightarrow> Page list \<Rightarrow> 'pt \<Rightarrow> 's \<Rightarrow> ((MapToError + unit) \<times> 'pt \<times> 's) outcome" where
  "map_heap alloc X [] pt fa = Ret (Inr (), pt, fa)"
| "map_heap alloc X (page # pages) pt fa =
     obind (alloc fa) (\<lambda>(f, fa).
     case f of
       None \<Rightarrow> Ret (Inl FrameAllocationFailed, pt, fa)
     | Some frame \<Rightarrow>
         let flags = {PRESENT, WRITABLE} in
         obind (pt_map_to X page frame flags pt fa) (\<lambda>(r, pt, fa).
         case r of
           Inl e \<Rightarrow> Ret (Inl e, pt, fa)
         | Inr _ \<Rightarrow> map_heap alloc X pages pt fa))"

definition heap_page_range :: "('pt, 's) paging \<Rightarrow> Page list outcome" where
  "heap_page_range X =
     obind (va_new X HEAP_START) (\<lambda>heap_start.
     obind (va_add X heap_start HEAP_SIZE) (\<lambda>e.
     obind (va_sub X e 1) (\<lambda>heap_end.
     let heap_start_page = page_containing X heap_start;
         heap_end_page = page_containing X heap_end
     in Ret (page_range_inclusive X heap_start_page heap_end_page))))"

definition init_kernel_heap :: "bool \<Rightarrow> ('s \<Rightarrow> (PhysFrame option \<times> 's) outcome) \<Rightarrow> ('pt, 's) paging
    \<Rightarrow> 'pt \<Rightarrow> 's \<Rightarrow> BumpAllocator \<Rightarrow> ((MapToError + unit) \<times> 'pt \<times> 's \<times> BumpAllocator) outcome" where
  "init_kernel_heap oc alloc X pt fa ALLOCATOR =
     obind (heap_page_range X) (\<lambda>page_range.
     obind (map_heap alloc X page_range pt fa) (\<lambda>(r, pt, fa).
     case r of
       Inl e \<Rightarrow> Ret (Inl e, pt, fa, ALLOCATOR)
     | Inr _ \<Rightarrow>
         obind (bump_init oc HEAP_START HEAP_SIZE ALLOCATOR) (\<lambda>b.
         Ret (Inr (), pt, fa, b))))"

definition in_heap :: "VirtAddr \<Rightarrow> bool" where
  "in_heap a \<longleftrightarrow> HEAP_START \<le> a \<and> a < HEAP_START + HEAP_SIZE"

section \<open>Facts\<close>

lemma heap_page_range_eq:
  assumes "addr_docs X" and "page_docs X"
  shows "heap_page_range X = Ret (pages_from HEAP_START 25)"
proof -
  have c: "canonical (0x444444440000 :: u64)" "canonical (0x444444459000 :: u64)" "canonical (0x444444458fff :: u64)"
    by (simp_all add: canonical_def)
  have al: "align_down_4k 0x444444440000 = 0x444444440000" "align_down_4k 0x444444458fff = 0x444444458000"
    by (simp_all add: align_down_4k_def)
  have "page_range_inclusive X 0x444444440000 0x444444458000 = pages_from 0x444444440000 25"
    using assms(2) by (simp add: page_docs_def)
  with assms c al show ?thesis
    by (simp add: heap_page_range_def HEAP_START_def HEAP_SIZE_def addr_docs_def page_docs_def)
qed

lemma map_heap_of_map_all:
  "map_all alloc X (map (\<lambda>p. (p, {PRESENT, WRITABLE})) pages) pt fa = Ret (pt', fa') \<Longrightarrow>
   map_heap alloc X pages pt fa = Ret (Inr (), pt', fa')"
proof (induction pages arbitrary: pt fa)
  case (Cons p pages)
  then obtain f fa1 pt1 fa2 where "alloc fa = Ret (Some f, fa1)"
      "pt_map_to X p f {PRESENT, WRITABLE} pt fa1 = Ret (Inr (), pt1, fa2)"
      "map_all alloc X (map (\<lambda>p. (p, {PRESENT, WRITABLE})) pages) pt1 fa2 = Ret (pt', fa')"
    by (auto simp: outcome_simps)
  then show ?case using Cons.IH by simp
qed simp

lemma in_heap_unat: "in_heap a \<longleftrightarrow> 0x444444440000 \<le> unat a \<and> unat a < 0x444444459000"
  by (simp add: in_heap_def HEAP_START_def HEAP_SIZE_def word_le_nat_alt word_less_nat_alt)

lemma heap_pages_cover: "align_down_4k a \<in> set (pages_from HEAP_START 25) \<longleftrightarrow> in_heap a"
  by (subst align_down_in_pages_from) (simp_all add: in_heap_unat HEAP_START_def)

lemma heap_page_in_heap:
  assumes "p \<in> set (pages_from HEAP_START 25)" shows "in_heap p" and "4096 dvd unat p"
  using unat_in_pages_from [OF assms]
  by (simp_all add: in_heap_unat HEAP_START_def)

lemma heap_pages_distinct: "distinct (pages_from HEAP_START 25)"
  by (rule distinct_pages_from) (simp add: HEAP_START_def)

abbreviation heap_mappings :: "(Page \<times> PageTableFlags) list" where
  "heap_mappings \<equiv> map (\<lambda>p. (p, {PRESENT, WRITABLE})) (pages_from HEAP_START 25)"

lemma heap_mapping_at:
  assumes "mapped_as X pt pt' (mapping_of heap_mappings fs)" and "length fs = 25" and "page_docs X"
  shows "in_heap a \<Longrightarrow> \<exists>f \<in> set fs. pt_translate X pt' a = Mapped f (a - align_down_4k a) {PRESENT, WRITABLE} \<and>
      mapping_of heap_mappings fs (align_down_4k a) = Some (f, {PRESENT, WRITABLE})"
    and "\<not> in_heap a \<Longrightarrow> pt_translate X pt' a = pt_translate X pt a"
proof -
  let ?m = "mapping_of heap_mappings fs"
  have dom: "dom ?m = set (pages_from HEAP_START 25)"
    using dom_mapping_of [of fs heap_mappings] assms(2) by (simp add: image_image)
  show "\<exists>f \<in> set fs. pt_translate X pt' a = Mapped f (a - align_down_4k a) {PRESENT, WRITABLE} \<and>
      ?m (align_down_4k a) = Some (f, {PRESENT, WRITABLE})" if "in_heap a"
  proof -
    have "align_down_4k a \<in> dom ?m" using heap_pages_cover that dom by simp
    then obtain f fl where m: "?m (align_down_4k a) = Some (f, fl)" by auto
    have "f \<in> set fs" "fl = {PRESENT, WRITABLE}" using mapping_of_Some [OF m] by auto
    then show ?thesis using m assms(1,3) by (auto simp: mapped_as_def page_docs_def)
  qed
  show "pt_translate X pt' a = pt_translate X pt a" if "\<not> in_heap a"
  proof -
    have "align_down_4k a \<notin> set (pages_from HEAP_START 25)" using that heap_pages_cover by simp
    then have "?m (align_down_4k a) = None" using dom by auto
    then show ?thesis using mapped_as_untouched [OF assms(3,1)] by blast
  qed
qed

lemma heap_mapped_ok:
  assumes "mapper_docs X (fa_good X) (fa_pending X)" and "page_docs X" and "fa_good X fa"
    and "100 \<le> length (fa_pending X fa)" and "\<forall>a. in_heap a \<longrightarrow> \<not> is_mapped X pt a"
  shows "\<exists>pt' fa' fs. map_heap (allocate_frame oc X) X (pages_from HEAP_START 25) pt fa = Ret (Inr (), pt', fa') \<and>
    fa_good X fa' \<and> length fs = 25 \<and> set fs \<subseteq> set (fa_pending X fa) \<and> (distinct (fa_pending X fa) \<longrightarrow> distinct fs) \<and>
    (\<exists>k \<le> 100. fa_pending X fa' = drop k (fa_pending X fa) \<and> set fs \<subseteq> set (take k (fa_pending X fa))) \<and>
    mapped_as X pt pt' (mapping_of heap_mappings fs)"
proof -
  have d: "distinct (map fst heap_mappings)" using heap_pages_distinct by (simp add: comp_def)
  have u: "\<forall>(page, flags) \<in> set heap_mappings. 4096 dvd unat page \<and> \<not> is_mapped X pt page"
    using assms(5) heap_page_in_heap by auto
  have l: "4 * length heap_mappings \<le> length (fa_pending X fa)" using assms(4) by simp
  obtain pt' fa' fs k where r: "map_all (allocate_frame oc X) X heap_mappings pt fa = Ret (pt', fa')"
    "fa_good X fa'" "fa_pending X fa' = drop k (fa_pending X fa)" "k \<le> 4 * length heap_mappings"
    "length fs = length heap_mappings" "set fs \<subseteq> set (take k (fa_pending X fa))"
    "distinct (fa_pending X fa) \<longrightarrow> distinct fs" "mapped_as X pt pt' (mapping_of heap_mappings fs)"
    using boot_frames.map_all_ok [OF assms(1-3) l d u] by blast
  have "set fs \<subseteq> set (fa_pending X fa)" using r(6) by (auto dest: in_set_takeD)
  moreover have "length fs = 25" "k \<le> 100" using r(4,5) by simp_all
  ultimately show ?thesis using map_heap_of_map_all [OF r(1)] r(2,3,6-8) by blast
qed

text \<open>A mapping loop changes no page but its own, whatever way it ends.\<close>

context frame_source
begin

lemma map_heap_frame:
  assumes "mapper_docs X good pending" and "good fa" and "page_containing X a \<notin> set pages"
    and "map_heap alloc X pages pt fa = Ret (r, pt', fa')"
  shows "pt_translate X pt' a = pt_translate X pt a"
  using assms(2-4)
proof (induction pages arbitrary: pt fa)
  case (Cons page pages)
  show ?case using Cons.prems(1)
  proof (cases rule: alloc_cases)
    case (some f fa1)
    obtain q pt1 fa2 where q: "pt_map_to X page f {PRESENT, WRITABLE} pt fa1 = Ret (q, pt1, fa2)"
      and post: "case q of
          Inr _ \<Rightarrow> (\<exists>k \<le> 3. pending fa2 = drop k (pending fa1)) \<and> good fa2 \<and>
            (\<forall>a. pt_translate X pt1 a = (if page_containing X a = page
               then Mapped f (a - page) {PRESENT, WRITABLE} else pt_translate X pt a))
        | Inl e \<Rightarrow> pt_translate X pt1 = pt_translate X pt \<and>
            (e = FrameAllocationFailed \<longrightarrow> length (pending fa1) < 3) \<and>
            (e \<noteq> FrameAllocationFailed \<longrightarrow> (\<exists>f off fl. pt_translate X pt page = Mapped f off fl))"
      using assms(1) some(3) unfolding mapper_docs_def by blast
    show ?thesis
    proof (cases q)
      case (Inl e)
      then show ?thesis using Cons.prems(3) some(1) q post by auto
    next
      case (Inr u)
      have "pt_translate X pt' a = pt_translate X pt1 a"
        using Cons.prems some(1) q post Inr by (intro Cons.IH) auto
      then show ?thesis using post Inr Cons.prems(2) by auto
    qed
  next
    case none
    then show ?thesis using Cons.prems(3) by simp
  qed
qed simp

end

section \<open>The properties of the component\<close>

text \<open>C23. \<^verbatim>\<open>init_kernel_heap\<close> succeeds and sets up the heap: with a hundred frames in store and no heap
  address mapped before, it returns \<^verbatim>\<open>Ok\<close>, the bump allocator owns exactly the heap range, every
  byte of the heap translates to a frame the allocator had in store, present and writable and
  not accessible to user code, bytes of different pages to different frames, and every address
  outside of the heap translates as before.\<close>

theorem init_kernel_heap_ok:
  assumes "addr_docs X" and "page_docs X" and "mapper_docs X (fa_good X) (fa_pending X)"
    and "fa_good X fa" and "100 \<le> length (fa_pending X fa)" and "distinct (fa_pending X fa)"
    and "\<forall>a. in_heap a \<longrightarrow> \<not> is_mapped X pt a"
  shows "\<exists>pt' fa' F. init_kernel_heap oc (allocate_frame oc X) X pt fa BumpAllocator_new
      = Ret (Inr (), pt', fa', kernel_heap) \<and>
    (\<forall>a. in_heap a \<longrightarrow> F a \<in> set (fa_pending X fa) \<and> F a \<notin> set (fa_pending X fa') \<and>
       pt_translate X pt' a = Mapped (F a) (a - align_down_4k a) {PRESENT, WRITABLE}) \<and>
    (\<forall>a b. in_heap a \<and> in_heap b \<and> align_down_4k a \<noteq> align_down_4k b \<longrightarrow> F a \<noteq> F b) \<and>
    (\<forall>a. \<not> in_heap a \<longrightarrow> pt_translate X pt' a = pt_translate X pt a)"
proof -
  obtain pt' fa' fs k where r: "map_heap (allocate_frame oc X) X (pages_from HEAP_START 25) pt fa = Ret (Inr (), pt', fa')"
    and fs: "length fs = 25" "set fs \<subseteq> set (fa_pending X fa)" "distinct fs"
    and k: "fa_pending X fa' = drop k (fa_pending X fa)" "set fs \<subseteq> set (take k (fa_pending X fa))"
    and m: "mapped_as X pt pt' (mapping_of heap_mappings fs)"
    using heap_mapped_ok [OF assms(3,2,4,5,7), of oc] assms(6) by blast
  define F where "F a = fst (the (mapping_of heap_mappings fs (align_down_4k a)))" for a
  have F: "F a \<in> set fs" "pt_translate X pt' a = Mapped (F a) (a - align_down_4k a) {PRESENT, WRITABLE}"
      "mapping_of heap_mappings fs (align_down_4k a) = Some (F a, {PRESENT, WRITABLE})" if "in_heap a" for a
    using heap_mapping_at(1) [OF m fs(1) assms(2) that] unfolding F_def by auto
  have "init_kernel_heap oc (allocate_frame oc X) X pt fa BumpAllocator_new = Ret (Inr (), pt', fa', kernel_heap)"
    using r by (simp add: init_kernel_heap_def heap_page_range_eq [OF assms(1,2)] kernel_heap_init)
  moreover have "F a \<notin> set (fa_pending X fa')" if "in_heap a" for a
    using F(1) [OF that] k set_take_disj_set_drop_if_distinct [OF assms(6), of k k] by auto
  moreover have "F a \<noteq> F b" if "in_heap a \<and> in_heap b \<and> align_down_4k a \<noteq> align_down_4k b" for a b
    using that F(3) mapping_of_inj [OF fs(3)] by metis
  ultimately show ?thesis
    using F(1,2) fs(2) heap_mapping_at(2) [OF m fs(1) assms(2)] by blast
qed

theorem init_kernel_heap_ok_witness:
  "\<exists>pt' fa'. init_kernel_heap True (allocate_frame True boot_paging) boot_paging Map.empty
      (frame_allocator_init big_map) BumpAllocator_new = Ret (Inr (), pt', fa', kernel_heap) \<and>
    is_mapped boot_paging pt' 0x444444440123"
proof -
  have u: "\<forall>a. in_heap a \<longrightarrow> \<not> is_mapped boot_paging Map.empty a"
    by (simp add: is_mapped_def std_translate_def)
  have "100 \<le> length (fa_pending boot_paging (frame_allocator_init big_map))"
    by (simp add: big_map_pending)
  from init_kernel_heap_ok [OF std_addr_docs std_page_docs std_mapper_docs big_map_pending(3) this
      big_map_pending(2) u, of True]
  show ?thesis by (auto simp: is_mapped_def in_heap_unat)
qed

text \<open>C29. An error of \<^verbatim>\<open>init_kernel_heap\<close> has a cause and does no harm: it is returned only when
  fewer than a hundred frames were in store or a heap address was mapped already; then the bump
  allocator is untouched and no translation outside of the heap has changed.\<close>

theorem init_kernel_heap_error:
  assumes "addr_docs X" and "page_docs X" and "mapper_docs X (fa_good X) (fa_pending X)" and "fa_good X fa"
    and "init_kernel_heap oc (allocate_frame oc X) X pt fa B = Ret (Inl e, pt', fa', B')"
  shows "B' = B \<and> (length (fa_pending X fa) < 100 \<or> (\<exists>a. in_heap a \<and> is_mapped X pt a)) \<and>
    (\<forall>a. \<not> in_heap (align_down_4k a) \<longrightarrow> pt_translate X pt' a = pt_translate X pt a)"
proof -
  let ?run = "map_heap (allocate_frame oc X) X (pages_from HEAP_START 25) pt fa"
  note run = assms(5) [unfolded init_kernel_heap_def heap_page_range_eq [OF assms(1,2)], simplified]
  obtain q pt1 fa1 where q: "?run = Ret (q, pt1, fa1)" using run by (auto simp: outcome_simps)
  then have r: "?run = Ret (Inl e, pt', fa')" "B' = B"
    using run by (cases q; auto simp: outcome_simps)+
  have "length (fa_pending X fa) < 100 \<or> (\<exists>a. in_heap a \<and> is_mapped X pt a)"
    using heap_mapped_ok [OF assms(3,2,4), of pt oc] r(1) by (auto intro: leI ccontr)
  moreover have "pt_translate X pt' a = pt_translate X pt a" if "\<not> in_heap (align_down_4k a)" for a
    using that heap_page_in_heap(1) assms(2) r(1)
    by (intro boot_frames.map_heap_frame [OF assms(3,4), of a]) (auto simp: page_docs_def)
  ultimately show ?thesis using r(2) by simp
qed

theorem init_kernel_heap_error_witness:
  "\<exists>pt' fa'. init_kernel_heap True (allocate_frame True boot_paging) boot_paging [HEAP_START \<mapsto> (0, {})]
      (frame_allocator_init big_map) BumpAllocator_new = Ret (Inl (PageAlreadyMapped 0), pt', fa', BumpAllocator_new)"
proof -
  let ?fa = "frame_allocator_init big_map" and ?pt = "[HEAP_START \<mapsto> (0, {})]"
  have "fa_pending boot_paging ?fa \<noteq> []" using big_map_pending(1) by force
  then obtain f fs where "fa_pending boot_paging ?fa = f # fs" by (cases "fa_pending boot_paging ?fa") auto
  from boot_frames.alloc_some [OF big_map_pending(3) this, of True]
  obtain fa1 where fa1: "allocate_frame True boot_paging ?fa = Ret (Some f, fa1)" by blast
  have p: "pages_from HEAP_START 25 = HEAP_START # map (page_at HEAP_START) [1..<25]"
    by (simp add: pages_from_def upt_conv_Cons page_at_def del: upt_Suc)
  have "map_heap (allocate_frame True boot_paging) boot_paging (pages_from HEAP_START 25) ?pt ?fa =
      Ret (Inl (PageAlreadyMapped 0), ?pt, fa1)"
    unfolding p by (simp add: fa1 std_map_to align_down_aligned HEAP_START_def)
  then have "init_kernel_heap True (allocate_frame True boot_paging) boot_paging ?pt ?fa BumpAllocator_new =
      Ret (Inl (PageAlreadyMapped 0), ?pt, fa1, BumpAllocator_new)"
    by (simp add: init_kernel_heap_def heap_page_range_eq [OF std_addr_docs std_page_docs])
  moreover note init_kernel_heap_error [OF std_addr_docs std_page_docs std_mapper_docs big_map_pending(3) this]
  ultimately show ?thesis by blast
qed

end
