(* ===== verification/Boot.thy ===== *)
theory Boot
  imports Gdt Elf Entry Kernel_Heap
begin

text \<open>
  \<^verbatim>\<open>init\<close> of \<^verbatim>\<open>kernel/src/lib.rs\<close> and \<^verbatim>\<open>_start\<close> and \<^verbatim>\<open>kernel_main\<close> of \<^verbatim>\<open>kernel/src/main.rs\<close>: the
  composition of the other components, from the entry of the kernel to the first instruction of
  the user program. The property: with enough memory the kernel boots, and the state in which the
  user program starts is the one the other components need: its code is loaded, its stack is
  mapped, the heap of the kernel is out of its reach, and a system call will work.
\<close>

section \<open>Parameters of the machine\<close>

text \<open>
  What the bootloader hands over, and the addresses the linker chose; the contents of \<^verbatim>\<open>CR3\<close>, the
  construction of a mapper over the page tables found there, the answer of cpuid and the setup
  of the interrupt controllers are the crates'.
\<close>

record BootInfo =
  physical_memory_offset :: u64
  memory_map_of :: MemoryMap

record ('pt, 'fa, 'g, 't, 'c) platform =
  p_paging :: "('pt, 'fa) paging"
  p_gdt :: "'g gdt_api"
  p_star :: star_api
  p_idt :: "'t idt_api"
  p_elf :: elf_api
  p_has_fsgsbase :: "bool option"
  p_pics_initialize :: "'c \<Rightarrow> 'c outcome"
  p_cr3 :: PhysAddr
  p_offset_page_table :: "VirtAddr \<Rightarrow> VirtAddr \<Rightarrow> 'pt"
  p_stack1 :: u64
  p_stack2 :: u64
  p_stack3 :: u64
  p_syscall_handler :: u64
  p_child_process :: "u8 list"  \<comment> \<open>\<^verbatim>\<open>CHILD_PROCESS\<close>\<close>

type_synonym ('pt, 'z, 'g, 't) boot_cpu = "(('pt, 'z) kernel_scheme, 'g, 't) seg_cpu"

type_synonym ('pt, 'z, 'g, 't) boot_platform = "('pt, BootInfoFrameAllocator, 'g, 't, ('pt, 'z, 'g, 't) boot_cpu) platform"

section \<open>init\<close>

definition init :: "('pt, 'z, 'g, 't) boot_platform \<Rightarrow> ('pt, 'z, 'g, 't) boot_cpu \<Rightarrow> ('pt, 'z, 'g, 't) boot_cpu outcome" where
  "init M c =
     obind (gdt_init (p_paging M) (p_gdt M) (p_star M) (p_has_fsgsbase M) (p_stack1 M) (p_stack2 M) (p_stack3 M) c) (\<lambda>c.
     obind (init_idt (p_idt M) c) (\<lambda>c.
     obind (p_pics_initialize M c) (\<lambda>c.
     syscall_init (p_paging M) (p_syscall_handler M) c)))"

section \<open>kernel_main\<close>

definition set_page_table :: "'pt \<Rightarrow> ('pt, 'z, 'g, 't) boot_cpu \<Rightarrow> ('pt, 'z, 'g, 't) boot_cpu" where
  "set_page_table pt c = c\<lparr>ksys := (ksys c)\<lparr>vmem := (vmem (ksys c))\<lparr>page_tbl := pt\<rparr>, mapper_ready := True\<rparr>\<rparr>"

text \<open>The setup of memory: the mapper, the frame allocator and the kernel heap.\<close>

definition setup_memory :: "bool \<Rightarrow> ('pt, 'z, 'g, 't) boot_platform \<Rightarrow> BootInfo \<Rightarrow> BumpAllocator
    \<Rightarrow> ('pt, 'z, 'g, 't) boot_cpu \<Rightarrow> (BootInfoFrameAllocator \<times> BumpAllocator \<times> ('pt, 'z, 'g, 't) boot_cpu) outcome" where
  "setup_memory oc M boot_info ALLOCATOR c =
     (let X = p_paging M in
      obind (va_new X (physical_memory_offset boot_info)) (\<lambda>phys_mem_offset.
      obind (memory_init X (p_cr3 M) (p_offset_page_table M) phys_mem_offset None) (\<lambda>(pt, MAPPER).
      let fa = frame_allocator_init (memory_map_of boot_info) in
      obind (init_kernel_heap oc (allocate_frame oc X) X pt fa ALLOCATOR) (\<lambda>(r, pt, fa, b).
      obind (unwrap_result r) (\<lambda>_.
      Ret (fa, b, set_page_table pt c))))))"

text \<open>The pages of the user stack, and the address of its end.\<close>

definition user_stack :: "('pt, 'fa) paging \<Rightarrow> (Page \<times> Page list) outcome" where
  "user_stack X =
     obind (va_new X 0xDEADBEEF) (\<lambda>a.
     let lowest_stack_page = page_containing X a; stack_size = 4096 * 4 in
     obind (va_add X (page_start X lowest_stack_page) stack_size) (\<lambda>e.
     let highest_stack_page = page_containing X e in
     Ret (lowest_stack_page, page_range X lowest_stack_page highest_stack_page)))"

text \<open>The setup of the process: the stack, then the program.\<close>

definition setup_process :: "bool \<Rightarrow> ('pt, 'z, 'g, 't) boot_platform \<Rightarrow> Page list \<Rightarrow> BootInfoFrameAllocator
    \<Rightarrow> ('pt, 'z, 'g, 't) boot_cpu \<Rightarrow> (ElfFile \<times> BootInfoFrameAllocator \<times> ('pt, 'z, 'g, 't) boot_cpu) outcome" where
  "setup_process oc M stack fa c =
     (let X = p_paging M; flags = {PRESENT, USER_ACCESSIBLE, WRITABLE} in
      mapper_with (mapper (MAPPER (ksys c))) (\<lambda>pt.
      obind (map_all (allocate_frame oc X) X (map (\<lambda>page. (page, flags)) stack) pt fa) (\<lambda>(pt, fa).
      obind (load oc (allocate_frame oc X) X (p_elf M) (p_child_process M) ((vmem (ksys c))\<lparr>page_tbl := pt\<rparr>) fa) (\<lambda>(bin, m, fa).
      Ret (bin, fa, c\<lparr>ksys := (ksys c)\<lparr>vmem := m\<rparr>\<rparr>)))))"

definition kernel_main :: "bool \<Rightarrow> ('pt, 'z, 'g, 't) boot_platform
    \<Rightarrow> (string \<Rightarrow> ('pt, 'z, 'g, 't) boot_cpu \<Rightarrow> ('pt, 'z, 'g, 't) boot_cpu outcome)
    \<Rightarrow> BootInfo \<Rightarrow> u64 \<Rightarrow> ('pt, 'z, 'g, 't) boot_cpu \<Rightarrow> ('pt, 'z, 'g, 't) boot_cpu outcome" where
  "kernel_main oc M callee boot_info rsp c =
     obind (init M c) (\<lambda>c.
     obind (setup_memory oc M boot_info BumpAllocator_new c) (\<lambda>(fa, b, c).
     obind (init_thread_data oc (p_paging M) \<lparr>kernel_rsp = unniche rsp, user_tmp_rsp = None\<rparr> (b, c)) (\<lambda>(b, c).
     obind (user_stack (p_paging M)) (\<lambda>(lowest_stack_page, stack).
     obind (setup_process oc M stack fa c) (\<lambda>(bin, fa, c).
     obind (add_chk oc (page_start (p_paging M) lowest_stack_page) (4096 * 4)) (\<lambda>top_of_stack.
     run_code callee enter_user_mode (set_reg RSI top_of_stack (set_reg RDI (entry_point bin) c))))))))"

text \<open>\<^verbatim>\<open>_start\<close> passes the stack pointer as the second argument.\<close>

definition start_code :: "instr list" where
  "start_code = [MOV RSI RSP]"

definition kernel_start :: "bool \<Rightarrow> ('pt, 'z, 'g, 't) boot_platform
    \<Rightarrow> (string \<Rightarrow> ('pt, 'z, 'g, 't) boot_cpu \<Rightarrow> ('pt, 'z, 'g, 't) boot_cpu outcome)
    \<Rightarrow> BootInfo \<Rightarrow> ('pt, 'z, 'g, 't) boot_cpu \<Rightarrow> ('pt, 'z, 'g, 't) boot_cpu outcome" where
  "kernel_start oc M callee boot_info c =
     obind (run_code callee start_code c) (\<lambda>c. kernel_main oc M callee boot_info (regs c RSI) c)"

text \<open>
  \<^verbatim>\<open>ElfFile::run\<close>, which \<^verbatim>\<open>kernel_main\<close> does not use, calls the entry point as a function of the kernel. \<open>code\<close>
  is what runs there and \<open>ret\<close> the address after the call.
\<close>

definition jmp :: "(('s, 'z) cpu_scheme \<Rightarrow> ('s, 'z) cpu_scheme outcome) \<Rightarrow> u64 \<Rightarrow> u64 \<Rightarrow> ('s, 'z) cpu_scheme \<Rightarrow> ('s, 'z) cpu_scheme outcome" where
  "jmp code ret target c = obind (push64 ret c) (\<lambda>c. code (c\<lparr>rip := target\<rparr>))"

definition ElfFile_run :: "(('s, 'z) cpu_scheme \<Rightarrow> ('s, 'z) cpu_scheme outcome) \<Rightarrow> u64 \<Rightarrow> ElfFile \<Rightarrow> ('s, 'z) cpu_scheme \<Rightarrow> 'r outcome" where
  "ElfFile_run code ret elf c = obind (jmp code ret (entry_point elf) c) (\<lambda>_. Panic)"

section \<open>The documented behaviour of the platform\<close>

text \<open>
  The controllers are set up with port accesses, which touch nothing of the modelled state.
\<close>

definition platform_docs :: "('pt, 'z, 'g, 't) boot_platform \<Rightarrow> ('g \<Rightarrow> Descriptor option list)
    \<Rightarrow> ('t \<Rightarrow> nat \<Rightarrow> (handler \<times> nat option) option) \<Rightarrow> bool" where
  "platform_docs M slots entry \<longleftrightarrow>
     addr_docs (p_paging M) \<and> page_docs (p_paging M) \<and>
     mapper_docs (p_paging M) (fa_good (p_paging M)) (fa_pending (p_paging M)) \<and>
     gdt_docs (p_gdt M) slots \<and> star_docs (p_star M) \<and> idt_docs (p_idt M) entry \<and>
     (\<forall>c. p_pics_initialize M c = Ret c)"

text \<open>
  The processor has the instruction the kernel asks for, and the linker and the bootloader chose
  sensible addresses.
\<close>

definition platform_ok :: "('pt, 'z, 'g, 't) boot_platform \<Rightarrow> BootInfo \<Rightarrow> bool" where
  "platform_ok M boot_info \<longleftrightarrow> p_has_fsgsbase M = Some True \<and>
     stack_ok (p_stack1 M) \<and> stack_ok (p_stack2 M) \<and> stack_ok (p_stack3 M) \<and> canonical (p_syscall_handler M) \<and>
     canonical (physical_memory_offset boot_info) \<and>
     unat (physical_memory_offset boot_info) + unat (p_cr3 M) < 2 ^ 64 \<and>
     canonical (physical_memory_offset boot_info + p_cr3 M)"

definition boot_table :: "('pt, 'z, 'g, 't) boot_platform \<Rightarrow> BootInfo \<Rightarrow> 'pt" where
  "boot_table M boot_info =
     p_offset_page_table M (physical_memory_offset boot_info + p_cr3 M) (physical_memory_offset boot_info)"

definition in_stack :: "VirtAddr \<Rightarrow> bool" where
  "in_stack a \<longleftrightarrow> 0xDEADB000 \<le> a \<and> a < 0xDEADF000"

text \<open>The program can be planned and its pages, the stack and the heap do not get in each other's way.\<close>

definition program_ok :: "bool \<Rightarrow> ('pt, 'z, 'g, 't) boot_platform \<Rightarrow> BootInfo \<Rightarrow> ElfFile \<Rightarrow> (Page \<times> PageTableFlags) list \<Rightarrow> bool" where
  "program_ok oc M boot_info elf ps \<longleftrightarrow>
     load_plan oc (p_paging M) (p_elf M) (p_child_process M) = Ret (elf, ps) \<and>
     (\<forall>s \<in> set (segments elf). low_segment s \<and> seg_file_ok (p_child_process M) s) \<and>
     (\<forall>p \<in> fst ` set ps. \<not> in_heap p \<and> \<not> in_stack p \<and> \<not> is_mapped (p_paging M) (boot_table M boot_info) p) \<and>
     (\<forall>a. in_heap a \<or> in_stack a \<longrightarrow> \<not> is_mapped (p_paging M) (boot_table M boot_info) a)"

definition memory_ok :: "('pt, 'z, 'g, 't) boot_platform \<Rightarrow> BootInfo \<Rightarrow> nat \<Rightarrow> bool" where
  "memory_ok M boot_info n \<longleftrightarrow>
     (let fa = frame_allocator_init (memory_map_of boot_info) in
      fa_good (p_paging M) fa \<and> distinct (fa_pending (p_paging M) fa) \<and> n \<le> length (fa_pending (p_paging M) fa))"

section \<open>The phases of the boot\<close>

lemma platform_docsD:
  assumes "platform_docs M slots entry"
  shows "addr_docs (p_paging M)" "page_docs (p_paging M)"
    "mapper_docs (p_paging M) (fa_good (p_paging M)) (fa_pending (p_paging M))"
    "gdt_docs (p_gdt M) slots" "star_docs (p_star M)" "idt_docs (p_idt M) entry" "p_pics_initialize M c = Ret c"
  using assms by (simp_all add: platform_docs_def)

lemma init_ok:
  assumes "platform_docs M slots entry" and "platform_ok M boot_info"
  obtains c' where "init M c = Ret c'" and "cpl c' = 0" and "efer_sce c'" and "cr4_fsgsbase c'"
    and "lstar c' = p_syscall_handler M" and "sfmask c' AND INTERRUPT_FLAG = INTERRUPT_FLAG" and "ksys c' = ksys c"
    and "star_sysret (star c') = 0x13" and "star_syscall (star c') = 0x08"
proof -
  note d = platform_docsD [OF assms(1)]
  have o: "p_has_fsgsbase M = Some True" "stack_ok (p_stack1 M)" "stack_ok (p_stack2 M)" "stack_ok (p_stack3 M)"
    "canonical (p_syscall_handler M)" using assms(2) by (simp_all add: platform_ok_def)
  obtain g v where g: "gdt_init (p_paging M) (p_gdt M) (p_star M) (Some True) (p_stack1 M) (p_stack2 M) (p_stack3 M) c =
      Ret (c\<lparr>gdtr := Some g, cs := 0x08, ds := 0x10, gs := 0x38, gs_base := 0, star := v, tr := 0x28\<rparr>)"
    "star_sysret v = 0x13" "star_syscall v = 0x08"
    using gdt_init_eq [OF d(1,4,5) o(2-4), of c thesis] by blast
  obtain t where t: "IDT (p_idt M) = Ret t" using IDT_ok [OF d(6)] by blast
  have h: "va_new (p_paging M) (p_syscall_handler M) = Ret (p_syscall_handler M)"
    using d(1) o(5) by (simp add: addr_docs_def)
  have m: "(sfmask c OR INTERRUPT_FLAG) AND INTERRUPT_FLAG = INTERRUPT_FLAG"
    by (rule bit_eqI) (auto simp: bit_simps)
  let ?c = "c\<lparr>gdtr := Some g, cs := 0x08, ds := 0x10, gs := 0x38, gs_base := 0, star := v, tr := 0x28, idtr := Some t,
    sfmask := sfmask c OR INTERRUPT_FLAG, efer_sce := True, cr4_fsgsbase := True, lstar := p_syscall_handler M\<rparr>"
  have "init M c = Ret ?c" by (simp add: init_def o(1) g(1) init_idt_def t d(7) syscall_init_def h)
  then show thesis by (rule that) (simp_all add: cpl_def m g(2,3))
qed

text \<open>After the setup every page of the heap is on a frame of its own.\<close>

lemma heap_view:
  assumes "mapped_as X pt pt' (mapping_of heap_mappings fs)" and "length fs = 25" and "distinct fs"
    and "set fs \<subseteq> set (fa_pending X fa)" and "page_docs X"
  shows "\<exists>F. writable_view X pt' (set (pages_from HEAP_START 25)) F"
proof -
  let ?m = "mapping_of heap_mappings fs"
  define F where "F p = fst (the (?m p))" for p
  have F: "F (align_down_4k a) \<in> set fs" "pt_translate X pt' a = Mapped (F (align_down_4k a)) (a - align_down_4k a) {PRESENT, WRITABLE}"
      "?m (align_down_4k a) = Some (F (align_down_4k a), {PRESENT, WRITABLE})" if "in_heap a" for a
    using heap_mapping_at(1) [OF assms(1,2,5) that] unfolding F_def by auto
  have P: "in_heap p" "align_down_4k p = p" if "p \<in> set (pages_from HEAP_START 25)" for p
    using heap_page_in_heap [OF that] align_down_aligned by auto
  have "inj_on F (set (pages_from HEAP_START 25))"
    by (rule inj_onI) (metis F(3) P mapping_of_inj [OF assms(3)])
  moreover have "4096 dvd unat (F p)" if "p \<in> set (pages_from HEAP_START 25)" for p
    using F(1) [OF P(1) [OF that]] P(2) [OF that] assms(4) fa_pending_aligned [OF assms(5)] by auto
  ultimately have "writable_view X pt' (set (pages_from HEAP_START 25)) F"
    unfolding writable_view_def using F(2) heap_pages_cover by auto
  then show ?thesis by blast
qed

lemma setup_memory_ok:
  assumes "platform_docs M slots entry" and "platform_ok M boot_info"
    and "memory_ok M boot_info n" and "100 \<le> n" and "\<forall>a. in_heap a \<longrightarrow> \<not> is_mapped (p_paging M) (boot_table M boot_info) a"
  obtains fa pt where "setup_memory oc M boot_info BumpAllocator_new c = Ret (fa, kernel_heap, set_page_table pt c)"
    and "fa_good (p_paging M) fa" and "distinct (fa_pending (p_paging M) fa)" and "n - 100 \<le> length (fa_pending (p_paging M) fa)"
    and "\<And>a. in_heap a \<Longrightarrow> \<exists>f. pt_translate (p_paging M) pt a = Mapped f (a - align_down_4k a) {PRESENT, WRITABLE}"
    and "\<And>a. \<not> in_heap a \<Longrightarrow> pt_translate (p_paging M) pt a = pt_translate (p_paging M) (boot_table M boot_info) a"
    and "\<exists>F. writable_view (p_paging M) pt (set (pages_from HEAP_START 25)) F"
proof -
  let ?X = "p_paging M" and ?fa = "frame_allocator_init (memory_map_of boot_info)" and ?pt = "boot_table M boot_info"
  note d = platform_docsD [OF assms(1)]
  have m: "fa_good ?X ?fa" "distinct (fa_pending ?X ?fa)" "100 \<le> length (fa_pending ?X ?fa)" "n \<le> length (fa_pending ?X ?fa)"
    using assms(3,4) by (simp_all add: memory_ok_def Let_def)
  obtain pt' fa' fs k where r: "map_heap (allocate_frame oc ?X) ?X (pages_from HEAP_START 25) ?pt ?fa = Ret (Inr (), pt', fa')"
    "fa_good ?X fa'" "length fs = 25" "k \<le> 100" "fa_pending ?X fa' = drop k (fa_pending ?X ?fa)"
    "mapped_as ?X ?pt pt' (mapping_of heap_mappings fs)" "distinct fs" "set fs \<subseteq> set (fa_pending ?X ?fa)"
    using heap_mapped_ok [OF d(3,2) m(1,3) assms(5), of oc] m(2) by blast
  have "init_kernel_heap oc (allocate_frame oc ?X) ?X ?pt ?fa BumpAllocator_new = Ret (Inr (), pt', fa', kernel_heap)"
    using r(1) by (simp add: init_kernel_heap_def heap_page_range_eq [OF d(1,2)] kernel_heap_init)
  moreover have "va_new ?X (physical_memory_offset boot_info) = Ret (physical_memory_offset boot_info)"
    "va_add ?X (physical_memory_offset boot_info) (p_cr3 M) = Ret (physical_memory_offset boot_info + p_cr3 M)"
    using d(1) assms(2) by (simp_all add: addr_docs_def platform_ok_def)
  ultimately have s: "setup_memory oc M boot_info BumpAllocator_new c = Ret (fa', kernel_heap, set_page_table pt' c)"
    by (simp add: setup_memory_def memory_init_def boot_table_def Let_def)
  show thesis
  proof (rule that [OF s r(2)])
    show "distinct (fa_pending ?X fa')" using m(2) r(5) by simp
    show "n - 100 \<le> length (fa_pending ?X fa')" using m(4) r(4,5) by simp
    show "\<exists>F. writable_view ?X pt' (set (pages_from HEAP_START 25)) F" by (rule heap_view [OF r(6,3,7,8) d(2)])
  qed (use heap_mapping_at [OF r(6,3) d(2)] in blast)+
qed

lemma user_stack_eq:
  assumes "addr_docs X" and "page_docs X"
  shows "user_stack X = Ret (0xDEADB000, pages_from 0xDEADB000 4)"
proof -
  have "canonical (0xDEADBEEF :: u64)" "canonical (0xDEADB000 :: u64)" "canonical (0xDEADF000 :: u64)"
    by (simp_all add: canonical_def)
  moreover have "align_down_4k 0xDEADBEEF = 0xDEADB000" "align_down_4k 0xDEADF000 = 0xDEADF000"
    by (simp_all add: align_down_4k_def)
  moreover have "page_range X 0xDEADB000 0xDEADF000 = pages_from 0xDEADB000 4" using assms(2) by (simp add: page_docs_def)
  ultimately show ?thesis using assms by (simp add: user_stack_def addr_docs_def page_docs_def)
qed

lemma in_stack_unat: "in_stack a \<longleftrightarrow> 0xDEADB000 \<le> unat a \<and> unat a < 0xDEADF000"
  by (simp add: in_stack_def word_le_nat_alt word_less_nat_alt)

lemma stack_pages_cover: "align_down_4k a \<in> set (pages_from 0xDEADB000 4) \<longleftrightarrow> in_stack a"
  by (subst align_down_in_pages_from) (simp_all add: in_stack_unat)

lemma stack_pages_aligned: "p \<in> set (pages_from 0xDEADB000 4) \<Longrightarrow> 4096 dvd unat p \<and> in_stack p"
  using unat_in_pages_from [of p "0xDEADB000" 4] by (simp add: in_stack_unat)

abbreviation user_stack_flags :: PageTableFlags where
  "user_stack_flags \<equiv> {PRESENT, USER_ACCESSIBLE, WRITABLE}"

abbreviation stack_mappings :: "(Page \<times> PageTableFlags) list" where
  "stack_mappings \<equiv> map (\<lambda>page. (page, user_stack_flags)) (pages_from 0xDEADB000 4)"

lemma stack_mapped_ok:
  assumes "mapper_docs X (fa_good X) (fa_pending X)" and "page_docs X" and "fa_good X fa"
    and "16 \<le> length (fa_pending X fa)" and "\<forall>a. in_stack a \<longrightarrow> \<not> is_mapped X pt a"
  obtains pt' fa' k where "map_all (allocate_frame oc X) X stack_mappings pt fa = Ret (pt', fa')" and "fa_good X fa'"
    and "fa_pending X fa' = drop k (fa_pending X fa)" and "k \<le> 16"
    and "\<And>a. in_stack a \<Longrightarrow> \<exists>f. pt_translate X pt' a = Mapped f (a - align_down_4k a) user_stack_flags"
    and "\<And>a. \<not> in_stack a \<Longrightarrow> pt_translate X pt' a = pt_translate X pt a"
proof -
  have d: "distinct (map fst stack_mappings)" using distinct_pages_from [of "0xDEADB000" 4] by (simp add: comp_def)
  have u: "\<forall>(page, flags) \<in> set stack_mappings. 4096 dvd unat page \<and> \<not> is_mapped X pt page"
    using assms(5) stack_pages_aligned by auto
  have l: "4 * length stack_mappings \<le> length (fa_pending X fa)" using assms(4) by simp
  obtain pt' fa' fs k where r: "map_all (allocate_frame oc X) X stack_mappings pt fa = Ret (pt', fa')"
    "fa_good X fa'" "fa_pending X fa' = drop k (fa_pending X fa)" "k \<le> 4 * length stack_mappings"
    "length fs = length stack_mappings" "mapped_as X pt pt' (mapping_of stack_mappings fs)"
    using boot_frames.map_all_ok [OF assms(1-3) l d u] by blast
  let ?m = "mapping_of stack_mappings fs"
  have dom: "dom ?m = set (pages_from 0xDEADB000 4)" using dom_mapping_of [OF r(5)] by (simp add: image_image)
  show thesis
  proof (rule that [OF r(1-3)])
    show "k \<le> 16" using r(4) by simp
    show "\<exists>f. pt_translate X pt' a = Mapped f (a - align_down_4k a) user_stack_flags" if "in_stack a" for a
    proof -
      have "align_down_4k a \<in> dom ?m" using that stack_pages_cover dom by simp
      then obtain f fl where m: "?m (align_down_4k a) = Some (f, fl)" by auto
      then have "fl = user_stack_flags" using mapping_of_Some [OF m] by auto
      then show ?thesis using m r(6) assms(2) by (simp add: mapped_as_def page_docs_def)
    qed
    show "pt_translate X pt' a = pt_translate X pt a" if "\<not> in_stack a" for a
    proof -
      have "align_down_4k a \<notin> dom ?m" using that stack_pages_cover dom by simp
      then have "?m (align_down_4k a) = None" by (metis domIff)
      then show ?thesis using mapped_as_untouched [OF assms(2) r(6)] by blast
    qed
  qed
qed

lemma setup_process_ok:
  assumes docs: "addr_docs (p_paging M)" "page_docs (p_paging M)"
      "mapper_docs (p_paging M) (fa_good (p_paging M)) (fa_pending (p_paging M))"
    and plan: "load_plan oc (p_paging M) (p_elf M) (p_child_process M) = Ret (elf, ps)"
    and segs: "\<forall>s \<in> set (segments elf). low_segment s \<and> seg_file_ok (p_child_process M) s"
    and pages: "\<forall>p \<in> fst ` set ps. \<not> in_stack p \<and> \<not> is_mapped (p_paging M) pt p"
    and stack: "\<forall>a. in_stack a \<longrightarrow> \<not> is_mapped (p_paging M) pt a"
    and fa: "fa_good (p_paging M) fa" "distinct (fa_pending (p_paging M) fa)"
      "16 + 4 * length ps \<le> length (fa_pending (p_paging M) fa)"
    and c: "MAPPER (ksys c) = Some pt"
  obtains fa' m F where "setup_process oc M (pages_from 0xDEADB000 4) fa c = Ret (elf, fa', c\<lparr>ksys := (ksys c)\<lparr>vmem := m\<rparr>\<rparr>)"
    and "\<And>a. align_down_4k a \<in> fst ` set ps \<Longrightarrow> pt_translate (p_paging M) (page_tbl m) a =
        Mapped (F (align_down_4k a)) (a - align_down_4k a) (the (map_of ps (align_down_4k a))) \<and>
      (\<forall>b. image_byte (p_child_process M) (segments elf) a = Some b \<longrightarrow> vread (p_paging M) m a = Ret b)"
    and "\<And>a. in_stack a \<Longrightarrow> \<exists>f. pt_translate (p_paging M) (page_tbl m) a = Mapped f (a - align_down_4k a) user_stack_flags"
    and "\<And>a. \<not> in_stack a \<Longrightarrow> align_down_4k a \<notin> fst ` set ps
      \<Longrightarrow> pt_translate (p_paging M) (page_tbl m) a = pt_translate (p_paging M) pt a"
proof -
  let ?X = "p_paging M"
  have "16 \<le> length (fa_pending ?X fa)" using fa(3) by simp
  then obtain pt1 fa1 k where s: "map_all (allocate_frame oc ?X) ?X stack_mappings pt fa = Ret (pt1, fa1)" "fa_good ?X fa1"
    "fa_pending ?X fa1 = drop k (fa_pending ?X fa)" "k \<le> 16"
    and st: "\<And>a. in_stack a \<Longrightarrow> \<exists>f. pt_translate ?X pt1 a = Mapped f (a - align_down_4k a) user_stack_flags"
    and un: "\<And>a. \<not> in_stack a \<Longrightarrow> pt_translate ?X pt1 a = pt_translate ?X pt a"
    using stack_mapped_ok [OF docs(3,2) fa(1) _ stack, of oc thesis] by blast
  let ?m = "(vmem (ksys c))\<lparr>page_tbl := pt1\<rparr>"
  have u1: "\<forall>p \<in> fst ` set ps. \<not> is_mapped ?X (page_tbl ?m) p" using pages un by (simp add: is_mapped_def)
  have l1: "4 * length ps \<le> length (fa_pending ?X fa1)" and d1: "distinct (fa_pending ?X fa1)"
    using fa(2,3) s(3,4) by simp_all
  obtain m fa' F where r: "load oc (allocate_frame oc ?X) ?X (p_elf M) (p_child_process M) ?m fa1 = Ret (elf, m, fa')"
    and tr: "\<forall>a. pt_translate ?X (page_tbl m) a = (case map_of ps (align_down_4k a) of
       Some fl \<Rightarrow> Mapped (F (align_down_4k a)) (a - align_down_4k a) fl | None \<Rightarrow> pt_translate ?X (page_tbl ?m) a)"
    and ph: "\<forall>x. align_down_4k x \<in> fst ` set ps \<longrightarrow> phys m (pa F x) =
       (case image_byte (p_child_process M) (segments elf) x of Some b \<Rightarrow> b | None \<Rightarrow> phys ?m (pa F x))"
    using load_ok [OF docs plan segs u1 s(2) l1 d1] by (elim exE conjE) (rule that; assumption)
  have notin: "map_of ps (align_down_4k a) = None" if "align_down_4k a \<notin> fst ` set ps" for a
    using that by (simp add: map_of_eq_None_iff)
  have stack_notin: "align_down_4k a \<notin> fst ` set ps" if "in_stack a" for a
    using that pages stack_pages_cover stack_pages_aligned by blast
  show thesis
  proof (rule that [of fa' m F])
    show "setup_process oc M (pages_from 0xDEADB000 4) fa c = Ret (elf, fa', c\<lparr>ksys := (ksys c)\<lparr>vmem := m\<rparr>\<rparr>)"
      using s(1) r c by (simp add: setup_process_def mapper_with_def mapper_def Let_def)
    show "pt_translate ?X (page_tbl m) a =
        Mapped (F (align_down_4k a)) (a - align_down_4k a) (the (map_of ps (align_down_4k a))) \<and>
      (\<forall>b. image_byte (p_child_process M) (segments elf) a = Some b \<longrightarrow> vread ?X m a = Ret b)"
      if a: "align_down_4k a \<in> fst ` set ps" for a
    proof -
      obtain fl where fl: "map_of ps (align_down_4k a) = Some fl" using a by (metis map_of_eq_None_iff option.exhaust)
      have t: "pt_translate ?X (page_tbl m) a = Mapped (F (align_down_4k a)) (a - align_down_4k a) fl" using tr fl by simp
      have "vread ?X m a = Ret b" if "image_byte (p_child_process M) (segments elf) a = Some b" for b
        using ph a that t by (simp add: vread_def pa_def)
      then show ?thesis using t fl by simp
    qed
    show "\<exists>f. pt_translate ?X (page_tbl m) a = Mapped f (a - align_down_4k a) user_stack_flags" if "in_stack a" for a
      using tr st [OF that] notin [OF stack_notin [OF that]] by simp
    show "pt_translate ?X (page_tbl m) a = pt_translate ?X pt a" if "\<not> in_stack a" "align_down_4k a \<notin> fst ` set ps" for a
      using tr un [OF that(1)] notin [OF that(2)] by simp
  qed
qed

section \<open>The whole boot\<close>

text \<open>
  From the entry of \<^verbatim>\<open>kernel_main\<close> to the first instruction of the program: what holds then.
\<close>

definition booted :: "('pt, 'z, 'g, 't) boot_platform \<Rightarrow> ElfFile \<Rightarrow> (Page \<times> PageTableFlags) list \<Rightarrow> ('pt, 'z) kernel_scheme \<Rightarrow> u64
    \<Rightarrow> ('pt, 'z, 'g, 't) boot_cpu \<Rightarrow> bool" where
  "booted M elf ps k rsp c \<longleftrightarrow>
     rip c = entry_point elf \<and> regs c RSP = 0xDEADF000 \<and> rflags c = 0x202 \<and>
     user_ready HEAP_START rsp c \<and> lstar c = p_syscall_handler M \<and> sfmask c AND INTERRUPT_FLAG = INTERRUPT_FLAG \<and>
     (\<forall>a. in_stack a \<longrightarrow> user_may (p_paging M) (page_tbl (vmem (ksys c))) ReadWrite a) \<and>
     (\<forall>a. in_heap a \<longrightarrow> \<not> user_may (p_paging M) (page_tbl (vmem (ksys c))) ReadOnly a) \<and>
     (\<forall>a b. image_byte (p_child_process M) (segments elf) a = Some b \<longrightarrow> vread (p_paging M) (vmem (ksys c)) a = Ret b) \<and>
     (\<forall>a. align_down_4k a \<in> fst ` set ps \<longrightarrow> (\<exists>f. pt_translate (p_paging M) (page_tbl (vmem (ksys c))) a =
       Mapped f (a - align_down_4k a) (the (map_of ps (align_down_4k a))))) \<and>
     ksys c = k\<lparr>vmem := vmem (ksys c), mapper_ready := True\<rparr>"

lemma enter_program:
  assumes "cpl c = 0" and "efer_sce c" and "gs_base c = HEAP_START" and "cells c HEAP_START = rsp"
  shows "\<exists>c'. run_code callee enter_user_mode (set_reg RSI sp (set_reg RDI entry c)) = Ret c' \<and> rip c' = entry \<and>
    regs c' RSP = sp \<and> rflags c' = 0x202 \<and> user_ready HEAP_START rsp c' \<and> ksys c' = ksys c \<and>
    lstar c' = lstar c \<and> sfmask c' = sfmask c"
  using assms
  by (simp add: enter_user_mode_def exec_defs cpl_def user_ready_def ring_bits user_mode_flags_def INTERRUPT_FLAG_def)

lemma boot_steps:
  assumes "platform_docs M slots entry" and "platform_ok M boot_info" and "program_ok oc M boot_info elf ps"
    and "memory_ok M boot_info (116 + 4 * length ps)"
  shows "\<exists>c'. kernel_main oc M callee boot_info rsp c = Ret c' \<and> booted M elf ps (ksys c) rsp c'"
proof -
  let ?X = "p_paging M"
  note d = platform_docsD [OF assms(1)]
  note p = assms(3) [unfolded program_ok_def, THEN conjunct1] assms(3) [unfolded program_ok_def, THEN conjunct2, THEN conjunct1]
  have pages: "\<forall>p \<in> fst ` set ps. \<not> in_heap p \<and> \<not> in_stack p \<and> \<not> is_mapped ?X (boot_table M boot_info) p"
    and free: "\<forall>a. in_heap a \<or> in_stack a \<longrightarrow> \<not> is_mapped ?X (boot_table M boot_info) a"
    using assms(3) by (simp_all add: program_ok_def)
  obtain c1 where c1: "init M c = Ret c1" "cpl c1 = 0" "efer_sce c1" "cr4_fsgsbase c1" "lstar c1 = p_syscall_handler M"
    "sfmask c1 AND INTERRUPT_FLAG = INTERRUPT_FLAG" "ksys c1 = ksys c" using init_ok [OF assms(1,2)] by blast
  obtain fa pt where m: "setup_memory oc M boot_info BumpAllocator_new c1 = Ret (fa, kernel_heap, set_page_table pt c1)"
    "fa_good ?X fa" "distinct (fa_pending ?X fa)" "116 + 4 * length ps - 100 \<le> length (fa_pending ?X fa)"
    and heap: "\<And>a. in_heap a \<Longrightarrow> \<exists>f. pt_translate ?X pt a = Mapped f (a - align_down_4k a) {PRESENT, WRITABLE}"
    and same: "\<And>a. \<not> in_heap a \<Longrightarrow> pt_translate ?X pt a = pt_translate ?X (boot_table M boot_info) a"
    using setup_memory_ok [OF assms(1,2,4), of oc c1 thesis] free by auto
  let ?c2 = "set_page_table pt c1"
  obtain b where "init_thread_data oc ?X \<lparr>kernel_rsp = unniche rsp, user_tmp_rsp = None\<rparr> (kernel_heap, ?c2) =
      Ret (b, ?c2\<lparr>cells := (cells ?c2)(HEAP_START := niche (unniche rsp), HEAP_START + 8 := niche None), gs_base := HEAP_START\<rparr>)"
    using init_thread_data_eq [OF d(1), of ?c2 oc "\<lparr>kernel_rsp = unniche rsp, user_tmp_rsp = None\<rparr>"] c1(4)
    by (auto simp: set_page_table_def)
  moreover have "niche (unniche rsp) = rsp" by (simp add: niche_def unniche_def)
  moreover define c3 where "c3 = ?c2\<lparr>cells := (cells ?c2)(HEAP_START := rsp, HEAP_START + 8 := niche None), gs_base := HEAP_START\<rparr>"
  ultimately have td: "init_thread_data oc ?X \<lparr>kernel_rsp = unniche rsp, user_tmp_rsp = None\<rparr> (kernel_heap, ?c2) = Ret (b, c3)" by simp
  have heap_stack: "\<not> in_heap a" if "in_stack a" for a using that by (simp add: in_heap_unat in_stack_unat)
  have pages2: "\<forall>p \<in> fst ` set ps. \<not> in_stack p \<and> \<not> is_mapped ?X pt p" using pages same by (simp add: is_mapped_def)
  have stack2: "\<forall>a. in_stack a \<longrightarrow> \<not> is_mapped ?X pt a" using free same heap_stack by (simp add: is_mapped_def)
  have n2: "16 + 4 * length ps \<le> length (fa_pending ?X fa)" using m(4) by simp
  have map3: "MAPPER (ksys c3) = Some pt" by (simp add: c3_def set_page_table_def MAPPER_def)
  obtain fa' v F where pr: "setup_process oc M (pages_from 0xDEADB000 4) fa c3 = Ret (elf, fa', c3\<lparr>ksys := (ksys c3)\<lparr>vmem := v\<rparr>\<rparr>)"
    and img: "\<And>a. align_down_4k a \<in> fst ` set ps \<Longrightarrow> pt_translate ?X (page_tbl v) a =
        Mapped (F (align_down_4k a)) (a - align_down_4k a) (the (map_of ps (align_down_4k a))) \<and>
      (\<forall>b. image_byte (p_child_process M) (segments elf) a = Some b \<longrightarrow> vread ?X v a = Ret b)"
    and stk: "\<And>a. in_stack a \<Longrightarrow> \<exists>f. pt_translate ?X (page_tbl v) a = Mapped f (a - align_down_4k a) user_stack_flags"
    and rest: "\<And>a. \<not> in_stack a \<Longrightarrow> align_down_4k a \<notin> fst ` set ps \<Longrightarrow> pt_translate ?X (page_tbl v) a = pt_translate ?X pt a"
    using setup_process_ok [OF d(1-3) p pages2 stack2 m(2,3) n2 map3, of thesis] by blast
  let ?c4 = "c3\<lparr>ksys := (ksys c3)\<lparr>vmem := v\<rparr>\<rparr>"
  have c4: "cpl ?c4 = 0" "efer_sce ?c4" "gs_base ?c4 = HEAP_START" "cells ?c4 HEAP_START = rsp"
    using c1(2,3) by (simp_all add: c3_def set_page_table_def cpl_def HEAP_START_def)
  obtain c' where e: "run_code callee enter_user_mode (set_reg RSI 0xDEADF000 (set_reg RDI (entry_point elf) ?c4)) = Ret c'"
    "rip c' = entry_point elf" "regs c' RSP = 0xDEADF000" "rflags c' = 0x202" "user_ready HEAP_START rsp c'"
    "ksys c' = ksys ?c4" "lstar c' = lstar ?c4" "sfmask c' = sfmask ?c4"
    using enter_program [where callee = callee, OF c4] by blast
  have "page_start ?X 0xDEADB000 = 0xDEADB000" using d(2) by (simp add: page_docs_def)
  moreover have "add_chk oc (0xDEADB000 :: u64) (4096 * 4) = Ret 0xDEADF000" by (simp add: add_chk_def)
  ultimately have "kernel_main oc M callee boot_info rsp c = Ret c'"
    using c1(1) m(1) td pr e(1) by (simp add: kernel_main_def user_stack_eq [OF d(1,2)])
  moreover have "booted M elf ps (ksys c) rsp c'"
  proof -
    have v: "vmem (ksys c') = v" using e(6) by simp
    have "user_may ?X (page_tbl v) ReadWrite a" if "in_stack a" for a
      using stk [OF that] by (auto simp: user_may_def)
    moreover have "\<not> user_may ?X (page_tbl v) ReadOnly a" if "in_heap a" for a
    proof -
      have "\<not> in_stack a" using heap_stack that by blast
      moreover have "align_down_4k a \<notin> fst ` set ps"
      proof
        assume "align_down_4k a \<in> fst ` set ps"
        then have "\<not> in_heap (align_down_4k a)" using pages by blast
        moreover have "in_heap (align_down_4k a)"
          using heap_pages_cover [of a] heap_pages_cover [of "align_down_4k a"] that by simp
        ultimately show False by simp
      qed
      ultimately show ?thesis using rest [of a] heap [OF that] by (auto simp: user_may_def)
    qed
    moreover have "vread ?X v a = Ret b" if "image_byte (p_child_process M) (segments elf) a = Some b" for a b
      using img [OF image_byte_page [OF d(1,2) p that]] that by blast
    moreover have "lstar c' = p_syscall_handler M" "sfmask c' AND INTERRUPT_FLAG = INTERRUPT_FLAG"
      using e(7,8) c1(5,6) by (simp_all add: c3_def set_page_table_def)
    moreover have "\<exists>f. pt_translate ?X (page_tbl v) a = Mapped f (a - align_down_4k a) (the (map_of ps (align_down_4k a)))"
      if "align_down_4k a \<in> fst ` set ps" for a using img [OF that] by blast
    moreover have "ksys c' = (ksys c)\<lparr>vmem := v, mapper_ready := True\<rparr>"
      using e(6) c1(7) by (simp add: c3_def set_page_table_def)
    ultimately show ?thesis using e(2-5) v by (simp add: booted_def)
  qed
  ultimately show ?thesis by blast
qed

lemma start_booted:
  assumes "platform_docs M slots entry" and "platform_ok M boot_info" and "program_ok oc M boot_info elf ps"
    and "memory_ok M boot_info (116 + 4 * length ps)"
  shows "\<exists>c'. kernel_start oc M callee boot_info c = Ret c' \<and> booted M elf ps (ksys c) (regs c RSP) c'"
proof -
  have "kernel_start oc M callee boot_info c = kernel_main oc M callee boot_info (regs c RSP) (set_reg RSI (regs c RSP) c)"
    by (simp add: kernel_start_def start_code_def)
  with boot_steps [OF assms, of callee "regs c RSP" "set_reg RSI (regs c RSP) c"] show ?thesis by simp
qed

text \<open>
  A program started with \<^verbatim>\<open>ElfFile::run\<close> runs at its entry point with the privileges of the kernel, and
  its return is a panic.
\<close>

lemma ElfFile_run_privileged:
  assumes "push64 ret c = Ret c1"
  shows "ElfFile_run code ret elf c = obind (code (c1\<lparr>rip := entry_point elf\<rparr>)) (\<lambda>_. Panic) \<and> cpl (c1\<lparr>rip := entry_point elf\<rparr>) = cpl c"
  using assms by (auto simp: ElfFile_run_def jmp_def push64_def store64_def set_reg_def cpl_def Let_def split: if_splits)

section \<open>A concrete platform\<close>

definition demo_platform :: "(Page \<rightharpoonup> PhysFrame \<times> PageTableFlags, 'z, Descriptor option list, nat \<Rightarrow> (handler \<times> nat option) option) boot_platform" where
  "demo_platform = \<lparr>p_paging = boot_paging, p_gdt = list_gdt, p_star = std_star, p_idt = map_idt, p_elf = demo_elf,
     p_has_fsgsbase = Some True, p_pics_initialize = Ret, p_cr3 = 0x1000, p_offset_page_table = (\<lambda>_ _. Map.empty),
     p_stack1 = 0x10000, p_stack2 = 0x20000, p_stack3 = 0x30000, p_syscall_handler = 0x40000, p_child_process = demo_bytes\<rparr>"

definition demo_boot_info :: BootInfo where
  "demo_boot_info = \<lparr>physical_memory_offset = 0x100000000000, memory_map_of = big_map\<rparr>"

definition demo_boot_cpu :: "(Page \<rightharpoonup> PhysFrame \<times> PageTableFlags, unit, Descriptor option list, nat \<Rightarrow> (handler \<times> nat option) option) boot_cpu" where
  "demo_boot_cpu = \<lparr>regs = (\<lambda>_. 0)(RSP := 0x18000), rip = 0, rflags = 2, cs = 0, ss = 0, gs_base = 7, kernel_gs_base = 0, star = 0,
     lstar = 0, sfmask = 0, efer_sce = False, cr4_fsgsbase = False, cells = (\<lambda>_. 0), ksys = demo_kernel,
     ds = 0, gs = 0, tr = 0, gdtr = None, idtr = None\<rparr>"

lemma demo_platform_docs: "platform_docs demo_platform (\<lambda>g. g) (\<lambda>t. t)"
  by (simp add: platform_docs_def demo_platform_def boot_addr_docs list_gdt_docs std_star_docs map_idt_docs)

lemma demo_platform_ok: "platform_ok demo_platform demo_boot_info"
  using demo_stacks by (simp add: platform_ok_def demo_platform_def demo_boot_info_def canonical_def)

lemma demo_program_ok: "program_ok True demo_platform demo_boot_info \<lparr>segments = demo_segments, entry_point = 0x660000\<rparr> demo_pages"
  using demo_plan demo_load_hyps(1)
  by (simp add: program_ok_def demo_platform_def boot_table_def is_mapped_def std_translate_def)
     (simp add: demo_pages_def in_heap_unat in_stack_unat)

lemma demo_memory_ok: "memory_ok demo_platform demo_boot_info (116 + 4 * length demo_pages)"
  by (simp add: memory_ok_def demo_platform_def demo_boot_info_def big_map_pending demo_pages_def)

section \<open>The property\<close>

text \<open>C5. The kernel boots: on a platform that behaves as documented, with the frames for the heap, the
  stack and the program in the memory map and their addresses unmapped, \<^verbatim>\<open>_start\<close> gets through all
  of \<^verbatim>\<open>kernel_main\<close> without a panic, and then the user program is at its entry point, in user mode
  with interrupts on; its stack pointer is the end of a stack of 16 KiB that it may read and write;
  every byte of its image is in memory; no byte of the kernel heap is accessible to it; and a system
  call will enter the handler with interrupts masked and find the thread data and in it the stack
  pointer the kernel was started with.\<close>

theorem kernel_boots:
  assumes "platform_docs M slots entry" and "platform_ok M boot_info" and "program_ok oc M boot_info elf ps"
    and "memory_ok M boot_info (116 + 4 * length ps)"
  shows "\<exists>c'. kernel_start oc M callee boot_info c = Ret c' \<and>
    rip c' = entry_point elf \<and> cpl c' = 3 \<and> rflags c' = 0x202 \<and> regs c' RSP = 0xDEADF000 \<and>
    (\<forall>a. 0xDEADB000 \<le> a \<and> a < 0xDEADF000 \<longrightarrow> user_may (p_paging M) (page_tbl (vmem (ksys c'))) ReadWrite a) \<and>
    (\<forall>a b. image_byte (p_child_process M) (segments elf) a = Some b \<longrightarrow> vread (p_paging M) (vmem (ksys c')) a = Ret b) \<and>
    (\<forall>a. in_heap a \<longrightarrow> \<not> user_may (p_paging M) (page_tbl (vmem (ksys c'))) ReadOnly a) \<and>
    lstar c' = p_syscall_handler M \<and> sfmask c' AND INTERRUPT_FLAG = INTERRUPT_FLAG \<and>
    user_ready HEAP_START (regs c RSP) c'"
proof -
  obtain c' where "kernel_start oc M callee boot_info c = Ret c'" "booted M elf ps (ksys c) (regs c RSP) c'"
    using start_booted [OF assms] by blast
  then show ?thesis by (auto simp: booted_def in_stack_def user_ready_def)
qed

theorem kernel_boots_witness:
  "\<exists>c'. kernel_start True demo_platform (\<lambda>_ _. UB) demo_boot_info demo_boot_cpu = Ret c' \<and> rip c' = 0x660000 \<and>
    vread boot_paging (vmem (ksys c')) 0x660001 = Ret 0xfe \<and> user_ready HEAP_START 0x18000 c'"
proof -
  have "image_byte demo_bytes demo_segments 0x660001 = Some 0xfe"
    by (simp add: demo_segments_def seg_byte_def demo_bytes_def)
  with kernel_boots [OF demo_platform_docs demo_platform_ok demo_program_ok demo_memory_ok, of "\<lambda>_ _. UB" demo_boot_cpu]
  show ?thesis by (auto simp: demo_platform_def demo_boot_cpu_def)
qed

end
