(* ===== verification/Userland.thy ===== *)
theory Userland
  imports Entry
begin

text \<open>
  The user side: the functions \<^verbatim>\<open>write\<close>, \<^verbatim>\<open>read\<close> and \<^verbatim>\<open>exit\<close> of the library \<^verbatim>\<open>syscall/src/lib.rs\<close> and the
  program \<^verbatim>\<open>userspace_test/src/main.rs\<close>. They are calls of the stubs \<^verbatim>\<open>syscall_N\<close> with the System V
  convention: arguments in registers, the return address on the stack. The last fact runs the
  program against the kernel.
\<close>

section \<open>The library\<close>

text \<open>
  The caller's side of a stub: \<open>ret\<close> is the address after the call and \<open>next_rip\<close> the one after the
  \<^verbatim>\<open>syscall\<close> instruction in the stub. Registers of arguments a stub does not have keep their
  contents.
\<close>

definition syscall_3 :: "(string \<Rightarrow> ('s, 'z) cpu_scheme \<Rightarrow> ('s, 'z) cpu_scheme outcome) \<Rightarrow> u64 \<Rightarrow> u64
    \<Rightarrow> usize \<Rightarrow> usize \<Rightarrow> usize \<Rightarrow> usize \<Rightarrow> ('s, 'z) cpu_scheme \<Rightarrow> ('s, 'z) cpu_scheme outcome" where
  "syscall_3 callee next_rip ret num arg0 arg1 arg2 c =
     obind (push64 ret (c\<lparr>regs := (regs c)(RDI := num, RSI := arg0, RDX := arg1, RCX := arg2)\<rparr>)) (syscall_N callee next_rip)"

definition syscall_1 :: "(string \<Rightarrow> ('s, 'z) cpu_scheme \<Rightarrow> ('s, 'z) cpu_scheme outcome) \<Rightarrow> u64 \<Rightarrow> u64
    \<Rightarrow> usize \<Rightarrow> usize \<Rightarrow> ('s, 'z) cpu_scheme \<Rightarrow> ('s, 'z) cpu_scheme outcome" where
  "syscall_1 callee next_rip ret num arg0 c =
     obind (push64 ret (c\<lparr>regs := (regs c)(RDI := num, RSI := arg0)\<rparr>)) (syscall_N callee next_rip)"

text \<open>A slice is its address and its length; the result is in \<^verbatim>\<open>rax\<close>.\<close>

definition user_write :: "(string \<Rightarrow> ('s, 'z) cpu_scheme \<Rightarrow> ('s, 'z) cpu_scheme outcome) \<Rightarrow> u64 \<Rightarrow> u64
    \<Rightarrow> u32 \<Rightarrow> u64 \<times> usize \<Rightarrow> ('s, 'z) cpu_scheme \<Rightarrow> ('s, 'z) cpu_scheme outcome" where
  "user_write callee next_rip ret fd bytes =
     syscall_3 callee next_rip ret (ucast (Syscall_as_u8 Write)) (ucast fd) (fst bytes) (snd bytes)"

definition user_read :: "(string \<Rightarrow> ('s, 'z) cpu_scheme \<Rightarrow> ('s, 'z) cpu_scheme outcome) \<Rightarrow> u64 \<Rightarrow> u64
    \<Rightarrow> u32 \<Rightarrow> u64 \<times> usize \<Rightarrow> ('s, 'z) cpu_scheme \<Rightarrow> ('s, 'z) cpu_scheme outcome" where
  "user_read callee next_rip ret fd bytes =
     syscall_3 callee next_rip ret (ucast (Syscall_as_u8 Read)) (ucast fd) (fst bytes) (snd bytes)"

text \<open>\<^verbatim>\<open>unreachable_unchecked\<close>: coming back from the exit call would be undefined.\<close>

definition user_exit :: "(string \<Rightarrow> ('s, 'z) cpu_scheme \<Rightarrow> ('s, 'z) cpu_scheme outcome) \<Rightarrow> u64 \<Rightarrow> u64
    \<Rightarrow> u32 \<Rightarrow> ('s, 'z) cpu_scheme \<Rightarrow> 'r outcome" where
  "user_exit callee next_rip ret code c =
     obind (syscall_1 callee next_rip ret (ucast (Syscall_as_u8 Exit)) (ucast code) c) (\<lambda>_. UB)"

section \<open>The program\<close>

text \<open>\<open>s\<close> is the address of the string literal, \<open>r1\<close> and \<open>r2\<close> the two return addresses.\<close>

definition Test_print :: "u8 list" where
  "Test_print = str ''Test print''"

definition user_start :: "(string \<Rightarrow> ('s, 'z) cpu_scheme \<Rightarrow> ('s, 'z) cpu_scheme outcome) \<Rightarrow> u64 \<Rightarrow> u64
    \<Rightarrow> u64 \<Rightarrow> u64 \<Rightarrow> u64 \<Rightarrow> ('s, 'z) cpu_scheme \<Rightarrow> 'r outcome" where
  "user_start callee n3 n1 s r1 r2 c =
     obind (user_write callee n3 r1 0 (s, word_of_nat (length Test_print)) c)
       (user_exit callee n1 r2 0)"

definition user_panic :: "(string \<Rightarrow> ('s, 'z) cpu_scheme \<Rightarrow> ('s, 'z) cpu_scheme outcome) \<Rightarrow> u64 \<Rightarrow> u64
    \<Rightarrow> ('s, 'z) cpu_scheme \<Rightarrow> 'r outcome" where
  "user_panic callee n1 r = user_exit callee n1 r 1"

section \<open>Facts\<close>

text \<open>A user stack with room for two words that are not the kernel's.\<close>

definition user_stack_ok :: "u64 \<Rightarrow> u64 \<Rightarrow> u64 \<Rightarrow> u64 \<Rightarrow> bool" where
  "user_stack_ok td lo krsp sp \<longleftrightarrow> 8 dvd unat sp \<and> 16 \<le> unat sp \<and>
     (\<forall>a. a = sp - 8 \<or> a = sp - 16 \<longrightarrow> \<not> kernel_cell td lo krsp a \<and> a \<noteq> td)"

lemma user_stack_okD:
  assumes "user_stack_ok td lo krsp sp"
  shows "8 dvd unat (sp - 8)" "8 \<le> unat (sp - 8)" "\<not> kernel_cell td lo krsp (sp - 8)" "\<not> kernel_cell td lo krsp (sp - 8 - 8)"
    "sp - 8 - 8 \<noteq> td" "sp - 8 \<noteq> td"
proof -
  have "8 dvd unat sp" "16 \<le> unat sp" using assms by (simp_all add: user_stack_ok_def)
  then show "8 dvd unat (sp - 8)" "8 \<le> unat (sp - 8)" using sub8_aligned [of sp] by simp_all
  have "sp - 8 - 8 = sp - 16" by simp
  then show "\<not> kernel_cell td lo krsp (sp - 8)" "\<not> kernel_cell td lo krsp (sp - 8 - 8)" "sp - 8 - 8 \<noteq> td" "sp - 8 \<noteq> td"
    using assms by (simp_all only: user_stack_ok_def) auto
qed

text \<open>Calling a stub whose system call returns.\<close>

lemma stub_call:
  assumes l: "layout td lo krsp" and r: "user_ready td krsp c" and sp: "user_stack_ok td lo krsp (regs c RSP)"
    and rs: "rs RSP = regs c RSP" "\<forall>q \<in> callee_saved. rs q = regs c q"
    and v: "syscall_handler_inner oc X I L (rs RDI) (rs RSI) (rs RDX) (rs RCX) (rs R8) (rs R9) (ksys c) = Ret (v, s')"
  shows "\<exists>c'. obind (push64 ret (c\<lparr>regs := rs\<rparr>)) (syscall_N (kernel_functions oc X I L lo jr jm) next_rip) = Ret c' \<and>
    regs c' RAX = v \<and> ksys c' = s' \<and> rip c' = ret \<and> regs c' RSP = regs c RSP \<and>
    (\<forall>q \<in> callee_saved. regs c' q = regs c q) \<and> user_ready td krsp c'"
proof -
  note sp' = user_stack_okD [OF sp]
  let ?c = "c\<lparr>regs := rs(RSP := regs c RSP - 8), cells := (cells c)(regs c RSP - 8 := ret)\<rparr>"
  have p: "push64 ret (c\<lparr>regs := rs\<rparr>) = Ret ?c" using sp'(1) rs(1) by (simp add: push64_def store64_def set_reg_def Let_def)
  have r': "user_ready td krsp ?c" using r sp'(6) by (simp add: user_ready_def cpl_def)
  have v': "syscall_handler_inner oc X I L (regs ?c RDI) (regs ?c RSI) (regs ?c RDX) (regs ?c RCX) (regs ?c R8) (regs ?c R9) (ksys ?c)
      = Ret (v, s')" using v by simp
  from syscall_N_eq [where callee = "kernel_functions oc X I L lo jr jm", OF l r' kernel_functions_inner _ _ _ _ _ v', of next_rip] sp'
  obtain c' where c': "syscall_N (kernel_functions oc X I L lo jr jm) next_rip ?c = Ret c'" "regs c' RAX = v" "ksys c' = s'"
    "rip c' = cells ?c (regs ?c RSP)" "regs c' RSP = regs ?c RSP + 8" "\<forall>q \<in> callee_saved - {RSP}. regs c' q = regs ?c q"
    "user_ready td krsp c'" by auto
  have "regs c' RSP = regs c RSP" "rip c' = ret" using c'(4,5) by simp_all
  moreover have "\<forall>q \<in> callee_saved. regs c' q = regs c q" using c'(6) rs(2) calculation(1) by (auto simp: callee_saved_def)
  ultimately show ?thesis using p c'(1-3,7) by simp
qed

text \<open>Calling a stub whose system call does not come back.\<close>

lemma stub_diverges:
  assumes l: "layout td lo krsp" and r: "user_ready td krsp c" and sp: "user_stack_ok td lo krsp (regs c RSP)"
    and rs: "rs RSP = regs c RSP"
    and v: "\<And>a0 a1 a2 a3 a4 s. syscall_handler_inner oc X I L (rs RDI) a0 a1 a2 a3 a4 s = Diverge"
  shows "obind (push64 ret (c\<lparr>regs := rs\<rparr>)) (syscall_N (kernel_functions oc X I L lo jr jm) next_rip) = Diverge"
proof -
  note sp' = user_stack_okD [OF sp] and d = layoutD [OF l] layout_distinct [OF l]
  let ?f = "kernel_functions oc X I L lo jr jm"
  let ?c = "c\<lparr>regs := rs(RSP := regs c RSP - 8), cells := (cells c)(regs c RSP - 8 := ret)\<rparr>"
  let ?c1 = "?c\<lparr>regs := (regs ?c)(RSP := regs ?c RSP - 8, RBP := regs ?c RSP - 8, R10 := regs ?c RCX),
    cells := (cells ?c)(regs ?c RSP - 8 := regs ?c RBP), rip := next_rip\<rparr>"
  have p: "push64 ret (c\<lparr>regs := rs\<rparr>) = Ret ?c" using sp'(1) rs by (simp add: push64_def store64_def set_reg_def Let_def)
  have u: "efer_sce ?c1" "kernel_gs_base ?c1 = td" "cells ?c1 td = krsp" "regs ?c1 RDI = rs RDI"
    using r sp'(5,6) by (simp_all add: user_ready_def)
  have "do_syscall ?f ?c1 = Diverge"
    using u d v
    by (simp add: do_syscall_def syscall_handler_def syscall_instr_def exec_defs cpl_def ring_bits kernel_functions_inner
        sysv_call_def del: fun_upd_apply) (simp add: fun_upd_apply)
  then show ?thesis using stub_before [of ?c ?f] sp'(1,2) by (simp add: p syscall_N_def)
qed

lemma exit_diverges: "syscall_handler_inner oc X I L 3 a0 a1 a2 a3 a4 s = Diverge"
  by (simp add: syscall_handler_inner_def syscall_inner_def STRACE_def try_from_simps process_exit_def)

lemma write_returns:
  assumes "env_docs X I L" and "kernel_ok s" and "range_in_half ptr len" and "user_range X (page_tbl (vmem s)) ReadOnly ptr len"
  shows "syscall_handler_inner oc X I L 2 fd ptr len a3 a4 s =
    Ret (len, printed (str ''write'' @ [0x0a] @ user_bytes X (vmem s) ptr len) s)"
  using small_length [OF assms(3)] assms(4)
  by (simp add: syscall_handler_inner_def syscall_inner_def STRACE_def try_from_simps with_slice_exact [OF assms(1-3)]
      with_bytes_exact [OF assms(3)] io_write_eq [OF env_docsD(4,5) [OF assms(1)] assms(2)] user_bytes_length)

text \<open>The test program does what it says: started in user mode with the kernel ready, its call of
  \<^verbatim>\<open>write\<close> returns 10 to the instruction after the call, with stack pointer and preserved registers as
  before, and the kernel has printed the line \<^verbatim>\<open>write\<close> and then the text of the program; after that
  the program exits and never returns.\<close>

lemma program_runs:
  assumes "env_docs X I L" and "layout td lo krsp" and "user_ready td krsp c" and "kernel_ok (ksys c)"
    and "user_stack_ok td lo krsp (regs c RSP)" and "range_in_half s 10"
    and "user_range X (page_tbl (vmem (ksys c))) ReadOnly s 10" and "user_bytes X (vmem (ksys c)) s 10 = Test_print"
  shows "\<exists>c'. user_write (kernel_functions oc X I L lo jr jm) n3 r 0 (s, word_of_nat (length Test_print)) c = Ret c' \<and>
    regs c' RAX = 10 \<and> rip c' = r \<and> (\<forall>q \<in> callee_saved. regs c' q = regs c q) \<and>
    ksys c' = printed (str ''write'' @ [0x0a] @ Test_print) (ksys c) \<and> user_ready td krsp c' \<and>
    user_start (kernel_functions oc X I L lo jr jm) n3 n1 s r r2 c = (Diverge :: 'r outcome)"
proof -
  have n: "word_of_nat (length Test_print) = (10 :: usize)" by (simp add: Test_print_def str_def)
  let ?F = "kernel_functions oc X I L lo jr jm" and ?rs = "(regs c)(RDI := 2, RSI := 0, RDX := s, RCX := 10)"
  have w: "syscall_handler_inner oc X I L (?rs RDI) (?rs RSI) (?rs RDX) (?rs RCX) (?rs R8) (?rs R9) (ksys c) =
      Ret (10, printed (str ''write'' @ [0x0a] @ Test_print) (ksys c))"
    using write_returns [OF assms(1,4,6,7)] assms(8) by simp
  have q: "?rs RSP = regs c RSP" "\<forall>q \<in> callee_saved. ?rs q = regs c q" by (simp_all add: callee_saved_def)
  from stub_call [OF assms(2,3,5) q w, of r jr jm n3]
  obtain c' where c': "obind (push64 r (c\<lparr>regs := ?rs\<rparr>)) (syscall_N ?F n3) = Ret c'" "regs c' RAX = 10"
    "ksys c' = printed (str ''write'' @ [0x0a] @ Test_print) (ksys c)" "rip c' = r" "regs c' RSP = regs c RSP"
    "\<forall>q \<in> callee_saved. regs c' q = regs c q" "user_ready td krsp c'" by blast
  have uw: "user_write ?F n3 r 0 (s, word_of_nat (length Test_print)) c = Ret c'"
    using c'(1) n by (simp add: user_write_def syscall_3_def)
  have "user_stack_ok td lo krsp (regs c' RSP)" using assms(5) c'(5) by simp
  from stub_diverges [OF assms(2) c'(7) this, of "(regs c')(RDI := 3, RSI := 0)" oc X I L r2 jr jm n1]
  have "obind (push64 r2 (c'\<lparr>regs := (regs c')(RDI := 3, RSI := 0)\<rparr>)) (syscall_N ?F n1) = Diverge"
    by (simp add: exit_diverges)
  then have "user_exit ?F n1 r2 0 c' = (Diverge :: 'r outcome)" by (simp add: user_exit_def syscall_1_def)
  then show ?thesis using uw c' by (simp add: user_start_def)
qed

text \<open>A program image with the string, for examples.\<close>

definition demo_user :: "(Page \<rightharpoonup> PhysFrame \<times> PageTableFlags) kernel cpu" where
  "demo_user = demo_cpu\<lparr>ksys := demo_kernel\<lparr>vmem := \<lparr>page_tbl = demo_pt,
     phys = (\<lambda>a. if 0x8010 \<le> a \<and> a < 0x801a then Test_print ! unat (a - 0x8010) else 0)\<rparr>\<rparr>\<rparr>"

end
