(* ===== verification/Session.thy ===== *)
theory Session
  imports Boot Userland
begin

text \<open>
  The life of the user program after the boot: code of its own, limited by the page table the
  kernel has set up and by the privilege level, and system calls. The theory puts the boot, the
  entry code, the system calls and the page table together: whatever the program does, the kernel
  stays ready for its next call and its memory stays what it was.
\<close>

section \<open>What user code can do\<close>

text \<open>The physical bytes behind the pages user code may write.\<close>

definition user_phys :: "('pt, 'fa) paging \<Rightarrow> 'pt \<Rightarrow> PhysAddr \<Rightarrow> bool" where
  "user_phys X pt x \<longleftrightarrow> (\<exists>a f off fl. pt_translate X pt a = Mapped f off fl \<and> x = f + off \<and> user_may X pt ReadWrite a)"

text \<open>
  Instructions at privilege level 3, as many as it likes: they change the general registers, the
  flags and GS (\<^verbatim>\<open>wrgsbase\<close> is allowed once \<^verbatim>\<open>CR4.FSGSBASE\<close> is set), and memory through writable
  user pages; control registers, model specific registers and all other memory are out of reach.
\<close>

definition user_code :: "('pt, 'fa) paging \<Rightarrow> (('pt, 'z) kernel_scheme, 'y) cpu_scheme
    \<Rightarrow> (('pt, 'z) kernel_scheme, 'y) cpu_scheme \<Rightarrow> bool" where
  "user_code X c c' \<longleftrightarrow> (let pt = page_tbl (vmem (ksys c)) in
     cpl c = 3 \<and> cpl c' = 3 \<and> efer_sce c' = efer_sce c \<and> kernel_gs_base c' = kernel_gs_base c \<and>
     star c' = star c \<and> lstar c' = lstar c \<and> sfmask c' = sfmask c \<and>
     (\<forall>a. cells c' a \<noteq> cells c a \<longrightarrow> user_may X pt ReadWrite a) \<and>
     (\<exists>ph. ksys c' = (ksys c)\<lparr>vmem := (vmem (ksys c))\<lparr>phys := ph\<rparr>\<rparr> \<and>
       (\<forall>x. ph x \<noteq> phys (vmem (ksys c)) x \<longrightarrow> user_phys X pt x)))"

inductive session_step :: "('pt, 'fa) paging
    \<Rightarrow> (string \<Rightarrow> (('pt, 'z) kernel_scheme, 'y) cpu_scheme \<Rightarrow> (('pt, 'z) kernel_scheme, 'y) cpu_scheme outcome)
    \<Rightarrow> (('pt, 'z) kernel_scheme, 'y) cpu_scheme \<Rightarrow> (('pt, 'z) kernel_scheme, 'y) cpu_scheme \<Rightarrow> bool"
  for X callee where
  own_code: "user_code X c c' \<Longrightarrow> session_step X callee c c'"
| call: "do_syscall callee c = Ret c' \<Longrightarrow> session_step X callee c c'"

inductive_cases session_stepE: "session_step X callee c c'"

section \<open>The invariant\<close>

text \<open>
  Compared with the state \<open>c0\<close> at the start of the session: the page table is the same, and memory
  is the same but for what the program may write and the kernel's stack and scratch word.
\<close>

definition session_inv :: "('pt, 'fa) paging \<Rightarrow> u64 \<Rightarrow> u64 \<Rightarrow> u64 \<Rightarrow> (('pt, 'z) kernel_scheme, 'y) cpu_scheme
    \<Rightarrow> (('pt, 'z) kernel_scheme, 'y) cpu_scheme \<Rightarrow> bool" where
  "session_inv X td lo krsp c0 c \<longleftrightarrow> (let pt = page_tbl (vmem (ksys c0)) in
     user_ready td krsp c \<and> kernel_ok (ksys c) \<and> page_tbl (vmem (ksys c)) = pt \<and>
     star c = star c0 \<and> lstar c = lstar c0 \<and> sfmask c = sfmask c0 \<and>
     (\<forall>a. \<not> user_may X pt ReadWrite a \<and> \<not> kernel_cell td lo krsp a \<longrightarrow> cells c a = cells c0 a) \<and>
     (\<forall>x. \<not> user_phys X pt x \<longrightarrow> phys (vmem (ksys c)) x = phys (vmem (ksys c0)) x))"

lemma user_code_inv:
  assumes "session_inv X td lo krsp c0 c" and "user_code X c c'" and "\<not> user_may X (page_tbl (vmem (ksys c0))) ReadWrite td"
  shows "session_inv X td lo krsp c0 c'"
proof -
  let ?pt = "page_tbl (vmem (ksys c0))"
  have i: "user_ready td krsp c" "kernel_ok (ksys c)" "page_tbl (vmem (ksys c)) = ?pt" "star c = star c0"
    "lstar c = lstar c0" "sfmask c = sfmask c0"
    "\<And>a. \<not> user_may X ?pt ReadWrite a \<Longrightarrow> \<not> kernel_cell td lo krsp a \<Longrightarrow> cells c a = cells c0 a"
    "\<And>x. \<not> user_phys X ?pt x \<Longrightarrow> phys (vmem (ksys c)) x = phys (vmem (ksys c0)) x"
    using assms(1) by (simp_all add: session_inv_def Let_def)
  obtain ph where u: "cpl c' = 3" "efer_sce c' = efer_sce c" "kernel_gs_base c' = kernel_gs_base c" "star c' = star c"
    "lstar c' = lstar c" "sfmask c' = sfmask c" "\<And>a. cells c' a \<noteq> cells c a \<Longrightarrow> user_may X ?pt ReadWrite a"
    "ksys c' = (ksys c)\<lparr>vmem := (vmem (ksys c))\<lparr>phys := ph\<rparr>\<rparr>" "\<And>x. ph x \<noteq> phys (vmem (ksys c)) x \<Longrightarrow> user_phys X ?pt x"
    using assms(2) unfolding user_code_def i(3) Let_def by blast
  have "cells c' td = cells c td" using u(7) assms(3) by blast
  then have "user_ready td krsp c'" using i(1) u(1-3) by (simp add: user_ready_def)
  moreover have "kernel_ok (ksys c')" using i(2) by (simp add: u(8) kernel_ok_def)
  moreover have "cells c' a = cells c0 a" if "\<not> user_may X ?pt ReadWrite a" "\<not> kernel_cell td lo krsp a" for a
    using u(7) i(7) that by metis
  moreover have "phys (vmem (ksys c')) x = phys (vmem (ksys c0)) x" if "\<not> user_phys X ?pt x" for x
    using u(9) [of x] i(8) [OF that] that by (auto simp: u(8))
  ultimately show ?thesis using u(4-6) i(3-6) by (simp add: session_inv_def Let_def u(8))
qed

lemma do_syscall_msrs:
  assumes "layout td lo krsp" and "user_ready td krsp c"
    and "callee ''syscall_handler_inner'' = sysv_call lo junk_reg junk_mem f"
    and "do_syscall callee c = Ret c'"
  shows "star c' = star c \<and> lstar c' = lstar c \<and> sfmask c' = sfmask c"
  using assms(4)
  by (auto simp: do_syscall_def syscall_handler_def syscall_instr_def exec_defs cpl_def assms(3) sysv_call_def outcome_simps
      split: if_splits)

lemma call_inv:
  assumes "env_docs X I L" and "layout td lo krsp" and "session_inv X td lo krsp c0 c"
    and "do_syscall (kernel_functions oc X I L lo jr jm) c = Ret c'"
  shows "session_inv X td lo krsp c0 c'"
proof -
  let ?K = "kernel_functions oc X I L lo jr jm"
  have i: "user_ready td krsp c" "kernel_ok (ksys c)" using assms(3) by (simp_all add: session_inv_def Let_def)
  obtain v s' where f: "syscall_handler_inner oc X I L (regs c RDI) (regs c RSI) (regs c RDX) (regs c R10) (regs c R8)
      (regs c R9) (ksys c) = Ret (v, s')"
    using do_syscall_returned [where callee = ?K, OF assms(2) i(1) kernel_functions_inner assms(4)] by blast
  have "user_ready td krsp c'" "ksys c' = s'" "\<And>a. \<not> kernel_cell td lo krsp a \<Longrightarrow> cells c' a = cells c a"
    using do_syscall_eq [where callee = ?K, OF assms(2) i(1) kernel_functions_inner f] assms(4) by auto
  moreover have "vmem s' = vmem (ksys c)" "kernel_ok s'" using call_contained [OF assms(1) i(2) f] by blast+
  moreover have "star c' = star c \<and> lstar c' = lstar c \<and> sfmask c' = sfmask c"
    by (rule do_syscall_msrs [where callee = ?K, OF assms(2) i(1) kernel_functions_inner assms(4)])
  ultimately show ?thesis using assms(3) by (simp add: session_inv_def Let_def)
qed

text \<open>A session starts when the kernel is ready for it and user code cannot write the thread data.\<close>

definition session_start :: "('pt, 'fa) paging \<Rightarrow> ('pt, 'z) kernel_scheme irq_api \<Rightarrow> ('pt, 'z) kernel_ext lock_fn
    \<Rightarrow> u64 \<Rightarrow> u64 \<Rightarrow> u64 \<Rightarrow> (('pt, 'z) kernel_scheme, 'y) cpu_scheme \<Rightarrow> bool" where
  "session_start X I L td lo krsp c \<longleftrightarrow> env_docs X I L \<and> layout td lo krsp \<and> user_ready td krsp c \<and> kernel_ok (ksys c) \<and>
     \<not> user_may X (page_tbl (vmem (ksys c))) ReadWrite td"

interpretation session: inductive_invariant
  "\<lambda>c. session_start X I L td lo krsp c0 \<and> c = c0"
  "session_step X (kernel_functions oc X I L lo jr jm)"
  "\<lambda>c. session_start X I L td lo krsp c0 \<and> session_inv X td lo krsp c0 c"
  for X I L td lo krsp oc jr jm c0
proof
  show "session_start X I L td lo krsp c0 \<and> session_inv X td lo krsp c0 c"
    if "session_start X I L td lo krsp c0 \<and> c = c0" for c
    using that by (simp add: session_start_def session_inv_def Let_def)
  show "session_start X I L td lo krsp c0 \<and> session_inv X td lo krsp c0 c'"
    if "session_start X I L td lo krsp c0 \<and> session_inv X td lo krsp c0 c"
      and "session_step X (kernel_functions oc X I L lo jr jm) c c'" for c c'
    using that user_code_inv call_inv unfolding session_start_def by (auto elim!: session_stepE)
qed

section \<open>The property\<close>

text \<open>C2. The program cannot break the kernel: from the boot on, through any sequence of user code that
  the page table and the privilege level permit and system calls that return, with any arguments,
  the next system call will enter the kernel's handler with interrupts masked and find the thread
  data and the initial kernel stack; the page table is the one the boot has made, so the kernel heap
  is never accessible; the console is well-formed and its lock is free; every memory cell outside
  the program's writable pages, the kernel stack and the scratch word of the thread data has kept its
  value, and so has every physical byte that no writable page of the program shows.\<close>

theorem user_program_contained:
  assumes "platform_docs M slots entry" and "platform_ok M boot_info" and "program_ok oc M boot_info elf ps"
    and "memory_ok M boot_info (116 + 4 * length ps)"
    and "env_docs (p_paging M) I L" and "writer_ok (WRITER (ksys c))" and "\<not> writer_locked (ksys c)"
    and "layout HEAP_START lo (regs c RSP)"
    and "kernel_start oc M (kernel_functions oc (p_paging M) I L lo jr jm) boot_info c = Ret c0"
    and "reach (\<lambda>x. x = c0) (session_step (p_paging M) (kernel_functions oc (p_paging M) I L lo jr jm)) c'"
  shows "user_ready HEAP_START (regs c RSP) c' \<and> lstar c' = p_syscall_handler M \<and>
    sfmask c' AND INTERRUPT_FLAG = INTERRUPT_FLAG \<and> kernel_ok (ksys c') \<and>
    page_tbl (vmem (ksys c')) = page_tbl (vmem (ksys c0)) \<and>
    (\<forall>a. in_heap a \<longrightarrow> \<not> user_may (p_paging M) (page_tbl (vmem (ksys c'))) ReadOnly a) \<and>
    (\<forall>a. \<not> user_may (p_paging M) (page_tbl (vmem (ksys c'))) ReadWrite a \<and> a \<noteq> HEAP_START + 8 \<and> \<not> (lo \<le> a \<and> a < regs c RSP)
      \<longrightarrow> cells c' a = cells c0 a) \<and>
    (\<forall>x. \<not> user_phys (p_paging M) (page_tbl (vmem (ksys c'))) x \<longrightarrow> phys (vmem (ksys c')) x = phys (vmem (ksys c0)) x)"
proof -
  let ?X = "p_paging M" and ?K = "kernel_functions oc (p_paging M) I L lo jr jm"
  have b: "booted M elf ps (ksys c) (regs c RSP) c0" using start_booted [OF assms(1-4), of ?K c] assms(9) by simp
  then have c0: "ksys c0 = (ksys c)\<lparr>vmem := vmem (ksys c0), mapper_ready := True\<rparr>" by (simp add: booted_def)
  have "WRITER (ksys c0) = WRITER (ksys c)" "writer_locked (ksys c0) = writer_locked (ksys c)" "mapper_ready (ksys c0)"
    by (subst c0, simp)+
  then have k: "kernel_ok (ksys c0)" using assms(6,7) by (simp add: kernel_ok_def)
  have h: "\<And>a. in_heap a \<Longrightarrow> \<not> user_may ?X (page_tbl (vmem (ksys c0))) ReadOnly a" using b by (simp add: booted_def)
  have "in_heap HEAP_START" by (simp add: in_heap_unat HEAP_START_def)
  then have "\<not> user_may ?X (page_tbl (vmem (ksys c0))) ReadWrite HEAP_START"
    using h [of HEAP_START] by (auto simp: user_may_def split: TranslateResult.splits)
  then have s: "session_start ?X I L HEAP_START lo (regs c RSP) c0"
    using assms(5,8) b k by (simp add: session_start_def booted_def)
  have "reach (\<lambda>x. session_start ?X I L HEAP_START lo (regs c RSP) c0 \<and> x = c0) (session_step ?X ?K) c'"
    using assms(10) s by simp
  from session.inv_reach [OF this] have "session_inv ?X HEAP_START lo (regs c RSP) c0 c'" by blast
  then show ?thesis using h b unfolding session_inv_def Let_def booted_def kernel_cell_def by simp
qed

theorem user_program_contained_witness:
  "\<exists>c0 c'. kernel_start True demo_platform demo_functions demo_boot_info demo_boot_cpu = Ret c0 \<and> c' \<noteq> c0 \<and>
    session_step boot_paging demo_functions c0 c' \<and> user_ready HEAP_START 0x18000 c' \<and> kernel_ok (ksys c')"
proof -
  have X: "p_paging demo_platform = boot_paging" by (simp add: demo_platform_def)
  have d: "env_docs (p_paging demo_platform) std_irq std_lock" "writer_ok (WRITER (ksys demo_boot_cpu))"
    "\<not> writer_locked (ksys demo_boot_cpu)" "layout HEAP_START 0x10000 (regs demo_boot_cpu RSP)"
    using demo_env(1,2) demo_cpu_ready(1) by (simp_all add: X demo_boot_cpu_def kernel_ok_def)
  obtain c0 where c0: "kernel_start True demo_platform demo_functions demo_boot_info demo_boot_cpu = Ret c0"
    "booted demo_platform \<lparr>segments = demo_segments, entry_point = 0x660000\<rparr> demo_pages (ksys demo_boot_cpu) (regs demo_boot_cpu RSP) c0"
    using start_booted [OF demo_platform_docs demo_platform_ok demo_program_ok demo_memory_ok] by blast
  let ?c = "c0\<lparr>rip := rip c0 + 2\<rparr>"
  have "user_code boot_paging c0 ?c"
    using c0(2) by (auto simp: user_code_def booted_def user_ready_def cpl_def Let_def intro: exI [of _ "phys (vmem (ksys c0))"])
  then have st: "session_step boot_paging demo_functions c0 ?c" by (rule session_step.own_code)
  have r: "reach (\<lambda>x. x = c0) (session_step boot_paging demo_functions) ?c"
    using st by (intro reach.reach_step [where s = c0 and t = ?c] reach.reach_init) simp_all
  have n: "?c \<noteq> c0"
  proof
    assume "?c = c0"
    then have "rip ?c = rip c0" by simp
    then show False by simp
  qed
  have "user_ready HEAP_START (regs demo_boot_cpu RSP) ?c \<and> kernel_ok (ksys ?c)"
    using user_program_contained [OF demo_platform_docs demo_platform_ok demo_program_ok demo_memory_ok d, unfolded X, OF c0(1) r]
    by blast
  moreover have "regs demo_boot_cpu RSP = 0x18000" by (simp add: demo_boot_cpu_def)
  ultimately show ?thesis using c0(1) n st by (intro exI [of _ c0] exI [of _ ?c]) simp
qed

end
