(* ===== verification/Idle.thy ===== *)
theory Idle
  imports Interrupts
begin

text \<open>
  The asynchronous part of the kernel as a whole: the loop of \<^verbatim>\<open>Executor::run\<close>
  (\<^verbatim>\<open>kernel/src/task/executor.rs\<close>) with the task \<^verbatim>\<open>print_keypresses\<close> and any other tasks, sleeping
  when no task is due, while timer and keyboard interrupts come at any moment at which the
  processor accepts them. Every operation on something an interrupt handler also touches is a step
  of its own. The properties: a scancode is never left in the queue with the reader not due; the
  core never sleeps while there is something to do; scancodes are received in the order of the
  key presses; a key pressed while the core sleeps is received.
\<close>

section \<open>State\<close>

text \<open>
  Where the executor is: taking a task from the queue, polling a task other than the reader, in
  the poll of the reader before one of its operations, or about to sleep.
\<close>

datatype pc = Popping | Busy | Starting | First | Registering | Second | Taking u8 | Received u8 | Idling

text \<open>\<open>accepted\<close> and \<open>received\<close> record the scancodes that got into the queue and to the reader.\<close>

record ('c, 'a, 'tq, 'k) async = "('c, 'a, 'tq) irqs" +
  pc :: pc
  reader :: "'k PrintKeypresses"
  accepted :: "u8 list"
  received :: "u8 list"

type_synonym ('q, 'c, 'a, 'tq, 'ev, 'kc, 'k) async_crates =
  "('q, 'c, 'a, 'tq, 'ev, 'kc, 'k, (('k, unit) async_ext) irqs_ext) key_crates"

section \<open>Steps\<close>

definition sleep_if_idle :: "('q, 'c, 'a, 'tq, 'ev, 'kc, 'k, 'z) key_crates
    \<Rightarrow> ('c, 'a, 'tq, 'z) keys_scheme \<Rightarrow> ('c, 'a, 'tq, 'z) keys_scheme" where
  "sleep_if_idle E = wait_for_interrupts_if (k_irq E) (\<lambda>s. aq_is_empty (k_tasks E) (run_queue s))"

definition start_reader :: "('q, 'c, 'a, 'tq, 'ev, 'kc, 'k) async_crates
    \<Rightarrow> ('c, 'a, 'tq, 'k) async \<Rightarrow> ('c, 'a, 'tq, 'k) async" where
  "start_reader E s = (case reader s of
     Unresumed \<Rightarrow> (ScancodeStream_new E s)\<lparr>reader := Suspended (kb_new (k_decoder E))\<rparr>
   | Suspended k \<Rightarrow> s)"

text \<open>Whether the queue takes another scancode, given what the crate documents of its contents.\<close>

definition has_room :: "('q, 'c, 'a, 'tq, 'ev, 'kc, 'k) async_crates \<Rightarrow> ('q \<Rightarrow> u8 list) \<Rightarrow> ('q \<Rightarrow> nat)
    \<Rightarrow> ('c, 'a, 'tq, 'k) async \<Rightarrow> bool" where
  "has_room E items capa s = (case once_try_get (k_cell E) (SCANCODE_QUEUE s) of
     None \<Rightarrow> False | Some q \<Rightarrow> length (items q) < capa q)"

inductive async_step :: "('q, 'c, 'a, 'tq, 'ev, 'kc, 'k) async_crates \<Rightarrow> ('p, ('c, 'a, 'tq, 'k) async) irq_hw
    \<Rightarrow> (nat \<Rightarrow> (handler \<times> nat option) option) \<Rightarrow> ('q \<Rightarrow> u8 list) \<Rightarrow> ('q \<Rightarrow> nat) \<Rightarrow> TaskId
    \<Rightarrow> ('c, 'a, 'tq, 'k) async \<Rightarrow> ('c, 'a, 'tq, 'k) async \<Rightarrow> bool"
  for E P vectors items capa i where
  pop_reader: "\<not> halted s \<Longrightarrow> pc s = Popping \<Longrightarrow> aq_pop (k_tasks E) (run_queue s) = (Some i, tq)
    \<Longrightarrow> async_step E P vectors items capa i s (s\<lparr>run_queue := tq, pc := Starting\<rparr>)"
| pop_other: "\<not> halted s \<Longrightarrow> pc s = Popping \<Longrightarrow> aq_pop (k_tasks E) (run_queue s) = (Some j, tq) \<Longrightarrow> j \<noteq> i
    \<Longrightarrow> async_step E P vectors items capa i s (s\<lparr>run_queue := tq, pc := Busy\<rparr>)"
| pop_none: "\<not> halted s \<Longrightarrow> pc s = Popping \<Longrightarrow> aq_pop (k_tasks E) (run_queue s) = (None, tq)
    \<Longrightarrow> async_step E P vectors items capa i s (s\<lparr>run_queue := tq, pc := Idling\<rparr>)"
| other_wakes: "\<not> halted s \<Longrightarrow> pc s = Busy \<Longrightarrow> wake_task (k_tasks E) j (run_queue s) = Ret tq
    \<Longrightarrow> async_step E P vectors items capa i s (s\<lparr>run_queue := tq\<rparr>)"
| other_prints: "\<not> halted s \<Longrightarrow> pc s = Busy \<Longrightarrow> print (k_irq E) (k_lock E) args s = Ret s'
    \<Longrightarrow> async_step E P vectors items capa i s s'"
| other_done: "\<not> halted s \<Longrightarrow> pc s = Busy \<Longrightarrow> async_step E P vectors items capa i s (s\<lparr>pc := Popping\<rparr>)"
| start: "\<not> halted s \<Longrightarrow> pc s = Starting
    \<Longrightarrow> async_step E P vectors items capa i s ((start_reader E s)\<lparr>pc := First\<rparr>)"
| first: "\<not> halted s \<Longrightarrow> pc s = First \<Longrightarrow> pop_scancode E s = Ret (r, s')
    \<Longrightarrow> async_step E P vectors items capa i s
          (s'\<lparr>pc := (case r of None \<Rightarrow> Registering | Some c \<Rightarrow> Received c)\<rparr>)"
| register: "\<not> halted s \<Longrightarrow> pc s = Registering
    \<Longrightarrow> async_step E P vectors items capa i s ((register_waker E i s)\<lparr>pc := Second\<rparr>)"
| second: "\<not> halted s \<Longrightarrow> pc s = Second \<Longrightarrow> pop_scancode E s = Ret (r, s')
    \<Longrightarrow> async_step E P vectors items capa i s
          (s'\<lparr>pc := (case r of None \<Rightarrow> Popping | Some c \<Rightarrow> Taking c)\<rparr>)"
| unregister: "\<not> halted s \<Longrightarrow> pc s = Taking c
    \<Longrightarrow> async_step E P vectors items capa i s ((take_waker E s)\<lparr>pc := Received c\<rparr>)"
| receive: "\<not> halted s \<Longrightarrow> pc s = Received c \<Longrightarrow> reader s = Suspended k
    \<Longrightarrow> print_keypress E c (k, s) = Ret (k', s')
    \<Longrightarrow> async_step E P vectors items capa i s
          (s'\<lparr>reader := Suspended k', pc := First, received := received s @ [c]\<rparr>)"
| sleep: "\<not> halted s \<Longrightarrow> pc s = Idling
    \<Longrightarrow> async_step E P vectors items capa i s ((sleep_if_idle E s)\<lparr>pc := Popping\<rparr>)"
| timer: "int_flag s \<Longrightarrow> in_service s = [] \<Longrightarrow> interrupt E P vectors 32 s = Ret s'
    \<Longrightarrow> async_step E P vectors items capa i s s'"
| key: "int_flag s \<Longrightarrow> in_service s = [] \<Longrightarrow> interrupt E P vectors 33 (s\<lparr>kbd_data := c\<rparr>) = Ret s'
    \<Longrightarrow> async_step E P vectors items capa i s
          (s'\<lparr>accepted := accepted s @ (if has_room E items capa s then [c] else [])\<rparr>)"

text \<open>
  The start of \<^verbatim>\<open>Executor::run\<close>: the reader has been spawned into a new executor, nothing has run.
\<close>

definition async_init :: "('q, 'c, 'a, 'tq, 'ev, 'kc, 'k) async_crates \<Rightarrow> TaskId \<Rightarrow> ('c, 'a, 'tq, 'k) async \<Rightarrow> bool" where
  "async_init E i s \<longleftrightarrow> \<not> halted s \<and> writer_ok (WRITER s) \<and> \<not> writer_locked s \<and>
     SCANCODE_QUEUE s = once_uninit (k_cell E) \<and> WAKER s = aw_new (k_waker E) \<and>
     wake_task (k_tasks E) i (aq_new (k_tasks E) MAX_TASKS) = Ret (run_queue s) \<and>
     in_service s = [] \<and> \<not> pics_locked s \<and> pc s = Popping \<and> reader s = Unresumed \<and>
     accepted s = [] \<and> received s = []"

section \<open>What the crates document\<close>

definition async_docs :: "('q, 'c, 'a, 'tq, 'ev, 'kc, 'k) async_crates \<Rightarrow> ('p, ('c, 'a, 'tq, 'k) async) irq_hw
    \<Rightarrow> ('q \<Rightarrow> u8 list) \<Rightarrow> ('q \<Rightarrow> nat) \<Rightarrow> ('a \<Rightarrow> TaskId option)
    \<Rightarrow> ('tq \<Rightarrow> TaskId list) \<Rightarrow> ('tq \<Rightarrow> nat) \<Rightarrow> bool" where
  "async_docs E P items capa slot due tcapa \<longleftrightarrow>
     irq_docs (k_irq E) \<and> lock_docs (k_lock E) \<and> queue_docs (k_queue E) items capa \<and> once_docs (k_cell E) \<and>
     waker_docs (k_waker E) slot \<and> queue_docs (k_tasks E) due tcapa \<and> hw_docs P"

section \<open>The operations under the documented behaviour\<close>

definition scancodes :: "('q, 'c, 'a, 'tq, 'ev, 'kc, 'k, 'z) key_crates \<Rightarrow> ('q \<Rightarrow> u8 list)
    \<Rightarrow> ('c, 'a, 'tq, 'z) keys_scheme \<Rightarrow> u8 list" where
  "scancodes E items s = (case once_try_get (k_cell E) (SCANCODE_QUEUE s) of None \<Rightarrow> [] | Some q \<Rightarrow> items q)"

lemma async_docsD:
  assumes "async_docs E P items capa slot due tcapa"
  shows "irq_docs (k_irq E)" "lock_docs (k_lock E)" "queue_docs (k_queue E) items capa" "once_docs (k_cell E)"
    "waker_docs (k_waker E) slot" "queue_docs (k_tasks E) due tcapa" "hw_docs P"
  using assms by (simp_all add: async_docs_def)

lemma pop_scancodeE:
  assumes "queue_docs (k_queue E) items capa" and "once_docs (k_cell E)"
    and "once_try_get (k_cell E) (SCANCODE_QUEUE s) = Some q" and "pop_scancode E s = Ret (r, s')"
  obtains x q' where "s' = s\<lparr>SCANCODE_QUEUE := x\<rparr>" and "once_try_get (k_cell E) x = Some q'" and "capa q' = capa q"
    and "items q = (case r of None \<Rightarrow> [] | Some c \<Rightarrow> [c]) @ items q'" and "r = None \<Longrightarrow> items q' = []"
proof -
  obtain q' where p: "aq_pop (k_queue E) q = (r, q')" and s: "s' = s\<lparr>SCANCODE_QUEUE := once_store (k_cell E) q' (SCANCODE_QUEUE s)\<rparr>"
    using assms(3,4) by (auto simp: pop_scancode_def split: prod.splits)
  have "once_try_get (k_cell E) (once_store (k_cell E) q' (SCANCODE_QUEUE s)) = Some q'"
    using assms(2,3) by (simp add: once_docs_def)
  moreover have "capa q' = capa q \<and> items q = (case r of None \<Rightarrow> [] | Some c \<Rightarrow> [c]) @ items q' \<and> (r = None \<longrightarrow> items q' = [])"
  proof (cases "items q")
    case Nil
    then show ?thesis using p assms(1) by (auto simp: queue_docs_def)
  next
    case (Cons c cs)
    then obtain q'' where "aq_pop (k_queue E) q = (Some c, q'')" "items q'' = cs" "capa q'' = capa q"
      using assms(1) unfolding queue_docs_def by meson
    then show ?thesis using p Cons by simp
  qed
  ultimately show thesis using s that by blast
qed

lemma printE:
  assumes "irq_docs X" and "lock_docs L" and "\<not> writer_locked s" and "writer_ok (WRITER s)"
  obtains w where "print X L args s = Ret (s\<lparr>WRITER := w\<rparr>)" and "writer_ok w"
  using print_eq [OF assms] vga_fmt.good_fold [OF assms(4)] that by blast

lemma print_keypressE:
  assumes "irq_docs (k_irq E)" and "lock_docs (k_lock E)" and "\<not> writer_locked s" and "writer_ok (WRITER s)"
  obtains k' w where "print_keypress E c (k, s) = Ret (k', s\<lparr>WRITER := w\<rparr>)" and "writer_ok w"
proof -
  obtain r k1 where a: "kb_add_byte (k_decoder E) c k = (r, k1)" by fastforce
  show thesis
  proof (cases "\<exists>ev key k2. r = Inr (Some ev) \<and> kb_process_keyevent (k_decoder E) ev k1 = (Some key, k2)")
    case True
    then obtain ev key k2 where "r = Inr (Some ev)" "kb_process_keyevent (k_decoder E) ev k1 = (Some key, k2)" by blast
    moreover obtain w where "print (k_irq E) (k_lock E)
        [case key of Unicode character \<Rightarrow> encode_utf8 character | RawKey key \<Rightarrow> kb_debug (k_decoder E) key] s =
        Ret (s\<lparr>WRITER := w\<rparr>)" "writer_ok w" by (rule printE [OF assms])
    ultimately show thesis using that a by (simp add: print_keypress_def)
  next
    case False
    then have "\<exists>k'. print_keypress E c (k, s) = Ret (k', s)"
      using a by (auto simp: print_keypress_def split: sum.splits option.splits prod.splits)
    with that [of _ "WRITER s"] assms(4) show thesis by auto
  qed
qed

text \<open>\<^verbatim>\<open>add_scancode\<close> before the reader has started, with a full queue, and with room in it.\<close>

lemma add_scancode_uninit:
  assumes "irq_docs (k_irq E)" and "lock_docs (k_lock E)" and "\<not> writer_locked s" and "writer_ok (WRITER s)"
    and "once_try_get (k_cell E) (SCANCODE_QUEUE s) = None"
  obtains w where "add_scancode E c s = Ret (s\<lparr>WRITER := w\<rparr>)" and "writer_ok w"
proof -
  obtain w where "println (k_irq E) (k_lock E) [str ''WARNING: scancode buf not initialized''] s =
      Ret (s\<lparr>WRITER := w\<rparr>)" "writer_ok w" unfolding println_def by (rule printE [OF assms(1-4)])
  then show thesis using that assms(5) by (simp add: add_scancode_def)
qed

lemma add_scancode_full:
  assumes "queue_docs (k_queue E) items capa" and "once_docs (k_cell E)"
    and "once_try_get (k_cell E) (SCANCODE_QUEUE s) = Some q" and "capa q \<le> length (items q)"
  obtains x where "add_scancode E c s = Ret (s\<lparr>SCANCODE_QUEUE := x\<rparr>)" and "once_try_get (k_cell E) x = Some q"
proof -
  have "aq_push (k_queue E) c q = (False, q)" using assms(1,4) by (simp add: queue_docs_def)
  then show thesis using assms(2,3) that by (simp add: add_scancode_def once_docs_def)
qed

lemma add_scancode_room:
  assumes "queue_docs (k_queue E) items capa" and "once_docs (k_cell E)" and "waker_docs (k_waker E) slot"
    and "queue_docs (k_tasks E) due tcapa"
    and "once_try_get (k_cell E) (SCANCODE_QUEUE s) = Some q" and "length (items q) < capa q"
  obtains x q' a where "once_try_get (k_cell E) x = Some q'" and "items q' = items q @ [c]" and "capa q' = capa q"
    and "slot a = None" and "add_scancode E c s = (case slot (WAKER s) of
        None \<Rightarrow> Ret (s\<lparr>SCANCODE_QUEUE := x, WAKER := a\<rparr>)
      | Some j \<Rightarrow> obind (wake_task (k_tasks E) j (run_queue s)) (\<lambda>tq. Ret (s\<lparr>SCANCODE_QUEUE := x, WAKER := a, run_queue := tq\<rparr>)))"
proof -
  obtain q' where q': "aq_push (k_queue E) c q = (True, q')" "items q' = items q @ [c]" "capa q' = capa q"
    using assms(1,6) unfolding queue_docs_def by meson
  let ?x = "once_store (k_cell E) q' (SCANCODE_QUEUE s)"
  obtain a where w: "aw_wake (k_waker E) (WAKER s) = (slot (WAKER s), a)" "slot a = None"
    using assms(3) by (cases "aw_wake (k_waker E) (WAKER s)") (metis waker_docs_def fst_conv snd_conv)
  have "add_scancode E c s = wake_reader E (s\<lparr>SCANCODE_QUEUE := ?x\<rparr>)"
    using assms(5) q'(1) by (simp add: add_scancode_def)
  also have "\<dots> = (case slot (WAKER s) of
        None \<Rightarrow> Ret (s\<lparr>SCANCODE_QUEUE := ?x, WAKER := a\<rparr>)
      | Some j \<Rightarrow> obind (wake_task (k_tasks E) j (run_queue s)) (\<lambda>tq. Ret (s\<lparr>SCANCODE_QUEUE := ?x, WAKER := a, run_queue := tq\<rparr>)))"
    using w(1) by (simp add: wake_reader_def split: option.splits)
  finally show thesis using that [of ?x q' a] assms(2,5) q'(2,3) w(2) by (simp add: once_docs_def)
qed

section \<open>The invariant\<close>

text \<open>The scancode a poll has taken from the queue but not yet processed.\<close>

definition in_hand :: "pc \<Rightarrow> u8 list" where
  "in_hand p = (case p of Taking c \<Rightarrow> [c] | Received c \<Rightarrow> [c] | _ \<Rightarrow> [])"

text \<open>The reader is not being polled.\<close>

definition resting :: "pc \<Rightarrow> bool" where
  "resting p = (p \<in> {Popping, Busy, Idling})"

text \<open>
  The reader is due, or it has seen the queue empty and the next scancode will make it due.
\<close>

definition not_forgotten :: "('q, 'c, 'a, 'tq, 'ev, 'kc, 'k) async_crates \<Rightarrow> ('q \<Rightarrow> u8 list) \<Rightarrow> ('a \<Rightarrow> TaskId option)
    \<Rightarrow> ('tq \<Rightarrow> TaskId list) \<Rightarrow> TaskId \<Rightarrow> ('c, 'a, 'tq, 'k) async \<Rightarrow> bool" where
  "not_forgotten E items slot due i s \<longleftrightarrow>
     i \<in> set (due (run_queue s)) \<or> reader s \<noteq> Unresumed \<and> slot (WAKER s) = Some i \<and> scancodes E items s = []"

definition async_inv :: "('q, 'c, 'a, 'tq, 'ev, 'kc, 'k) async_crates \<Rightarrow> ('q \<Rightarrow> u8 list) \<Rightarrow> ('q \<Rightarrow> nat)
    \<Rightarrow> ('a \<Rightarrow> TaskId option) \<Rightarrow> ('tq \<Rightarrow> TaskId list) \<Rightarrow> ('tq \<Rightarrow> nat) \<Rightarrow> TaskId \<Rightarrow> ('c, 'a, 'tq, 'k) async \<Rightarrow> bool" where
  "async_inv E items capa slot due tcapa i s \<longleftrightarrow>
     writer_ok (WRITER s) \<and> \<not> writer_locked s \<and> in_service s = [] \<and> \<not> pics_locked s \<and>
     (halted s \<longrightarrow> int_flag s \<and> pc s = Popping \<and> due (run_queue s) = []) \<and>
     (slot (WAKER s) = None \<or> slot (WAKER s) = Some i) \<and> tcapa (run_queue s) = MAX_TASKS \<and>
     (once_try_get (k_cell E) (SCANCODE_QUEUE s) = None \<longleftrightarrow> reader s = Unresumed) \<and>
     (\<forall>q. once_try_get (k_cell E) (SCANCODE_QUEUE s) = Some q \<longrightarrow> capa q = 128) \<and>
     (reader s = Unresumed \<longrightarrow> resting (pc s) \<or> pc s = Starting) \<and>
     (resting (pc s) \<longrightarrow> not_forgotten E items slot due i s) \<and>
     (pc s = Second \<longrightarrow> i \<in> set (due (run_queue s)) \<or> slot (WAKER s) = Some i) \<and>
     accepted s = received s @ in_hand (pc s) @ scancodes E items s"

lemmas inv_defs = async_inv_def not_forgotten_def scancodes_def resting_def in_hand_def

lemma async_init_inv:
  assumes d: "async_docs E P items capa slot due tcapa" and "async_init E i s"
  shows "async_inv E items capa slot due tcapa i s"
proof -
  note d = async_docsD [OF d]
  let ?q = "aq_new (k_tasks E) MAX_TASKS"
  have q: "due ?q = []" "tcapa ?q = MAX_TASKS" using queue_docsD(1) [OF d(6), of MAX_TASKS] by (simp_all add: MAX_TASKS_def)
  obtain q' where "wake_task (k_tasks E) i ?q = Ret q'" "due q' = [i]" "tcapa q' = MAX_TASKS"
    using queue_docsD(2) [OF d(6), of ?q i] q by (auto simp: wake_task_def MAX_TASKS_def)
  moreover have "slot (aw_new (k_waker E)) = None" "once_try_get (k_cell E) (once_uninit (k_cell E)) = None"
    using d(4,5) by (simp_all add: once_docs_def waker_docs_def)
  ultimately show ?thesis using assms(2) by (simp add: async_init_def inv_defs)
qed

text \<open>Popping and pushing tasks.\<close>

lemma pop_task:
  assumes "queue_docs Q due tcapa" and "aq_pop Q q = (r, q')"
  shows "tcapa q' = tcapa q \<and> due q = (case r of None \<Rightarrow> [] | Some j \<Rightarrow> [j]) @ due q'"
proof (cases "due q")
  case Nil
  then show ?thesis using queue_docsD(4) [OF assms(1), of q] assms(2) by simp
next
  case (Cons j js)
  then show ?thesis using queue_docsD(5) [OF assms(1), of q j js] assms(2) by auto
qed

lemma wake_task_Ret:
  assumes "queue_docs Q due tcapa" and "wake_task Q j q = Ret q'"
  shows "tcapa q' = tcapa q \<and> due q' = due q @ [j]"
proof (cases "length (due q) < tcapa q")
  case True
  then show ?thesis using queue_docsD(2) [OF assms(1), of q j] assms(2) by (auto simp: wake_task_def)
next
  case False
  then show ?thesis using queue_docsD(3) [OF assms(1), of q j] assms(2) by (simp add: wake_task_def)
qed

text \<open>What a keyboard interrupt does to the state.\<close>

lemma key_interruptE:
  assumes d: "async_docs E P items capa slot due tcapa" and inv: "async_inv E items capa slot due tcapa i s"
    and "interrupt E P vector_table 33 (s\<lparr>kbd_data := c\<rparr>) = Ret s'"
  obtains (uninit) w where "once_try_get (k_cell E) (SCANCODE_QUEUE s) = None" and "writer_ok w"
      and "s' = s\<lparr>kbd_data := c, int_flag := False, halted := False, in_service := [33], WRITER := w, in_service := [], int_flag := True\<rparr>"
    | (full) q x where "once_try_get (k_cell E) (SCANCODE_QUEUE s) = Some q" and "capa q \<le> length (items q)"
      and "once_try_get (k_cell E) x = Some q"
      and "s' = s\<lparr>kbd_data := c, int_flag := False, halted := False, in_service := [33], SCANCODE_QUEUE := x, in_service := [], int_flag := True\<rparr>"
    | (room) q x q' a tq where "once_try_get (k_cell E) (SCANCODE_QUEUE s) = Some q" and "length (items q) < capa q"
      and "once_try_get (k_cell E) x = Some q'" and "items q' = items q @ [c]" and "capa q' = capa q" and "slot a = None"
      and "due tq = due (run_queue s) @ (case slot (WAKER s) of None \<Rightarrow> [] | Some j \<Rightarrow> [j])" and "tcapa tq = tcapa (run_queue s)"
      and "s' = s\<lparr>kbd_data := c, int_flag := False, halted := False, in_service := [33], SCANCODE_QUEUE := x, WAKER := a, run_queue := tq,
        in_service := [], int_flag := True\<rparr>"
proof -
  note d = async_docsD [OF d]
  let ?s = "s\<lparr>kbd_data := c, int_flag := False, halted := False, in_service := [33]\<rparr>"
  have i: "in_service s = []" "\<not> pics_locked s" "\<not> writer_locked s" "writer_ok (WRITER s)" using inv by (simp_all add: async_inv_def)
  have v: "vector_table 33 = Some (h_keyboard, None)" by (simp add: vector_table_def)
  have run: "s' = u\<lparr>in_service := [], int_flag := True\<rparr>"
    if "add_scancode E c ?s = Ret u" "\<not> pics_locked u" "in_service u = [33]" for u
    using keyboard_interrupt_eq [OF d(7), of "s\<lparr>kbd_data := c\<rparr>" vector_table None E u] v that assms(3) i(1) by simp
  show thesis
  proof (cases "once_try_get (k_cell E) (SCANCODE_QUEUE s)")
    case None
    then obtain w where "add_scancode E c ?s = Ret (?s\<lparr>WRITER := w\<rparr>)" "writer_ok w"
      using add_scancode_uninit [OF d(1,2), of ?s c] i by auto
    with run [of "?s\<lparr>WRITER := w\<rparr>"] uninit None i show thesis by simp
  next
    case (Some q)
    show thesis
    proof (cases "length (items q) < capa q")
      case False
      then obtain x where "add_scancode E c ?s = Ret (?s\<lparr>SCANCODE_QUEUE := x\<rparr>)" "once_try_get (k_cell E) x = Some q"
        using add_scancode_full [OF d(3,4), of ?s q c] Some by auto
      with run [of "?s\<lparr>SCANCODE_QUEUE := x\<rparr>"] full [of q x] Some False i show thesis by simp
    next
      case True
      obtain x q' a where a: "once_try_get (k_cell E) x = Some q'" "items q' = items q @ [c]" "capa q' = capa q" "slot a = None"
        "add_scancode E c ?s = (case slot (WAKER ?s) of
            None \<Rightarrow> Ret (?s\<lparr>SCANCODE_QUEUE := x, WAKER := a\<rparr>)
          | Some j \<Rightarrow> obind (wake_task (k_tasks E) j (run_queue ?s)) (\<lambda>tq. Ret (?s\<lparr>SCANCODE_QUEUE := x, WAKER := a, run_queue := tq\<rparr>)))"
        using add_scancode_room [OF d(3-6), of ?s q c] Some True by auto
      show thesis
      proof (cases "slot (WAKER s)")
        case None
        with a(5) have "add_scancode E c ?s = Ret (?s\<lparr>SCANCODE_QUEUE := x, WAKER := a, run_queue := run_queue s\<rparr>)" by simp
        from run [OF this] room [OF Some True a(1-4), of "run_queue s"] None i show thesis by simp
      next
        case w: (Some j)
        have "\<exists>u. add_scancode E c ?s = Ret u"
          using keyboard_interrupt_adds [OF d(7), of "s\<lparr>kbd_data := c\<rparr>" vector_table None E s'] v assms(3) i(1) by simp
        with a(5) w obtain tq where tq: "wake_task (k_tasks E) j (run_queue s) = Ret tq" by (auto simp: outcome_simps)
        with a(5) w have "add_scancode E c ?s = Ret (?s\<lparr>SCANCODE_QUEUE := x, WAKER := a, run_queue := tq\<rparr>)" by simp
        from run [OF this] room [OF Some True a(1-4), of tq] wake_task_Ret [OF d(6) tq] w i show thesis by simp
      qed
    qed
  qed
qed

text \<open>Every step keeps the invariant; the operations that touch a queue first.\<close>

lemma inv_pop_task:
  assumes d: "async_docs E P items capa slot due tcapa" and inv: "async_inv E items capa slot due tcapa i s"
    and "\<not> halted s" and "pc s = Popping" and p: "aq_pop (k_tasks E) (run_queue s) = (r, tq)"
  shows "async_inv E items capa slot due tcapa i (s\<lparr>run_queue := tq,
    pc := (case r of None \<Rightarrow> Idling | Some j \<Rightarrow> if j = i then Starting else Busy)\<rparr>)"
  using inv assms(3,4) pop_task [OF async_docsD(6) [OF d] p]
  by (cases r) (auto simp: inv_defs split: option.splits)

lemma inv_pop_scancode:
  assumes d: "async_docs E P items capa slot due tcapa" and inv: "async_inv E items capa slot due tcapa i s"
    and "\<not> halted s" and p: "pop_scancode E s = Ret (r, s')"
  shows "pc s = First \<Longrightarrow> async_inv E items capa slot due tcapa i (s'\<lparr>pc := (case r of None \<Rightarrow> Registering | Some c \<Rightarrow> Received c)\<rparr>)"
    and "pc s = Second \<Longrightarrow> async_inv E items capa slot due tcapa i (s'\<lparr>pc := (case r of None \<Rightarrow> Popping | Some c \<Rightarrow> Taking c)\<rparr>)"
proof -
  note d = async_docsD [OF d]
  obtain q where q: "once_try_get (k_cell E) (SCANCODE_QUEUE s) = Some q"
    using p by (auto simp: pop_scancode_def outcome_simps)
  obtain x q' where x: "s' = s\<lparr>SCANCODE_QUEUE := x\<rparr>" "once_try_get (k_cell E) x = Some q'" "capa q' = capa q"
    "items q = (case r of None \<Rightarrow> [] | Some c \<Rightarrow> [c]) @ items q'" "r = None \<Longrightarrow> items q' = []"
    using pop_scancodeE [OF d(3,4) q p] by blast
  show "pc s = First \<Longrightarrow> async_inv E items capa slot due tcapa i (s'\<lparr>pc := (case r of None \<Rightarrow> Registering | Some c \<Rightarrow> Received c)\<rparr>)"
    using inv assms(3) q x by (cases r) (simp_all add: inv_defs)
  show "pc s = Second \<Longrightarrow> async_inv E items capa slot due tcapa i (s'\<lparr>pc := (case r of None \<Rightarrow> Popping | Some c \<Rightarrow> Taking c)\<rparr>)"
    using inv assms(3) q x by (cases r) (auto simp: inv_defs)
qed

lemma inv_start:
  assumes d: "async_docs E P items capa slot due tcapa" and inv: "async_inv E items capa slot due tcapa i s"
    and "\<not> halted s" and "pc s = Starting"
  shows "async_inv E items capa slot due tcapa i ((start_reader E s)\<lparr>pc := First\<rparr>)"
proof (cases "reader s")
  case Unresumed
  note d = async_docsD [OF d]
  have n: "once_try_get (k_cell E) (SCANCODE_QUEUE s) = None"
    using inv Unresumed by (simp add: async_inv_def split: option.splits)
  then have "once_try_get (k_cell E) (once_try_init (k_cell E) (aq_new (k_queue E) 128) (SCANCODE_QUEUE s)) =
      Some (aq_new (k_queue E) 128)" using d(4) by (simp add: once_docs_def)
  moreover have "items (aq_new (k_queue E) 128) = []" "capa (aq_new (k_queue E) 128) = 128"
    using queue_docsD(1) [OF d(3), of 128] by simp_all
  ultimately show ?thesis
    using inv assms(3,4) Unresumed n by (simp add: start_reader_def ScancodeStream_new_def inv_defs)
next
  case (Suspended k)
  then show ?thesis using inv assms(3,4) by (simp add: start_reader_def inv_defs)
qed

lemma inv_print:
  assumes "async_inv E items capa slot due tcapa i s" and "writer_ok w"
  shows "async_inv E items capa slot due tcapa i (s\<lparr>WRITER := w\<rparr>)"
  using assms by (simp add: inv_defs)

lemma inv_receive:
  assumes d: "async_docs E P items capa slot due tcapa" and inv: "async_inv E items capa slot due tcapa i s"
    and "\<not> halted s" and "pc s = Received c" and "reader s = Suspended k" and p: "print_keypress E c (k, s) = Ret (k', s')"
  shows "async_inv E items capa slot due tcapa i (s'\<lparr>reader := Suspended k', pc := First, received := received s @ [c]\<rparr>)"
proof -
  note d = async_docsD [OF d]
  have "\<not> writer_locked s" "writer_ok (WRITER s)" using inv by (simp_all add: async_inv_def)
  from print_keypressE [OF d(1,2) this, of c k] p obtain w where "s' = s\<lparr>WRITER := w\<rparr>" "writer_ok w" by auto
  with inv assms(3-5) show ?thesis by (simp add: inv_defs split: option.splits)
qed

lemma inv_sleep:
  assumes d: "async_docs E P items capa slot due tcapa" and inv: "async_inv E items capa slot due tcapa i s"
    and "\<not> halted s" and "pc s = Idling"
  shows "async_inv E items capa slot due tcapa i ((sleep_if_idle E s)\<lparr>pc := Popping\<rparr>)"
  using inv assms(3,4) wait_for_interrupts_if_eq [OF async_docsD(1) [OF d]] queue_docsD(6) [OF async_docsD(6) [OF d]]
  by (auto simp: sleep_if_idle_def inv_defs)

lemma inv_key:
  assumes d: "async_docs E P items capa slot due tcapa" and inv: "async_inv E items capa slot due tcapa i s"
    and k: "interrupt E P vector_table 33 (s\<lparr>kbd_data := c\<rparr>) = Ret s'"
  shows "async_inv E items capa slot due tcapa i (s'\<lparr>accepted := accepted s @ (if has_room E items capa s then [c] else [])\<rparr>)"
  using d inv k
proof (cases rule: key_interruptE)
  case (uninit w)
  then have "reader s = Unresumed" using inv by (simp add: async_inv_def)
  with inv uninit show ?thesis by (simp add: inv_defs has_room_def)
next
  case (full q x)
  then have "reader s \<noteq> Unresumed" using inv by (simp add: async_inv_def)
  with inv full show ?thesis by (simp add: inv_defs has_room_def)
next
  case (room q x q' a tq)
  have "slot (WAKER s) = None \<or> slot (WAKER s) = Some i" using inv by (simp add: async_inv_def)
  then consider "slot (WAKER s) = None" | "slot (WAKER s) = Some i" by (elim disjE)
  then show ?thesis
  proof cases
    case 1
    with inv room show ?thesis by (simp add: inv_defs has_room_def)
  next
    case 2
    with inv room show ?thesis by (simp add: inv_defs has_room_def)
  qed
qed

lemma async_step_inv:
  assumes d: "async_docs E P items capa slot due tcapa" and step: "async_step E P vector_table items capa i s s'"
    and inv: "async_inv E items capa slot due tcapa i s"
  shows "async_inv E items capa slot due tcapa i s'"
  using step
proof cases
  case (pop_reader tq)
  then show ?thesis using inv_pop_task [OF d inv, of "Some i" tq] by simp
next
  case (pop_other j tq)
  then show ?thesis using inv_pop_task [OF d inv, of "Some j" tq] by simp
next
  case (pop_none tq)
  then show ?thesis using inv_pop_task [OF d inv, of None tq] by simp
next
  case (other_wakes j tq)
  then show ?thesis using inv wake_task_Ret [OF async_docsD(6) [OF d], of j "run_queue s" tq] by (auto simp: inv_defs)
next
  case (other_prints args)
  have "\<not> writer_locked s" "writer_ok (WRITER s)" using inv by (simp_all add: async_inv_def)
  from printE [OF async_docsD(1,2) [OF d] this, of args] other_prints(3) inv_print [OF inv]
  show ?thesis by (metis outcome.inject)
next
  case other_done
  then show ?thesis using inv by (simp add: inv_defs)
next
  case start
  then show ?thesis using inv_start [OF d inv] by simp
next
  case (first r s1)
  then show ?thesis using inv_pop_scancode(1) [OF d inv] by simp
next
  case register
  then show ?thesis using inv async_docsD(5) [OF d] by (simp add: register_waker_def waker_docs_def inv_defs)
next
  case (second r s1)
  then show ?thesis using inv_pop_scancode(2) [OF d inv] by simp
next
  case (unregister c)
  then show ?thesis using inv async_docsD(5) [OF d] by (simp add: take_waker_def waker_docs_def inv_defs)
next
  case (receive c k k' s1)
  then show ?thesis using inv_receive [OF d inv] by simp
next
  case sleep
  then show ?thesis using inv_sleep [OF d inv] by simp
next
  case timer
  have "s' = s\<lparr>int_flag := True, halted := False\<rparr>"
    using timer timer_interrupt_eq [OF async_docsD(7) [OF d], of s vector_table None E] inv
    by (simp add: vector_table_def async_inv_def)
  then show ?thesis using inv by (simp add: inv_defs)
next
  case (key c s1)
  then show ?thesis using inv_key [OF d inv] by simp
qed

interpretation async_system: inductive_invariant "async_init E i" "async_step E P vector_table items capa i"
    "\<lambda>s. async_docs E P items capa slot due tcapa \<longrightarrow> async_inv E items capa slot due tcapa i s"
proof
  show "async_docs E P items capa slot due tcapa \<longrightarrow> async_inv E items capa slot due tcapa i s"
    if "async_init E i s" for s using async_init_inv that by blast
qed (use async_step_inv in blast)

lemma async_reach_inv:
  assumes "async_docs E P items capa slot due tcapa" and "idt_docs T entry" and "IDT T = Ret t"
    and "reach (async_init E i) (async_step E P (entry t) items capa i) s"
  shows "async_inv E items capa slot due tcapa i s" and "entry t = vector_table"
proof -
  show e: "entry t = vector_table" using IDT_ok [OF assms(2)] assms(3) by auto
  show "async_inv E items capa slot due tcapa i s"
    using async_system.inv_reach assms(1,4) unfolding e by blast
qed

section \<open>A poll that is not interrupted\<close>

text \<open>Without interrupts in between, the steps of a poll are the function \<^verbatim>\<open>poll_next\<close>.\<close>

lemma pop_scancode_pc:
  "pop_scancode E (s\<lparr>pc := p\<rparr>) = obind (pop_scancode E s) (\<lambda>(r, s). Ret (r, s\<lparr>pc := p\<rparr>))"
  by (cases "once_try_get (k_cell E) (SCANCODE_QUEUE s)")
     (cases s; simp add: pop_scancode_def split: prod.splits)+

lemma pop_scancode_fields:
  assumes "pop_scancode E s = Ret (r, s')"
  shows "halted s' = halted s \<and> pc s' = pc s"
  using assms by (cases "once_try_get (k_cell E) (SCANCODE_QUEUE s)") (auto simp: pop_scancode_def split: prod.splits)

lemma poll_next_steps:
  assumes h: "\<not> halted s" "pc s = First" and "poll_next E i s = Ret (r, s')"
  shows "(async_step E P vectors items capa i)\<^sup>*\<^sup>* s (s'\<lparr>pc := (case r of None \<Rightarrow> Popping | Some c \<Rightarrow> Received c)\<rparr>)"
proof -
  let ?R = "async_step E P vectors items capa i"
  obtain r1 s1 where p1: "pop_scancode E s = Ret (r1, s1)" using assms(3) by (auto simp: poll_next_def outcome_simps)
  note f1 = async_step.first [OF h p1, of P vectors items capa i] and h1 = pop_scancode_fields [OF p1]
  show ?thesis
  proof (cases r1)
    case (Some c)
    then show ?thesis using assms(3) p1 f1 by (auto simp: poll_next_def)
  next
    case None
    let ?s2 = "register_waker E i s1"
    obtain r2 s2 where p2: "pop_scancode E ?s2 = Ret (r2, s2)"
      using assms(3) p1 None by (auto simp: poll_next_def Let_def outcome_simps)
    have 1: "?R s (s1\<lparr>pc := Registering\<rparr>)" using f1 None by simp
    have 2: "?R (s1\<lparr>pc := Registering\<rparr>) (?s2\<lparr>pc := Second\<rparr>)"
      using async_step.register [of "s1\<lparr>pc := Registering\<rparr>" E P vectors items capa i] h h1
      by (simp add: register_waker_def)
    have "pop_scancode E (?s2\<lparr>pc := Second\<rparr>) = Ret (r2, s2\<lparr>pc := Second\<rparr>)" by (simp add: pop_scancode_pc p2)
    from async_step.second [OF _ _ this, of P vectors items capa i] h h1
    have 3: "?R (?s2\<lparr>pc := Second\<rparr>) (s2\<lparr>pc := (case r2 of None \<Rightarrow> Popping | Some c \<Rightarrow> Taking c)\<rparr>)"
      by (simp add: register_waker_def)
    note 123 = rtranclp.rtrancl_into_rtrancl [OF rtranclp.rtrancl_into_rtrancl [OF r_into_rtranclp [where r = ?R, OF 1] 2] 3]
    show ?thesis
    proof (cases r2)
      case None
      then show ?thesis using 123 assms(3) p1 p2 \<open>r1 = None\<close> by (auto simp: poll_next_def Let_def)
    next
      case (Some c)
      have "\<not> halted s2" using pop_scancode_fields [OF p2] h h1 by (simp add: register_waker_def)
      then have "?R (s2\<lparr>pc := Taking c\<rparr>) ((take_waker E s2)\<lparr>pc := Received c\<rparr>)"
        using async_step.unregister [of "s2\<lparr>pc := Taking c\<rparr>" c E P vectors items capa i] by (simp add: take_waker_def)
      then show ?thesis using rtranclp.rtrancl_into_rtrancl [OF 123] assms(3) p1 p2 Some \<open>r1 = None\<close>
        by (auto simp: poll_next_def Let_def)
    qed
  qed
qed

section \<open>A key pressed while the core sleeps\<close>

text \<open>The interrupt gets through: the scancode is in the queue and the reader is due.\<close>

lemma asleep_key:
  assumes d: "async_docs E P items capa slot due tcapa" and inv: "async_inv E items capa slot due tcapa i s" and "halted s"
  obtains u q k where "interrupt E P vector_table 33 (s\<lparr>kbd_data := c\<rparr>) = Ret u" and "has_room E items capa s"
    and "\<not> halted u" and "pc u = Popping" and "due (run_queue u) = [i]" and "reader u = Suspended k"
    and "once_try_get (k_cell E) (SCANCODE_QUEUE u) = Some q" and "items q = [c]" and "received u = received s"
    and "\<not> writer_locked u" and "writer_ok (WRITER u)"
proof -
  note dd = async_docsD [OF d]
  have h: "due (run_queue s) = []" "slot (WAKER s) = Some i" "scancodes E items s = []" "reader s \<noteq> Unresumed" "pc s = Popping"
    "in_service s = []" "\<not> pics_locked s" "tcapa (run_queue s) = 128" "\<not> writer_locked s" "writer_ok (WRITER s)"
    using inv assms(3) by (auto simp: async_inv_def not_forgotten_def resting_def MAX_TASKS_def)
  obtain q0 where q0: "once_try_get (k_cell E) (SCANCODE_QUEUE s) = Some q0" "capa q0 = 128" "items q0 = []"
    using inv h(3,4) by (auto simp: async_inv_def scancodes_def)
  let ?s = "s\<lparr>kbd_data := c, int_flag := False, halted := False, in_service := [33]\<rparr>"
  obtain x q a where a0: "once_try_get (k_cell E) x = Some q" "items q = items q0 @ [c]" "capa q = capa q0" "slot a = None"
    "add_scancode E c ?s = (case slot (WAKER ?s) of
        None \<Rightarrow> Ret (?s\<lparr>SCANCODE_QUEUE := x, WAKER := a\<rparr>)
      | Some j \<Rightarrow> obind (wake_task (k_tasks E) j (run_queue ?s)) (\<lambda>tq. Ret (?s\<lparr>SCANCODE_QUEUE := x, WAKER := a, run_queue := tq\<rparr>)))"
    by (rule add_scancode_room [OF dd(3-6), of ?s q0 c]) (use q0 in simp_all)
  then have a: "once_try_get (k_cell E) x = Some q" "items q = [c]"
    "add_scancode E c ?s = obind (wake_task (k_tasks E) i (run_queue s)) (\<lambda>tq. Ret (?s\<lparr>SCANCODE_QUEUE := x, WAKER := a, run_queue := tq\<rparr>))"
    using q0(3) h(2) by simp_all
  obtain tq where tq: "wake_task (k_tasks E) i (run_queue s) = Ret tq" "due tq = [i]"
    using queue_docsD(2) [OF dd(6), of "run_queue s" i] h(1,8) by (auto simp: wake_task_def)
  let ?u = "?s\<lparr>SCANCODE_QUEUE := x, WAKER := a, run_queue := tq\<rparr>"
  have "interrupt E P vector_table 33 (s\<lparr>kbd_data := c\<rparr>) = Ret (?u\<lparr>in_service := [], int_flag := True\<rparr>)"
    using a(3) tq(1) h(6,7)
    by (intro keyboard_interrupt_eq [OF dd(7), where i = None]) (simp_all add: vector_table_def)
  moreover obtain k where "reader s = Suspended k" using h(4) by (cases "reader s") auto
  moreover have "has_room E items capa s" using q0 by (simp add: has_room_def)
  ultimately show thesis using that [of "?u\<lparr>in_service := [], int_flag := True\<rparr>" k q] a(1,2) tq(2) h by simp
qed

text \<open>A reader that is due with a scancode in the queue receives it.\<close>

lemma due_reader_receives:
  assumes d: "async_docs E P items capa slot due tcapa" and h: "\<not> halted u" "pc u = Popping" "due (run_queue u) = [i]"
    "reader u = Suspended k" "once_try_get (k_cell E) (SCANCODE_QUEUE u) = Some q" "items q = [c]"
    "\<not> writer_locked u" "writer_ok (WRITER u)"
  shows "\<exists>s'. (async_step E P vectors items capa i)\<^sup>*\<^sup>* u s' \<and> received s' = received u @ [c]"
proof -
  note dd = async_docsD [OF d]
  let ?R = "async_step E P vectors items capa i"
  obtain tq where "aq_pop (k_tasks E) (run_queue u) = (Some i, tq)" using queue_docsD(5) [OF dd(6) h(3)] by blast
  let ?u1 = "u\<lparr>run_queue := tq, pc := Starting\<rparr>"
  from async_step.pop_reader [OF h(1,2) \<open>aq_pop (k_tasks E) (run_queue u) = (Some i, tq)\<close>] have 1: "?R u ?u1" .
  let ?u2 = "u\<lparr>run_queue := tq, pc := First\<rparr>"
  have 2: "?R ?u1 ?u2" using async_step.start [of ?u1 E P vectors items capa i] h(1,4) by (simp add: start_reader_def)
  obtain q' where "aq_pop (k_queue E) q = (Some c, q')" using queue_docsD(5) [OF dd(3) h(6)] by blast
  then have p: "pop_scancode E ?u2 = Ret (Some c, ?u2\<lparr>SCANCODE_QUEUE := once_store (k_cell E) q' (SCANCODE_QUEUE u)\<rparr>)"
    using h(5) by (simp add: pop_scancode_def)
  let ?u3 = "?u2\<lparr>SCANCODE_QUEUE := once_store (k_cell E) q' (SCANCODE_QUEUE u), pc := Received c\<rparr>"
  have 3: "?R ?u2 ?u3" using async_step.first [OF _ _ p, of P vectors items capa i] h(1) by simp
  obtain k' w where "print_keypress E c (k, ?u3) = Ret (k', ?u3\<lparr>WRITER := w\<rparr>)"
    by (rule print_keypressE [OF dd(1,2), of ?u3 c k]) (use h(7,8) in simp_all)
  from async_step.receive [OF _ _ _ this, of P vectors items capa i] h(1,4)
  have 4: "?R ?u3 (?u3\<lparr>WRITER := w, reader := Suspended k', pc := First, received := received u @ [c]\<rparr>)" by simp
  have "?R\<^sup>*\<^sup>* u (?u3\<lparr>WRITER := w, reader := Suspended k', pc := First, received := received u @ [c]\<rparr>)"
    by (rule rtranclp.rtrancl_into_rtrancl [OF rtranclp.rtrancl_into_rtrancl [OF rtranclp.rtrancl_into_rtrancl
      [OF r_into_rtranclp [where r = ?R, OF 1] 2] 3] 4])
  then show ?thesis by (intro exI conjI, assumption) simp
qed

section \<open>Concrete crates\<close>

definition option_cell :: "('v, 'v option) once_cell" where
  "option_cell = \<lparr>once_uninit = None, once_try_init = (\<lambda>v c. case c of None \<Rightarrow> Some v | Some u \<Rightarrow> Some u),
     once_try_get = (\<lambda>c. c), once_store = (\<lambda>v c. Some v)\<rparr>"

definition option_waker :: "('w, 'w option) atomic_waker" where
  "option_waker = \<lparr>aw_new = None, aw_register = (\<lambda>w a. Some w), aw_take = (\<lambda>a. (a, None)), aw_wake = (\<lambda>a. (a, None))\<rparr>"

text \<open>A decoder for which every byte is a character.\<close>

definition byte_decoder :: "(u8, unit, unit) decoder" where
  "byte_decoder = \<lparr>kb_new = (), kb_add_byte = (\<lambda>b k. (Inr (Some b), k)),
     kb_process_keyevent = (\<lambda>b k. (Some (Unicode (ucast b)), k)), kb_debug = (\<lambda>_. [])\<rparr>"

definition std_hw :: "(u8 \<times> u8, ('c, 'a, 'tq, 'z) irqs_scheme) irq_hw" where
  "std_hw = \<lparr>pics_new = Pair, pics_notify_end_of_interrupt = (\<lambda>p i s. s\<lparr>in_service := tl (in_service s)\<rparr>),
     pics_lock = (\<lambda>f s. if pics_locked s then Diverge
       else obind (f (s\<lparr>pics_locked := True\<rparr>)) (\<lambda>t. Ret (t\<lparr>pics_locked := False\<rparr>))),
     port_read = (\<lambda>n s. (kbd_data s, s))\<rparr>"

type_synonym demo_async = "((nat \<times> u8 list) option, TaskId option, nat \<times> TaskId list, unit) async"

definition std_crates :: "(nat \<times> u8 list, (nat \<times> u8 list) option, TaskId option, nat \<times> TaskId list, u8, unit, unit) async_crates" where
  "std_crates = \<lparr>k_irq = std_irq, k_lock = std_lock, k_queue = list_queue, k_cell = option_cell,
     k_waker = option_waker, k_tasks = list_queue, k_decoder = byte_decoder\<rparr>"

lemma std_async_docs: "async_docs std_crates std_hw snd fst (\<lambda>a. a) snd fst"
  by (auto simp: async_docs_def std_crates_def std_irq_docs std_lock_docs list_queue_docs once_docs_def option_cell_def
      waker_docs_def option_waker_def hw_docs_def std_hw_def split: option.splits)

text \<open>A run of the concrete system: the reader finds no scancode, parks itself, and a key comes.\<close>

definition demo_at :: "pc \<Rightarrow> (nat \<times> u8 list) option \<Rightarrow> TaskId option \<Rightarrow> TaskId list \<Rightarrow> unit PrintKeypresses \<Rightarrow> u8 list \<Rightarrow> demo_async" where
  "demo_at p x a tq r acc = \<lparr>int_flag = True, halted = False, WRITER = demo_writer, writer_locked = False,
     SCANCODE_QUEUE = x, WAKER = a, run_queue = (128, tq), in_service = [], kbd_data = 0, pics_locked = False,
     pc = p, reader = r, accepted = acc, received = []\<rparr>"

definition demo_asleep :: demo_async where
  "demo_asleep = (demo_at Popping (Some (128, [])) (Some 5) [] (Suspended ()) [])\<lparr>halted := True\<rparr>"

abbreviation demo_reach :: "demo_async \<Rightarrow> bool" where
  "demo_reach \<equiv> reach (async_init std_crates 5) (async_step std_crates std_hw vector_table snd fst 5)"

lemmas demo_defs = demo_at_def std_crates_def list_queue_def option_cell_def option_waker_def pop_scancode_def
  register_waker_def start_reader_def ScancodeStream_new_def

lemma demo_parked: "demo_reach (demo_at Popping (Some (128, [])) (Some 5) [] (Suspended ()) [])"
proof -
  have "async_init std_crates 5 (demo_at Popping None None [5] Unresumed [])"
    by (simp add: async_init_def demo_defs demo_writer_ok wake_task_def MAX_TASKS_def)
  then have "demo_reach (demo_at Popping None None [5] Unresumed [])" by (rule reach_init)
  from reach_step [OF this async_step.pop_reader [where tq = "(128, [])"]]
  have "demo_reach (demo_at Starting None None [] Unresumed [])" by (simp add: demo_defs)
  from reach_step [OF this async_step.start]
  have "demo_reach (demo_at First (Some (128, [])) None [] (Suspended ()) [])" by (simp add: demo_defs byte_decoder_def)
  from reach_step [OF this async_step.first [where r = None and s' = "demo_at First (Some (128, [])) None [] (Suspended ()) []"]]
  have "demo_reach (demo_at Registering (Some (128, [])) None [] (Suspended ()) [])" by (simp add: demo_defs)
  from reach_step [OF this async_step.register]
  have "demo_reach (demo_at Second (Some (128, [])) (Some 5) [] (Suspended ()) [])" by (simp add: demo_defs)
  from reach_step [OF this async_step.second [where r = None and s' = "demo_at Second (Some (128, [])) (Some 5) [] (Suspended ()) []"]]
  show ?thesis by (simp add: demo_defs)
qed

lemma demo_key: "demo_reach ((demo_at Popping (Some (128, [0x1e])) None [5] (Suspended ()) [0x1e])\<lparr>kbd_data := 0x1e\<rparr>)"
proof -
  let ?s = "demo_at Popping (Some (128, [])) (Some 5) [] (Suspended ()) []"
  let ?t = "(demo_at Popping (Some (128, [0x1e])) None [5] (Suspended ()) [])\<lparr>kbd_data := 0x1e\<rparr>"
  let ?u = "?t\<lparr>int_flag := False, in_service := [33]\<rparr>"
  have "add_scancode std_crates 0x1e (?s\<lparr>kbd_data := 0x1e, int_flag := False, halted := False, in_service := [33]\<rparr>) = Ret ?u"
    by (simp add: demo_defs add_scancode_def wake_reader_def wake_task_def)
  then have "interrupt std_crates std_hw vector_table 33 (?s\<lparr>kbd_data := 0x1e\<rparr>) = Ret (?u\<lparr>in_service := [], int_flag := True\<rparr>)"
    by (intro keyboard_interrupt_eq [OF async_docsD(7) [OF std_async_docs], where i = None])
       (simp_all add: vector_table_def demo_at_def)
  then have "interrupt std_crates std_hw vector_table 33 (?s\<lparr>kbd_data := 0x1e\<rparr>) = Ret ?t" by (simp add: demo_at_def)
  moreover have "has_room std_crates snd fst ?s" "int_flag ?s" "in_service ?s = []" by (simp_all add: demo_defs has_room_def)
  ultimately have "async_step std_crates std_hw vector_table snd fst 5 ?s (?t\<lparr>accepted := accepted ?s @ [0x1e]\<rparr>)"
    using async_step.key [of ?s std_crates std_hw vector_table "0x1e" ?t snd fst 5] by simp
  from reach_step [OF demo_parked this] show ?thesis by (simp add: demo_at_def)
qed

lemma demo_sleeps: "demo_reach demo_asleep"
proof -
  from reach_step [OF demo_parked async_step.pop_none [where tq = "(128, [])"]]
  have "demo_reach (demo_at Idling (Some (128, [])) (Some 5) [] (Suspended ()) [])" by (simp add: demo_defs)
  from reach_step [OF this async_step.sleep]
  show ?thesis by (simp add: demo_defs demo_asleep_def sleep_if_idle_def wait_for_interrupts_if_def std_irq_def)
qed

section \<open>The properties of the component\<close>

text \<open>C3. No wake-up is lost: at whatever moments of a poll of the reader the keyboard interrupts come,
  whenever the reader is not being polled and there is a scancode in the queue, the reader is in
  the task queue of the executor.\<close>

theorem no_lost_wakeup:
  assumes "async_docs E P items capa slot due tcapa" and "idt_docs T entry" and "IDT T = Ret t"
    and "reach (async_init E i) (async_step E P (entry t) items capa i) s"
    and "pc s \<in> {Popping, Busy, Idling}" and "scancodes E items s \<noteq> []"
  shows "i \<in> set (due (run_queue s))"
  using async_reach_inv(1) [OF assms(1-4)] assms(5,6) by (auto simp: async_inv_def not_forgotten_def resting_def)

theorem no_lost_wakeup_witness:
  "\<exists>s :: demo_async. demo_reach s \<and> scancodes std_crates snd s = [0x1e] \<and> 5 \<in> set (snd (run_queue s))"
proof -
  let ?s = "(demo_at Popping (Some (128, [0x1e])) None [5] (Suspended ()) [0x1e])\<lparr>kbd_data := 0x1e\<rparr>"
  have "scancodes std_crates snd ?s = [0x1e]" by (simp add: scancodes_def demo_defs)
  with no_lost_wakeup [OF std_async_docs map_idt_docs map_idt_IDT, OF demo_key] demo_key
  show ?thesis by (intro exI [of _ ?s]) (simp add: demo_at_def)
qed



text \<open>Scancodes reach the reader in the order of the key presses, each once: what has been accepted
  is what has been received, followed by the one in the hands of the current poll, if any, followed
  by the contents of the queue.\<close>

lemma scancodes_in_order:
  assumes "async_docs E P items capa slot due tcapa" and "idt_docs T entry" and "IDT T = Ret t"
    and "reach (async_init E i) (async_step E P (entry t) items capa i) s"
  shows "accepted s = received s @ in_hand (pc s) @ scancodes E items s"
  using async_reach_inv(1) [OF assms] by (simp add: async_inv_def)



end
