(* ===== verification/Refinement.thy ===== *)
theory Refinement
  imports Idle Bump
begin

text \<open>
  Two specifications and the proof that the code refines them. For the clients of the allocator
  (\<^verbatim>\<open>kernel/src/allocator/bump.rs\<close>) the heap is a store of disjoint blocks. For a user at the keyboard the
  interrupt handler, the queue, the waker and the executor (\<^verbatim>\<open>kernel/src/task/\<close>) are one line in which
  scancodes wait for the reader.
\<close>

section \<open>The store of blocks\<close>

text \<open>A block is handed out where no other is, or given back.\<close>

inductive store_step :: "(usize \<rightharpoonup> usize) \<Rightarrow> (usize \<rightharpoonup> usize) \<Rightarrow> bool" where
  hand_out: "m p = None \<Longrightarrow> 0 < n \<Longrightarrow> (\<And>q k. m q = Some k \<Longrightarrow> block_range p n \<inter> block_range q k = {}) \<Longrightarrow>
     store_step m (m(p \<mapsto> n))"
| give_back: "m p = Some n \<Longrightarrow> store_step m (m(p := None))"

definition store_of :: "heap \<Rightarrow> usize \<rightharpoonup> usize" where
  "store_of s p = map_option fst (blocks s p)"

lemma alloc_hands_out:
  assumes "heap_inv start len s" and "layout_ok l" and "0 < layout_size l"
    and "bump_alloc oc l (bump s) = Ret (p, b)" and "p \<noteq> 0"
  shows "store_step (store_of s) ((store_of s)(p \<mapsto> rounded l))"
proof (rule store_step.hand_out)
  have p: "p = next_ptr (bump s)" using assms(2,4,5) by (auto simp: bump_alloc_layout split: if_splits)
  have below: "0 < x \<and> unat q + unat x \<le> unat p" if "store_of s q = Some x" for q x
    using heap_inv_block [OF assms(1), of q] that p by (auto simp: store_of_def block_ok_def)
  show "store_of s p = None" using below [of p] by (cases "store_of s p") (auto simp: word_less_nat_alt)
  show "0 < rounded l" by (rule rounded_pos [OF assms(2,3)])
  show "block_range p (rounded l) \<inter> block_range q k = {}" if "store_of s q = Some k" for q k
    using below [OF that] by (simp add: block_range_disjoint)
qed

lemma store_sim:
  assumes "heap_inv start len s" and "bump_step oc s t"
  shows "store_of t = store_of s \<or> store_step (store_of s) (store_of t)"
  using assms(2)
proof cases
  case (step_alloc l sz p b)
  then have "sz = rounded l" by (simp add: align_up_layout)
  then have "store_of t = (if p = 0 then store_of s else (store_of s)(p \<mapsto> rounded l))"
    using step_alloc(1) by (auto simp: store_of_def)
  then show ?thesis using alloc_hands_out [OF assms(1) step_alloc(2,3,6)] by auto
next
  case (step_load p sz l x)
  then have "store_of t = (if x = None then (store_of s)(p := None) else store_of s)"
    by (auto simp: store_of_def split: option.splits)
  moreover have "store_of s p = Some sz" using step_load(2) by (simp add: store_of_def)
  ultimately show ?thesis by (auto intro: store_step.give_back)
next
  case (step_exchange p sz c n)
  then have "store_of t = (store_of s)(p := None)" "store_of s p = Some sz" by (auto simp: store_of_def)
  then show ?thesis by (auto intro: store_step.give_back)
qed

interpretation store: simulation "heap_ready start len" "bump_step oc" "heap_inv start len" "\<lambda>m. m = Map.empty" store_step store_of
  for start len oc
proof
  show "store_of s = Map.empty" if "heap_ready start len s" for s
    using that by (auto simp: heap_ready_def store_of_def)
qed (rule store_sim)

section \<open>The line of scancodes\<close>

text \<open>
  What waits, what the reader has taken but not dealt with, and what it has dealt with. At most 128
  scancodes wait; one that comes when there is no room is lost and leaves no trace.
\<close>

record key_line =
  waiting :: "u8 list"
  in_hand_of :: "u8 list"
  dealt_with :: "u8 list"

inductive line_step :: "key_line \<Rightarrow> key_line \<Rightarrow> bool" where
  press: "length (waiting l) < 128 \<Longrightarrow> line_step l (l\<lparr>waiting := waiting l @ [c]\<rparr>)"
| take_one: "waiting l = c # cs \<Longrightarrow> in_hand_of l = [] \<Longrightarrow> line_step l (l\<lparr>waiting := cs, in_hand_of := [c]\<rparr>)"
| deal_with: "in_hand_of l = [c] \<Longrightarrow> line_step l (l\<lparr>in_hand_of := [], dealt_with := dealt_with l @ [c]\<rparr>)"

definition line_of :: "('q, 'c, 'a, 'tq, 'ev, 'kc, 'k) async_crates \<Rightarrow> ('q \<Rightarrow> u8 list) \<Rightarrow> ('c, 'a, 'tq, 'k) async \<Rightarrow> key_line" where
  "line_of E items s = \<lparr>waiting = scancodes E items s, in_hand_of = in_hand (pc s), dealt_with = received s\<rparr>"

lemma line_quiet:
  "scancodes E items t = scancodes E items s \<Longrightarrow> in_hand (pc t) = in_hand (pc s) \<Longrightarrow> received t = received s \<Longrightarrow>
    line_of E items t = line_of E items s"
  by (simp add: line_of_def)

lemma line_pop:
  assumes "async_docs E P items capa slot due tcapa" and "pop_scancode E s = Ret (r, s')" and "in_hand (pc s) = []"
    and "in_hand p = (case r of None \<Rightarrow> [] | Some c \<Rightarrow> [c])"
  shows "line_of E items (s'\<lparr>pc := p\<rparr>) = line_of E items s \<or> line_step (line_of E items s) (line_of E items (s'\<lparr>pc := p\<rparr>))"
proof -
  note d = async_docsD [OF assms(1)]
  obtain q where q: "once_try_get (k_cell E) (SCANCODE_QUEUE s) = Some q"
    using assms(2) by (auto simp: pop_scancode_def outcome_simps)
  obtain x q' where x: "s' = s\<lparr>SCANCODE_QUEUE := x\<rparr>" "once_try_get (k_cell E) x = Some q'"
    "items q = (case r of None \<Rightarrow> [] | Some c \<Rightarrow> [c]) @ items q'"
    using pop_scancodeE [OF d(3,4) q assms(2)] by blast
  show ?thesis
  proof (cases r)
    case None
    then show ?thesis using x q assms(3,4) by (simp add: line_of_def scancodes_def)
  next
    case (Some c)
    then have "line_of E items (s'\<lparr>pc := p\<rparr>) = (line_of E items s)\<lparr>waiting := items q', in_hand_of := [c]\<rparr>"
      "waiting (line_of E items s) = c # items q'" "in_hand_of (line_of E items s) = []"
      using x q assms(3,4) by (simp_all add: line_of_def scancodes_def)
    then show ?thesis by (metis line_step.take_one)
  qed
qed

lemma line_key:
  assumes d: "async_docs E P items capa slot due tcapa" and inv: "async_inv E items capa slot due tcapa i s"
    and k: "interrupt E P vector_table 33 (s\<lparr>kbd_data := c\<rparr>) = Ret s'"
  shows "line_of E items (s'\<lparr>accepted := a\<rparr>) = line_of E items s \<or> line_step (line_of E items s) (line_of E items (s'\<lparr>accepted := a\<rparr>))"
  using d inv k
proof (cases rule: key_interruptE)
  case (room q x q' w tq)
  have "capa q = 128" using inv room(1) by (simp add: async_inv_def)
  then have "length (waiting (line_of E items s)) < 128"
    "line_of E items (s'\<lparr>accepted := a\<rparr>) = (line_of E items s)\<lparr>waiting := waiting (line_of E items s) @ [c]\<rparr>"
    using room by (simp_all add: line_of_def scancodes_def)
  then show ?thesis by (metis line_step.press)
qed (simp_all add: line_of_def scancodes_def)

lemma line_sim:
  assumes d: "async_docs E P items capa slot due tcapa" and inv: "async_inv E items capa slot due tcapa i s"
    and step: "async_step E P vector_table items capa i s t"
  shows "line_of E items t = line_of E items s \<or> line_step (line_of E items s) (line_of E items t)"
  using step
proof cases
  case (other_prints args)
  have "\<not> writer_locked s" "writer_ok (WRITER s)" using inv by (simp_all add: async_inv_def)
  from printE [OF async_docsD(1,2) [OF d] this, of args] other_prints(3) obtain w where "t = s\<lparr>WRITER := w\<rparr>" by (metis outcome.inject(1))
  then show ?thesis by (simp add: line_of_def scancodes_def)
next
  case start
  have "scancodes E items (start_reader E s) = scancodes E items s"
  proof (cases "reader s")
    case Unresumed
    then have "once_try_get (k_cell E) (SCANCODE_QUEUE s) = None" using inv by (simp add: async_inv_def)
    then show ?thesis using Unresumed async_docsD(4) [OF d] queue_docsD(1) [OF async_docsD(3) [OF d], of 128]
      by (simp add: start_reader_def ScancodeStream_new_def scancodes_def once_docs_def)
  qed (simp add: start_reader_def)
  moreover have "received (start_reader E s) = received s"
    by (simp add: start_reader_def ScancodeStream_new_def split: PrintKeypresses.splits)
  ultimately show ?thesis using start by (simp add: line_of_def scancodes_def in_hand_def)
next
  case (first r s1)
  then show ?thesis using line_pop [OF d first(4), where p = "case r of None \<Rightarrow> Registering | Some c \<Rightarrow> Received c"]
    by (cases r) (simp_all add: in_hand_def)
next
  case (second r s1)
  then show ?thesis using line_pop [OF d second(4), where p = "case r of None \<Rightarrow> Popping | Some c \<Rightarrow> Taking c"]
    by (cases r) (simp_all add: in_hand_def)
next
  case (receive c k k' s1)
  have "\<not> writer_locked s" "writer_ok (WRITER s)" using inv by (simp_all add: async_inv_def)
  from print_keypressE [OF async_docsD(1,2) [OF d] this, of c k] receive(5) obtain w where "s1 = s\<lparr>WRITER := w\<rparr>" by auto
  then have "line_of E items t = (line_of E items s)\<lparr>in_hand_of := [], dealt_with := dealt_with (line_of E items s) @ [c]\<rparr>"
    "in_hand_of (line_of E items s) = [c]"
    using receive by (simp_all add: line_of_def scancodes_def in_hand_def)
  then show ?thesis by (metis line_step.deal_with)
next
  case sleep
  then show ?thesis using wait_for_interrupts_if_eq [OF async_docsD(1) [OF d]]
    by (auto simp: sleep_if_idle_def line_of_def scancodes_def in_hand_def)
next
  case timer
  then have "t = s\<lparr>int_flag := True, halted := False\<rparr>"
    using timer_interrupt_eq [OF async_docsD(7) [OF d], of s vector_table None E] inv
    by (simp add: vector_table_def async_inv_def)
  then show ?thesis by (simp add: line_of_def scancodes_def)
next
  case (key c s1)
  then show ?thesis using line_key [OF d inv] by simp
qed (simp_all add: line_of_def scancodes_def in_hand_def register_waker_def take_waker_def)

interpretation line: simulation "\<lambda>s. async_docs E P items capa slot due tcapa \<and> async_init E i s"
    "\<lambda>s t. async_docs E P items capa slot due tcapa \<and> async_step E P vector_table items capa i s t"
    "async_inv E items capa slot due tcapa i"
    "\<lambda>l. l = \<lparr>waiting = [], in_hand_of = [], dealt_with = []\<rparr>" line_step "line_of E items"
  for E P items capa slot due tcapa i
proof
  show "line_of E items s = \<lparr>waiting = [], in_hand_of = [], dealt_with = []\<rparr>"
    if "async_docs E P items capa slot due tcapa \<and> async_init E i s" for s
    using that async_docsD(4) [of E P items capa slot due tcapa]
    by (auto simp: async_init_def line_of_def scancodes_def in_hand_def once_docs_def)
  show "line_of E items t = line_of E items s \<or> line_step (line_of E items s) (line_of E items t)"
    if "async_inv E items capa slot due tcapa i s"
      and "async_docs E P items capa slot due tcapa \<and> async_step E P vector_table items capa i s t" for s t
    using that line_sim by blast
qed (use async_init_inv async_step_inv in blast)+

text \<open>What the specification promises by itself.\<close>

lemma store_disjoint:
  assumes "reach (\<lambda>m. m = Map.empty) store_step m" and "m p = Some a" and "m q = Some b" and "p \<noteq> q"
  shows "block_range p a \<inter> block_range q b = {}"
  using assms
proof (induction arbitrary: p q a b rule: reach.induct)
  case (reach_step s t)
  from reach_step.hyps(2) show ?case
  proof cases
    case (hand_out x n)
    then show ?thesis using reach_step.IH reach_step.prems by (cases "p = x"; cases "q = x") (auto simp: Int_commute)
  next
    case (give_back x n)
    then show ?thesis using reach_step.IH reach_step.prems by (auto split: if_splits)
  qed
qed simp

lemma line_bounded:
  assumes "reach (\<lambda>l. l = \<lparr>waiting = [], in_hand_of = [], dealt_with = []\<rparr>) line_step l"
  shows "length (waiting l) \<le> 128 \<and> length (in_hand_of l) \<le> 1"
  using assms
proof (induction rule: reach.induct)
  case (reach_step s t)
  from reach_step.hyps(2) reach_step.IH show ?case by cases auto
qed simp

section \<open>The properties\<close>

text \<open>C21. The keyboard is a line: whatever the interleaving of the executor, the reader and the interrupts, what
  the user observes is a run of a bounded queue, in which a scancode is accepted when fewer than 128
  wait, the reader takes them one at a time from the front, and deals with each before it takes the
  next. So scancodes are received in the order of the key presses, each once, and what has been
  accepted is what has been received, what is in hand and what waits.\<close>

theorem keyboard_refines_line:
  assumes "async_docs E P items capa slot due tcapa" and "idt_docs T entry" and "IDT T = Ret t"
    and "reach (async_init E i) (async_step E P (entry t) items capa i) s"
  shows "reach (\<lambda>l. l = \<lparr>waiting = [], in_hand_of = [], dealt_with = []\<rparr>) line_step (line_of E items s) \<and>
    accepted s = received s @ in_hand (pc s) @ scancodes E items s \<and> length (scancodes E items s) \<le> 128"
proof -
  note r = async_reach_inv [OF assms]
  have "reach (\<lambda>s. async_docs E P items capa slot due tcapa \<and> async_init E i s)
      (\<lambda>s t. async_docs E P items capa slot due tcapa \<and> async_step E P vector_table items capa i s t) s"
    using assms(1,4) unfolding r(2) by (elim reach_mono) simp_all
  then have l: "reach (\<lambda>l. l = \<lparr>waiting = [], in_hand_of = [], dealt_with = []\<rparr>) line_step (line_of E items s)"
    by (rule line.abs_reach)
  moreover have "length (scancodes E items s) \<le> 128" using line_bounded [OF l] by (simp add: line_of_def)
  ultimately show ?thesis using scancodes_in_order [OF assms] by blast
qed

theorem keyboard_refines_line_witness:
  "\<exists>s :: demo_async. demo_reach s \<and> accepted s = [0x1e] \<and>
    reach (\<lambda>l. l = \<lparr>waiting = [], in_hand_of = [], dealt_with = []\<rparr>) line_step \<lparr>waiting = [0x1e], in_hand_of = [], dealt_with = []\<rparr>"
proof -
  let ?s = "(demo_at Popping (Some (128, [0x1e])) None [5] (Suspended ()) [0x1e])\<lparr>kbd_data := 0x1e\<rparr>"
  have "line_of std_crates snd ?s = \<lparr>waiting = [0x1e], in_hand_of = [], dealt_with = []\<rparr>"
    by (simp add: line_of_def scancodes_def in_hand_def demo_defs)
  with keyboard_refines_line [OF std_async_docs map_idt_docs map_idt_IDT, OF demo_key] demo_key
  show ?thesis by (intro exI [of _ ?s]) (simp add: demo_at_def)
qed



end
