(* ===== verification/Testing.thy ===== *)
theory Testing
  imports Interrupts Syscalls
begin

text \<open>
  \<^verbatim>\<open>kernel/src/serial.rs\<close> and the test harness of \<^verbatim>\<open>kernel/src/lib.rs\<close>: output to the serial port
  and the runner that reports every test there before it ends the emulator. The port
  (\<^verbatim>\<open>uart_16550\<close>) is a parameter. The facts are about the report.
\<close>

section \<open>The serial port\<close>

record ('pt, 'u) serial = "'pt kernel" +
  SERIAL1 :: 'u
  serial_locked :: bool

record ('u, 's) uart_api =
  uart_new :: "nat \<Rightarrow> 'u"
  uart_init :: "'u \<Rightarrow> 'u"
  uart_write_str :: "u8 list \<Rightarrow> 'u \<Rightarrow> ((unit + unit) \<times> 'u) outcome"
  serial_lock :: "('s \<Rightarrow> 's outcome) \<Rightarrow> 's \<Rightarrow> 's outcome"
  exit_port_write :: "nat \<Rightarrow> u32 \<Rightarrow> 's \<Rightarrow> 's outcome"

text \<open>
  Writing a string never fails and sends the bytes one after the other; \<open>send\<close> is the effect of a
  byte (the crate turns a backspace into three). The lock is a \<^verbatim>\<open>spin::Mutex\<close>.
\<close>

definition uart_docs :: "('u, ('pt, 'u, 'z) serial_scheme) uart_api \<Rightarrow> (u8 \<Rightarrow> 'u \<Rightarrow> 'u) \<Rightarrow> bool" where
  "uart_docs U send \<longleftrightarrow>
     (\<forall>bs u. uart_write_str U bs u = Ret (Inr (), fold send bs u)) \<and>
     (\<forall>f s. serial_lock U f s = (if serial_locked s then Diverge
        else obind (f (s\<lparr>serial_locked := True\<rparr>)) (\<lambda>t. Ret (t\<lparr>serial_locked := False\<rparr>))))"

definition SERIAL1_init :: "('u, 's) uart_api \<Rightarrow> 'u" where
  "SERIAL1_init U = uart_init U (uart_new U 0x3F8)"

definition serial_print :: "('pt, 'u, 'z) serial_scheme irq_api \<Rightarrow> ('u, ('pt, 'u, 'z) serial_scheme) uart_api \<Rightarrow> u8 list list
    \<Rightarrow> ('pt, 'u, 'z) serial_scheme \<Rightarrow> ('pt, 'u, 'z) serial_scheme outcome" where
  "serial_print X U args = without_interrupts X (serial_lock U (\<lambda>s.
     obind (write_fmt (uart_write_str U) args (SERIAL1 s)) (\<lambda>(r, u).
     obind (unwrap_result r) (\<lambda>_. Ret (s\<lparr>SERIAL1 := u\<rparr>)))))"

definition serial_println :: "('pt, 'u, 'z) serial_scheme irq_api \<Rightarrow> ('u, ('pt, 'u, 'z) serial_scheme) uart_api \<Rightarrow> u8 list list
    \<Rightarrow> ('pt, 'u, 'z) serial_scheme \<Rightarrow> ('pt, 'u, 'z) serial_scheme outcome" where
  "serial_println X U args = serial_print X U (args @ [[0x0a]])"

section \<open>The harness\<close>

text \<open>A test is a function, with the name of its type.\<close>

type_synonym 's test = "string \<times> ('s \<Rightarrow> 's outcome)"

definition Testable_run :: "('pt, 'u, 'z) serial_scheme irq_api \<Rightarrow> ('u, ('pt, 'u, 'z) serial_scheme) uart_api
    \<Rightarrow> ('pt, 'u, 'z) serial_scheme test \<Rightarrow> ('pt, 'u, 'z) serial_scheme \<Rightarrow> ('pt, 'u, 'z) serial_scheme outcome" where
  "Testable_run X U t s =
     obind (serial_print X U [str (fst t), str ''...'', [0x09]] s) (\<lambda>s.
     obind (snd t s) (serial_println X U [str ''[ok]'']))"

definition run_tests :: "('pt, 'u, 'z) serial_scheme irq_api \<Rightarrow> ('u, ('pt, 'u, 'z) serial_scheme) uart_api
    \<Rightarrow> ('pt, 'u, 'z) serial_scheme test list \<Rightarrow> ('pt, 'u, 'z) serial_scheme \<Rightarrow> ('pt, 'u, 'z) serial_scheme outcome" where
  "run_tests X U tests s =
     obind (serial_println X U [str ''Running '', fmt_dec (word_of_nat (length tests)), str '' tests''] s)
       (for_each (Testable_run X U) tests)"

definition test_runner :: "('pt, 'u, 'z) serial_scheme irq_api \<Rightarrow> ('u, ('pt, 'u, 'z) serial_scheme) uart_api
    \<Rightarrow> ('pt, 'u, 'z) serial_scheme test list \<Rightarrow> ('pt, 'u, 'z) serial_scheme \<Rightarrow> 'r outcome" where
  "test_runner X U tests s = obind (run_tests X U tests s) (exit_qemu X (exit_port_write U) Success)"

definition test_panic_handler :: "('pt, 'u, 'z) serial_scheme irq_api \<Rightarrow> ('u, ('pt, 'u, 'z) serial_scheme) uart_api
    \<Rightarrow> u8 list list \<Rightarrow> ('pt, 'u, 'z) serial_scheme \<Rightarrow> 'r outcome" where
  "test_panic_handler X U info s =
     obind (serial_println X U [str ''[failed]'', [0x0a]] s) (\<lambda>s.
     obind (serial_println X U ([str ''Error: ''] @ info @ [[0x0a]]) s)
       (exit_qemu X (exit_port_write U) Failed))"

section \<open>Facts\<close>

text \<open>The port is an output device in the sense of \<^verbatim>\<open>fmt::Write\<close>.\<close>

lemma uart_sink: "uart_docs U send \<Longrightarrow> fmt_sink (uart_write_str U) (\<lambda>_. True) send"
  by (unfold_locales) (simp_all add: uart_docs_def)

lemma serial_print_eq:
  assumes "irq_docs X" and "uart_docs U send" and "\<not> serial_locked s"
  shows "serial_print X U args s = Ret (s\<lparr>SERIAL1 := fold send (concat args) (SERIAL1 s)\<rparr>)"
  using assms fmt_sink.write_fmt_eq [OF uart_sink [OF assms(2)]]
  by (cases "int_flag s") (simp_all add: serial_print_def without_interrupts_def irq_docs_def uart_docs_def)

definition test_report :: "string \<Rightarrow> u8 list" where
  "test_report name = str name @ str ''...'' @ [0x09] @ str ''[ok]'' @ [0x0a]"

text \<open>
  Tests that return and leave the port alone, from any state that is good for one test more than are
  left after it; \<open>good\<close> is about the rest of the kernel, not about the contents of the port.
\<close>

definition quiet_test :: "(nat \<Rightarrow> ('pt, 'u, 'z) serial_scheme \<Rightarrow> bool) \<Rightarrow> ('pt, 'u, 'z) serial_scheme test \<Rightarrow> bool" where
  "quiet_test good t \<longleftrightarrow> (\<forall>n s. good (Suc n) s \<longrightarrow> \<not> serial_locked s \<longrightarrow>
     (\<exists>s'. snd t s = Ret s' \<and> good n s' \<and> SERIAL1 s' = SERIAL1 s \<and> \<not> serial_locked s'))"

definition off_port :: "(nat \<Rightarrow> ('pt, 'u, 'z) serial_scheme \<Rightarrow> bool) \<Rightarrow> bool" where
  "off_port good \<longleftrightarrow> (\<forall>n s u. good n (s\<lparr>SERIAL1 := u\<rparr>) = good n s)"

lemma run_all:
  assumes "irq_docs X" and "uart_docs U send" and "off_port good" and "\<forall>t \<in> set tests. quiet_test good t"
    and "good (length tests) s" and "\<not> serial_locked s"
  shows "\<exists>s'. for_each (Testable_run X U) tests s = Ret s' \<and> good 0 s' \<and> \<not> serial_locked s' \<and>
    SERIAL1 s' = fold send (concat (map (\<lambda>t. test_report (fst t)) tests)) (SERIAL1 s)"
  using assms(4-6)
proof (induction tests arbitrary: s)
  case (Cons t tests)
  let ?s1 = "s\<lparr>SERIAL1 := fold send (str (fst t) @ str ''...'' @ [0x09]) (SERIAL1 s)\<rparr>"
  have p1: "serial_print X U [str (fst t), str ''...'', [0x09]] s = Ret ?s1"
    using serial_print_eq [OF assms(1,2) Cons.prems(3)] by simp
  have "\<not> serial_locked ?s1" "quiet_test good t" "good (Suc (length tests)) ?s1" using Cons.prems assms(3) by (simp_all add: off_port_def)
  then obtain s2 where s2: "snd t ?s1 = Ret s2" "SERIAL1 s2 = SERIAL1 ?s1" "\<not> serial_locked s2" "good (length tests) s2"
    unfolding quiet_test_def by blast
  let ?s3 = "s2\<lparr>SERIAL1 := fold send (str ''[ok]'' @ [0x0a]) (SERIAL1 s2)\<rparr>"
  have p3: "serial_println X U [str ''[ok]''] s2 = Ret ?s3"
    using serial_print_eq [OF assms(1,2) s2(3)] by (simp add: serial_println_def)
  have t: "Testable_run X U t s = Ret ?s3" using p1 s2(1) p3 by (simp add: Testable_run_def)
  have "good (length tests) ?s3" using s2(4) assms(3) by (simp add: off_port_def)
  then obtain s' where "for_each (Testable_run X U) tests ?s3 = Ret s'" "\<not> serial_locked s'" "good 0 s'"
    "SERIAL1 s' = fold send (concat (map (\<lambda>t. test_report (fst t)) tests)) (SERIAL1 ?s3)"
    using Cons.IH [of ?s3] Cons.prems(1) s2(3) by auto
  then show ?case using t s2(2) by (simp add: test_report_def)
qed simp

text \<open>The whole report.\<close>

definition suite_report :: "string list \<Rightarrow> u8 list" where
  "suite_report names = str ''Running '' @ fmt_dec (word_of_nat (length names)) @ str '' tests'' @ [0x0a] @
     concat (map test_report names)"

lemma test_runner_exits:
  "run_tests X U tests s = Ret s' \<Longrightarrow> exit_device (exit_port_write U) \<Longrightarrow> test_runner X U tests s = PowerOff 0x10"
  by (simp add: test_runner_def exit_qemu_exits QemuExitCode_as_u32_def)

lemma run_tests_report:
  assumes "irq_docs X" and "uart_docs U send" and "off_port good" and "\<forall>t \<in> set tests. quiet_test good t"
    and "good (length tests) s" and "\<not> serial_locked s" and "exit_device (exit_port_write U)"
  shows "\<exists>s'. run_tests X U tests s = Ret s' \<and> good 0 s' \<and> \<not> serial_locked s' \<and>
    SERIAL1 s' = fold send (suite_report (map fst tests)) (SERIAL1 s) \<and>
    (test_runner X U tests s :: 'r outcome) = PowerOff 0x10"
proof -
  let ?h = "str ''Running '' @ fmt_dec (word_of_nat (length tests)) @ str '' tests'' @ [0x0a]"
  let ?s1 = "s\<lparr>SERIAL1 := fold send ?h (SERIAL1 s)\<rparr>"
  have p: "serial_println X U [str ''Running '', fmt_dec (word_of_nat (length tests)), str '' tests''] s = Ret ?s1"
    using serial_print_eq [OF assms(1,2,6)] by (simp add: serial_println_def)
  have "good (length tests) ?s1" using assms(3,5) by (simp add: off_port_def)
  then obtain s' where s': "for_each (Testable_run X U) tests ?s1 = Ret s'" "good 0 s'" "\<not> serial_locked s'"
    "SERIAL1 s' = fold send (concat (map (\<lambda>t. test_report (fst t)) tests)) (SERIAL1 ?s1)"
    using run_all [OF assms(1-4), of ?s1] assms(6) by auto
  have "run_tests X U tests s = Ret s'" using p s'(1) by (simp add: run_tests_def)
  then show ?thesis using s'(2-4) test_runner_exits [OF _ assms(7)] by (simp add: comp_def suite_report_def)
qed

section \<open>An example\<close>

text \<open>A port that keeps a log, and a kernel with it, for examples.\<close>

definition demo_serial :: "(Page \<rightharpoonup> PhysFrame \<times> PageTableFlags, u8 list) serial" where
  "demo_serial = kernel.extend demo_kernel \<lparr>SERIAL1 = [], serial_locked = False\<rparr>"

definition log_uart :: "(u8 list, ('pt, u8 list, 'z) serial_scheme) uart_api" where
  "log_uart = \<lparr>uart_new = (\<lambda>_. []), uart_init = (\<lambda>u. u), uart_write_str = (\<lambda>bs u. Ret (Inr (), fold (\<lambda>b u. u @ [b]) bs u)),
     serial_lock = (\<lambda>f s. if serial_locked s then Diverge
       else obind (f (s\<lparr>serial_locked := True\<rparr>)) (\<lambda>t. Ret (t\<lparr>serial_locked := False\<rparr>))),
     exit_port_write = (\<lambda>port v s. if port = 0xf4 then PowerOff v else Ret s)\<rparr>"

lemma log_uart_docs: "uart_docs log_uart (\<lambda>b u. u @ [b])"
  by (simp add: uart_docs_def log_uart_def)

lemma log_uart_exit: "exit_device (exit_port_write log_uart)"
  by (simp add: exit_device_def log_uart_def)

lemma log_uart_fold: "fold (\<lambda>b u. u @ [b]) bs [] = (bs :: u8 list)"
  by (induction bs rule: rev_induct) auto

end
