(* ===== verification/Unit_Tests.thy ===== *)
theory Unit_Tests
  imports Testing Boot
begin

text \<open>
  The tests inside the sources of the kernel (\<^verbatim>\<open>kernel/src/vga_buffer.rs\<close> and
  \<^verbatim>\<open>kernel/src/syscall/mod.rs\<close>) and the entry point of the test build (\<^verbatim>\<open>kernel/src/lib.rs\<close>). A test is a
  function of the state that panics if an assertion fails. The property is that the suite passes:
  not on one run, but from every state a test build can start in.
\<close>

section \<open>The tests\<close>

definition assert_eq :: "'a \<Rightarrow> 'a \<Rightarrow> 's \<Rightarrow> 's outcome" where
  "assert_eq a b s = (if a = b then Ret s else Panic)"

definition println_simple :: "'a console_scheme irq_api \<Rightarrow> 'a lock_fn \<Rightarrow> 'a console_scheme \<Rightarrow> 'a console_scheme outcome" where
  "println_simple X L = println X L [str ''test_println_simple output'']"

definition println_many :: "'a console_scheme irq_api \<Rightarrow> 'a lock_fn \<Rightarrow> 'a console_scheme \<Rightarrow> 'a console_scheme outcome" where
  "println_many X L = for_each (\<lambda>_. println X L [str ''test_println_many output'']) [0..<200 :: nat]"

text \<open>The characters of the string are ASCII, so a character is its byte. The cell is read and compared under the lock.\<close>

definition println_output_test :: "'a console_scheme irq_api \<Rightarrow> 'a lock_fn \<Rightarrow> 'a console_scheme \<Rightarrow> 'a console_scheme outcome" where
  "println_output_test X L = without_interrupts X (\<lambda>s.
     obind (println X L [] s) (\<lambda>s.
     let t = str ''Some test string that fits on a single line'' in
     obind (println X L [t] s)
       (for_each (\<lambda>(i, c). L (\<lambda>s.
         obind (chars_read (WRITER s) (BUFFER_HEIGHT - 2) i) (\<lambda>screen_char.
         assert_eq (ascii_character screen_char) c s))) (enumerate 0 t))))"

text \<open>
  The test of the layout of \<^verbatim>\<open>ThreadData\<close>. \<^verbatim>\<open>Option<NonZeroU64>\<close> is one word; a zeroed word and the word
  10 are read as one.
\<close>

definition size_of_u64 :: nat where
  "size_of_u64 = 8"

definition ThreadData_fields :: "field list" where
  "ThreadData_fields = [(''kernel_rsp'', size_of_u64, size_of_u64), (''user_tmp_rsp'', size_of_u64, size_of_u64)]"

definition thread_data_alignment :: "'s \<Rightarrow> 's outcome" where
  "thread_data_alignment s =
     obind (assert_eq (map_option fst (map_of ThreadData_fields ''kernel_rsp'')) (Some size_of_u64) s) (\<lambda>s.
     obind (assert_eq (unniche 0) None s) (\<lambda>s.
     obind (assert_eq (offset_of ThreadData_fields ''kernel_rsp'') (Some 0) s) (\<lambda>s.
     obind (assert_eq (offset_of ThreadData_fields ''user_tmp_rsp'') (Some 8) s) (\<lambda>s.
     assert_eq (unniche 10) (Some 10) s))))"

text \<open>The tests of the library, under the names of their types.\<close>

definition kernel_tests :: "('pt, 'u, 'z) serial_scheme irq_api \<Rightarrow> ('pt, ('u, 'z) serial_ext) kernel_ext lock_fn
    \<Rightarrow> ('pt, 'u, 'z) serial_scheme test list" where
  "kernel_tests X L = [
     (''zulu_os::syscall::tests::thread_data_alignment'', thread_data_alignment),
     (''zulu_os::vga_buffer::tests::println_simple'', println_simple X L),
     (''zulu_os::vga_buffer::tests::println_many'', println_many X L),
     (''zulu_os::vga_buffer::tests::println_output'', println_output_test X L)]"

text \<open>
  The entry point of the test build: the generated \<^verbatim>\<open>test_main\<close> hands the tests it has collected to
  \<^verbatim>\<open>test_runner\<close>.
\<close>

definition kernel_main_test :: "('pt, ('u, 'z) serial_ext, 'g, 't) boot_platform \<Rightarrow> ('pt, 'u, 'z) serial_scheme irq_api
    \<Rightarrow> ('u, ('pt, 'u, 'z) serial_scheme) uart_api \<Rightarrow> ('pt, 'u, 'z) serial_scheme test list
    \<Rightarrow> ('pt, ('u, 'z) serial_ext, 'g, 't) boot_cpu \<Rightarrow> 'r outcome" where
  "kernel_main_test M X U tests c =
     obind (init M c) (\<lambda>c.
     obind (test_runner X U tests (ksys c))
       (hlt_loop X))"

section \<open>Facts\<close>

text \<open>What the tests need and keep: the console is well-formed and its lock is free.\<close>

definition console_ok :: "'a console_scheme \<Rightarrow> bool" where
  "console_ok s \<longleftrightarrow> \<not> writer_locked s \<and> writer_ok (WRITER s)"

lemma print_keeps:
  assumes "irq_docs X" and "lock_docs L" and "console_ok s"
  shows "print X L args s = Ret (s\<lparr>WRITER := fold (\<lambda>b. byte_written (sanitize b)) (concat args) (WRITER s)\<rparr>) \<and>
    console_ok (s\<lparr>WRITER := fold (\<lambda>b. byte_written (sanitize b)) (concat args) (WRITER s)\<rparr>)"
  using print_eq [OF assms(1,2), of s args] vga_fmt.good_fold [of "WRITER s" "concat args"] assms(3)
  by (simp add: console_ok_def)

text \<open>A test that only writes to the console.\<close>

definition writes_console :: "('a console_scheme \<Rightarrow> 'a console_scheme outcome) \<Rightarrow> bool" where
  "writes_console f \<longleftrightarrow> (\<forall>s. console_ok s \<longrightarrow> (\<exists>w. f s = Ret (s\<lparr>WRITER := w\<rparr>) \<and> console_ok (s\<lparr>WRITER := w\<rparr>)))"

lemma writes_console_print: "irq_docs X \<Longrightarrow> lock_docs L \<Longrightarrow> writes_console (print X L args)"
  using print_keeps [of X L] unfolding writes_console_def by blast

lemma writes_console_Ret: "writes_console Ret"
proof -
  have "s = s\<lparr>WRITER := WRITER s\<rparr>" for s :: "'a console_scheme" by simp
  then show ?thesis unfolding writes_console_def by metis
qed

lemma writes_console_bind:
  assumes "writes_console f" and "writes_console g"
  shows "writes_console (\<lambda>s. obind (f s) g)"
  unfolding writes_console_def
proof (intro allI impI)
  fix s :: "'a console_scheme" assume s: "console_ok s"
  obtain w where w: "f s = Ret (s\<lparr>WRITER := w\<rparr>)" "console_ok (s\<lparr>WRITER := w\<rparr>)"
    using assms(1) s unfolding writes_console_def by blast
  obtain v where "g (s\<lparr>WRITER := w\<rparr>) = Ret (s\<lparr>WRITER := v\<rparr>)" "console_ok (s\<lparr>WRITER := v\<rparr>)"
    using assms(2) w(2) unfolding writes_console_def by fastforce
  then show "\<exists>w. obind (f s) g = Ret (s\<lparr>WRITER := w\<rparr>) \<and> console_ok (s\<lparr>WRITER := w\<rparr>)" using w(1) by auto
qed

lemma writes_console_for_each: "(\<And>x. writes_console (f x)) \<Longrightarrow> writes_console (for_each f xs)"
proof (induction xs)
  case Nil
  then show ?case using writes_console_Ret by (simp add: writes_console_def)
next
  case (Cons x xs)
  have "writes_console (\<lambda>s. obind (f x s) (for_each f xs))"
    by (rule writes_console_bind [OF Cons.prems Cons.IH [OF Cons.prems]])
  then show ?case by (simp add: writes_console_def)
qed

lemma console_test_quiet: "writes_console f \<Longrightarrow> quiet_test (\<lambda>_. console_ok) (name, f)"
  unfolding writes_console_def quiet_test_def by fastforce

text \<open>The characters of the line are where the test looks for them.\<close>

lemma cells_checked:
  assumes "lock_docs L" and "console_ok s"
    and "\<forall>i < length t. 23 < length (buffer (WRITER s)) \<and> k + i < length (buffer (WRITER s) ! 23) \<and>
      ascii_character (buffer (WRITER s) ! 23 ! (k + i)) = t ! i"
  shows "for_each (\<lambda>(i, c). L (\<lambda>s. obind (chars_read (WRITER s) (BUFFER_HEIGHT - 2) i) (\<lambda>screen_char.
      assert_eq (ascii_character screen_char) c s))) (enumerate k t) s = Ret s"
  using assms(3)
proof (induction t arbitrary: k)
  case (Cons c t)
  have "\<forall>i < length t. 23 < length (buffer (WRITER s)) \<and> Suc k + i < length (buffer (WRITER s) ! 23) \<and>
      ascii_character (buffer (WRITER s) ! 23 ! (Suc k + i)) = t ! i"
    using Cons.prems by auto
  note IH = Cons.IH [OF this]
  have "L (\<lambda>s. obind (chars_read (WRITER s) (BUFFER_HEIGHT - 2) k) (\<lambda>screen_char.
      assert_eq (ascii_character screen_char) c s)) s = Ret s"
    using assms(1,2) Cons.prems [rule_format, of 0]
    by (simp add: lock_docs_def console_ok_def chars_read_def vga_consts assert_eq_def)
  with IH show ?case by simp
qed simp

lemma println_output_passes:
  assumes "irq_docs X" and "lock_docs L"
  shows "writes_console (println_output_test X L)"
  unfolding writes_console_def
proof (intro allI impI)
  fix s0 :: "'a console_scheme" assume s0: "console_ok s0"
  define s where "s = s0\<lparr>int_flag := False\<rparr>"
  define t where "t = str ''Some test string that fits on a single line''"
  have s: "console_ok s" "\<not> writer_locked s" "writer_ok (WRITER s)" using s0 by (simp_all add: s_def console_ok_def)
  have len: "length t = 43" by (simp add: t_def str_def)
  have "\<forall>b \<in> set t. 0x20 \<le> b \<and> b \<le> 0x7e" by (simp add: t_def str_def)
  from println_output [OF assms s(2,3) _ this] len obtain s' where
    s': "obind (println X L [] s) (println X L [t]) = Ret s'"
    "buffer (WRITER s') ! 23 = map (\<lambda>b. \<lparr>ascii_character = b, sc_color_code = color_code (WRITER s)\<rparr>) t @ replicate 37 (blank (WRITER s))"
    by (auto simp: vga_consts)
  have "writes_console (\<lambda>s. obind (println X L [] s) (println X L [t]))"
    unfolding println_def by (intro writes_console_bind writes_console_print assms)
  then obtain w where "s' = s\<lparr>WRITER := w\<rparr>" "console_ok s'" using s(1) s'(1) unfolding writes_console_def by fastforce
  then have w: "s' = s\<lparr>WRITER := w\<rparr>" "console_ok s'" "length (buffer w) = 25"
    by (auto simp: console_ok_def writer_ok_def dest: buffer_okD(1))
  have "for_each (\<lambda>(i, c). L (\<lambda>s. obind (chars_read (WRITER s) (BUFFER_HEIGHT - 2) i) (\<lambda>screen_char.
      assert_eq (ascii_character screen_char) c s))) (enumerate 0 t) s' = Ret s'"
    using s'(2) len w by (intro cells_checked assms) (simp_all add: nth_append)
  then have r: "obind (println X L [] s) (\<lambda>s. obind (println X L [t] s) (for_each (\<lambda>(i, c). L (\<lambda>s.
      obind (chars_read (WRITER s) (BUFFER_HEIGHT - 2) i) (\<lambda>screen_char.
      assert_eq (ascii_character screen_char) c s))) (enumerate 0 t))) = Ret s'"
    using s'(1) by (cases "println X L [] s") simp_all
  have "println_output_test X L s0 = Ret (s0\<lparr>WRITER := w\<rparr>)"
    using assms(1) r w(1)
    by (cases "int_flag s0") (simp_all add: println_output_test_def without_interrupts_def irq_docs_def t_def [symmetric] s_def)
  moreover have "console_ok (s0\<lparr>WRITER := w\<rparr>)" using w(1,2) by (simp add: console_ok_def s_def)
  ultimately show "\<exists>w. println_output_test X L s0 = Ret (s0\<lparr>WRITER := w\<rparr>) \<and> console_ok (s0\<lparr>WRITER := w\<rparr>)" by blast
qed

lemma thread_data_alignment_passes: "thread_data_alignment s = Ret s"
  by (simp add: thread_data_alignment_def assert_eq_def ThreadData_fields_def size_of_u64_def offset_of_def next_multiple_def
      unniche_def Let_def)

lemma kernel_tests_quiet:
  assumes "irq_docs X" and "lock_docs L" and "t \<in> set (kernel_tests X L)"
  shows "quiet_test (\<lambda>_. console_ok) t"
proof -
  have "writes_console (println_simple X L)" "writes_console (println_many X L)"
    unfolding println_simple_def println_many_def println_def
    by (intro writes_console_for_each writes_console_print assms(1,2))+
  moreover have "quiet_test (\<lambda>_. console_ok) (''zulu_os::syscall::tests::thread_data_alignment'', thread_data_alignment)"
    by (simp add: quiet_test_def thread_data_alignment_passes)
  ultimately show ?thesis
    using assms(3) println_output_passes [OF assms(1,2)] by (auto simp: kernel_tests_def intro: console_test_quiet)
qed

lemma console_ok_off_port: "off_port (\<lambda>_. console_ok)"
  by (simp add: off_port_def console_ok_def)

section \<open>The property\<close>

text \<open>C25. The test suite of the kernel library passes: on a platform that behaves as documented, from any
  state with a well-formed, unlocked console and an unlocked port, and in whatever order the harness
  has collected the tests, the test build initialises, no assertion of a test fails, the serial port
  has received the header and the line with \<^verbatim>\<open>[ok]\<close> for every test and nothing else, and the run ends the
  emulator with the code of success.\<close>

theorem unit_tests_pass:
  assumes "platform_docs M slots entry" and "platform_ok M boot_info" and "irq_docs X" and "lock_docs L" and "uart_docs U send"
    and "\<not> writer_locked (ksys c)" and "writer_ok (WRITER (ksys c))" and "\<not> serial_locked (ksys c)"
    and "set tests \<subseteq> set (kernel_tests X L)" and "exit_device (exit_port_write U)"
  shows "\<exists>c1 s'. init M c = Ret c1 \<and> run_tests X U tests (ksys c1) = Ret s' \<and>
    SERIAL1 s' = fold send (suite_report (map fst tests)) (SERIAL1 (ksys c)) \<and>
    kernel_main_test M X U tests c = (PowerOff 0x10 :: 'r outcome)"
proof -
  obtain c1 where c1: "init M c = Ret c1" "ksys c1 = ksys c" using init_ok [OF assms(1,2)] by blast
  have "\<forall>t \<in> set tests. quiet_test (\<lambda>_. console_ok) t" using assms(9) kernel_tests_quiet [OF assms(3,4)] by blast
  moreover have "console_ok (ksys c1)" "\<not> serial_locked (ksys c1)" using assms(6-8) c1(2) by (simp_all add: console_ok_def)
  ultimately obtain s' where "run_tests X U tests (ksys c1) = Ret s'"
    "SERIAL1 s' = fold send (suite_report (map fst tests)) (SERIAL1 (ksys c1))"
    using run_tests_report [OF assms(3,5) console_ok_off_port, of tests "ksys c1"] assms(10) by blast
  then show ?thesis using c1 by (simp add: kernel_main_test_def test_runner_exits [OF _ assms(10)])
qed

definition test_cpu :: "('pt, 'z) kernel_scheme \<Rightarrow> ('pt, 'z, Descriptor option list, nat \<Rightarrow> (handler \<times> nat option) option) boot_cpu" where
  "test_cpu k = \<lparr>regs = (\<lambda>_. 0)(RSP := 0x18000), rip = 0, rflags = 2, cs = 0, ss = 0, gs_base = 7, kernel_gs_base = 0, star = 0,
     lstar = 0, sfmask = 0, efer_sce = False, cr4_fsgsbase = False, cells = (\<lambda>_. 0), ksys = k,
     ds = 0, gs = 0, tr = 0, gdtr = None, idtr = None\<rparr>"

theorem unit_tests_pass_witness:
  "kernel_main_test demo_platform std_irq log_uart (kernel_tests std_irq std_lock) (test_cpu demo_serial) = (PowerOff 0x10 :: unit outcome) \<and>
   (\<exists>c1 s'. init demo_platform (test_cpu demo_serial) = Ret c1 \<and> run_tests std_irq log_uart (kernel_tests std_irq std_lock) (ksys c1) = Ret s' \<and>
     SERIAL1 s' = suite_report (map fst (kernel_tests std_irq (std_lock :: (Page \<rightharpoonup> PhysFrame \<times> PageTableFlags, (u8 list, unit) serial_ext) kernel_ext lock_fn))))"
proof -
  have s: "\<not> writer_locked (ksys (test_cpu demo_serial))" "writer_ok (WRITER (ksys (test_cpu demo_serial)))" "\<not> serial_locked (ksys (test_cpu demo_serial))"
    "SERIAL1 (ksys (test_cpu demo_serial)) = []"
    by (simp_all add: test_cpu_def demo_serial_def kernel.defs demo_kernel_def demo_writer_ok)
  from unit_tests_pass [OF demo_platform_docs demo_platform_ok std_irq_docs std_lock_docs log_uart_docs s(1-3) subset_refl log_uart_exit]
  show ?thesis by (auto simp: s(4) log_uart_fold)
qed

end
