(* ===== verification/Heap_Tests.thy ===== *)
theory Heap_Tests
  imports Unit_Tests
begin

text \<open>
  \<^verbatim>\<open>kernel/tests/heap_allocation.rs\<close>: the integration test of the kernel heap. What it uses of the
  standard library is modelled down to the global allocator and the memory: \<^verbatim>\<open>Box\<close>, \<^verbatim>\<open>Vec\<close> with its
  growth, the default \<^verbatim>\<open>realloc\<close> of \<^verbatim>\<open>GlobalAlloc\<close> and \<^verbatim>\<open>alloc_error_handler\<close> of \<^verbatim>\<open>kernel/src/lib.rs\<close>.
  Values are stored as bytes through the page table, so that a test passes only if the heap is
  mapped, the blocks do not overlap and every pointer is aligned. The property is that the suite
  passes, in any order of the tests.
\<close>

section \<open>The state\<close>

record ('pt, 'u) heap_kernel = "('pt, 'u) serial" +
  ALLOCATOR :: BumpAllocator

section \<open>Values in memory\<close>

text \<open>Little-endian bytes of an integer.\<close>

primrec le_bytes :: "nat \<Rightarrow> nat \<Rightarrow> u8 list" where
  "le_bytes 0 v = []"
| "le_bytes (Suc n) v = word_of_nat v # le_bytes n (v div 256)"

primrec of_le_bytes :: "u8 list \<Rightarrow> nat" where
  "of_le_bytes [] = 0"
| "of_le_bytes (b # bs) = unat b + 256 * of_le_bytes bs"

definition size_of_val :: "'a::len word \<Rightarrow> nat" where
  "size_of_val v = LENGTH('a) div 8"

text \<open>A write and a read through a typed pointer; with a pointer that is not aligned they are undefined.\<close>

definition ptr_write :: "('pt, 'fa) paging \<Rightarrow> VirtAddr \<Rightarrow> 'a::len word \<Rightarrow> ('pt, 'z) kernel_scheme \<Rightarrow> ('pt, 'z) kernel_scheme outcome" where
  "ptr_write P p v s =
     (if size_of_val v dvd unat p
      then obind (vwrite_slice P p (le_bytes (size_of_val v) (unat v)) (vmem s)) (\<lambda>m. Ret (s\<lparr>vmem := m\<rparr>))
      else UB)"

definition ptr_read :: "('pt, 'fa) paging \<Rightarrow> VirtAddr \<Rightarrow> ('pt, 'z) kernel_scheme \<Rightarrow> 'a::len word outcome" where
  "ptr_read P p s =
     (if LENGTH('a) div 8 dvd unat p
      then obind (vread_slice P (vmem s) p (LENGTH('a) div 8)) (\<lambda>bs. Ret (word_of_nat (of_le_bytes bs)))
      else UB)"

definition copy_nonoverlapping :: "('pt, 'fa) paging \<Rightarrow> VirtAddr \<Rightarrow> VirtAddr \<Rightarrow> nat \<Rightarrow> ('pt, 'z) kernel_scheme
    \<Rightarrow> ('pt, 'z) kernel_scheme outcome" where
  "copy_nonoverlapping P src dst n s =
     obind (vread_slice P (vmem s) src n) (\<lambda>bs.
     obind (vwrite_slice P dst bs (vmem s)) (\<lambda>m. Ret (s\<lparr>vmem := m\<rparr>)))"

section \<open>The global allocator\<close>

definition global_alloc :: "bool \<Rightarrow> Layout \<Rightarrow> ('pt, 'u, 'z) heap_kernel_scheme \<Rightarrow> (usize \<times> ('pt, 'u, 'z) heap_kernel_scheme) outcome" where
  "global_alloc oc l s = obind (bump_alloc oc l (ALLOCATOR s)) (\<lambda>(p, b). Ret (p, s\<lparr>ALLOCATOR := b\<rparr>))"

definition global_dealloc :: "bool \<Rightarrow> usize \<Rightarrow> Layout \<Rightarrow> ('pt, 'u, 'z) heap_kernel_scheme \<Rightarrow> ('pt, 'u, 'z) heap_kernel_scheme outcome" where
  "global_dealloc oc p l s = obind (bump_dealloc oc p l (ALLOCATOR s)) (\<lambda>b. Ret (s\<lparr>ALLOCATOR := b\<rparr>))"

text \<open>The default method of the trait, which \<^verbatim>\<open>BumpAllocator\<close> does not override.\<close>

definition global_realloc :: "bool \<Rightarrow> ('pt, 'fa) paging \<Rightarrow> usize \<Rightarrow> Layout \<Rightarrow> usize \<Rightarrow> ('pt, 'u, 'z) heap_kernel_scheme
    \<Rightarrow> (usize \<times> ('pt, 'u, 'z) heap_kernel_scheme) outcome" where
  "global_realloc oc P p l new_size s =
     obind (global_alloc oc (l\<lparr>layout_size := new_size\<rparr>) s) (\<lambda>(new_ptr, s).
     if new_ptr = 0 then Ret (new_ptr, s)
     else obind (copy_nonoverlapping P p new_ptr (unat (min (layout_size l) new_size)) s) (\<lambda>s.
          obind (global_dealloc oc p l s) (\<lambda>s. Ret (new_ptr, s))))"

definition alloc_error_handler :: "Layout \<Rightarrow> 'r outcome" where
  "alloc_error_handler l = Panic"

definition allocated :: "Layout \<Rightarrow> usize \<times> 's \<Rightarrow> (usize \<times> 's) outcome" where
  "allocated l r = (if fst r = 0 then alloc_error_handler l else Ret r)"

section \<open>Box\<close>

definition layout_of :: "nat \<Rightarrow> Layout" where
  "layout_of n = \<lparr>layout_size = word_of_nat n, layout_align = word_of_nat n\<rparr>"

definition Box_new :: "bool \<Rightarrow> ('pt, 'fa) paging \<Rightarrow> 'a::len word \<Rightarrow> ('pt, 'u, 'z) heap_kernel_scheme
    \<Rightarrow> (usize \<times> ('pt, 'u, 'z) heap_kernel_scheme) outcome" where
  "Box_new oc P v s =
     (let l = layout_of (size_of_val v) in
      obind (global_alloc oc l s) (\<lambda>r.
      obind (allocated l r) (\<lambda>(p, s).
      obind (ptr_write P p v s) (\<lambda>s. Ret (p, s)))))"

definition Box_drop :: "bool \<Rightarrow> nat \<Rightarrow> usize \<Rightarrow> ('pt, 'u, 'z) heap_kernel_scheme \<Rightarrow> ('pt, 'u, 'z) heap_kernel_scheme outcome" where
  "Box_drop oc n p s = global_dealloc oc p (layout_of n) s"

section \<open>Vec\<close>

text \<open>
  A vector of 64-bit integers. An empty one has no block. A full one doubles its capacity, the first
  block having room for four; a capacity of more than \<^verbatim>\<open>isize::MAX\<close> bytes panics.
\<close>

record Vec =
  vec_ptr :: usize
  vec_cap :: nat
  vec_len :: nat

definition Vec_new :: Vec where
  "Vec_new = \<lparr>vec_ptr = 8, vec_cap = 0, vec_len = 0\<rparr>"

definition array_layout :: "nat \<Rightarrow> Layout" where
  "array_layout n = \<lparr>layout_size = word_of_nat (8 * n), layout_align = 8\<rparr>"

definition Vec_grow :: "bool \<Rightarrow> ('pt, 'fa) paging \<Rightarrow> Vec \<times> ('pt, 'u, 'z) heap_kernel_scheme
    \<Rightarrow> (Vec \<times> ('pt, 'u, 'z) heap_kernel_scheme) outcome" where
  "Vec_grow oc P vs =
     (let (v, s) = vs; new_cap = max 4 (max (2 * vec_cap v) (vec_len v + 1)) in
      if 2 ^ 63 \<le> 8 * new_cap then Panic
      else obind (if vec_cap v = 0 then global_alloc oc (array_layout new_cap) s
                  else global_realloc oc P (vec_ptr v) (array_layout (vec_cap v)) (word_of_nat (8 * new_cap)) s) (\<lambda>r.
           obind (allocated (array_layout new_cap) r) (\<lambda>(p, s).
           Ret (v\<lparr>vec_ptr := p, vec_cap := new_cap\<rparr>, s))))"

definition Vec_push :: "bool \<Rightarrow> ('pt, 'fa) paging \<Rightarrow> u64 \<Rightarrow> Vec \<times> ('pt, 'u, 'z) heap_kernel_scheme
    \<Rightarrow> (Vec \<times> ('pt, 'u, 'z) heap_kernel_scheme) outcome" where
  "Vec_push oc P x vs =
     obind (if vec_len (fst vs) = vec_cap (fst vs) then Vec_grow oc P vs else Ret vs) (\<lambda>(v, s).
     obind (ptr_write P (vec_ptr v + word_of_nat (8 * vec_len v)) x s) (\<lambda>s.
     Ret (v\<lparr>vec_len := vec_len v + 1\<rparr>, s)))"

text \<open>\<^verbatim>\<open>vec.iter().sum::<u64>()\<close>.\<close>

definition Vec_sum :: "bool \<Rightarrow> ('pt, 'fa) paging \<Rightarrow> Vec \<Rightarrow> ('pt, 'z) kernel_scheme \<Rightarrow> u64 outcome" where
  "Vec_sum oc P v s =
     for_each (\<lambda>i acc. obind (ptr_read P (vec_ptr v + word_of_nat (8 * i)) s) (\<lambda>x. add_chk oc acc x)) [0..<vec_len v] 0"

definition Vec_drop :: "bool \<Rightarrow> Vec \<Rightarrow> ('pt, 'u, 'z) heap_kernel_scheme \<Rightarrow> ('pt, 'u, 'z) heap_kernel_scheme outcome" where
  "Vec_drop oc v s = (if vec_cap v = 0 then Ret s else global_dealloc oc (vec_ptr v) (array_layout (vec_cap v)) s)"

section \<open>The tests\<close>

text \<open>Values are dropped at the end of the function, the last one first.\<close>

definition simple_allocation :: "bool \<Rightarrow> ('pt, 'fa) paging \<Rightarrow> ('pt, 'u, 'z) heap_kernel_scheme
    \<Rightarrow> ('pt, 'u, 'z) heap_kernel_scheme outcome" where
  "simple_allocation oc P s =
     obind (Box_new oc P (41 :: 32 word) s) (\<lambda>(heap_value_1, s).
     obind (Box_new oc P (13 :: 32 word) s) (\<lambda>(heap_value_2, s).
     obind (ptr_read P heap_value_1 s) (\<lambda>v.
     obind (assert_eq v (41 :: 32 word) s) (\<lambda>s.
     obind (ptr_read P heap_value_2 s) (\<lambda>v.
     obind (assert_eq v (13 :: 32 word) s) (\<lambda>s.
     obind (Box_drop oc 4 heap_value_2 s) (\<lambda>s.
     Box_drop oc 4 heap_value_1 s)))))))"

definition large_vec :: "bool \<Rightarrow> ('pt, 'fa) paging \<Rightarrow> ('pt, 'u, 'z) heap_kernel_scheme
    \<Rightarrow> ('pt, 'u, 'z) heap_kernel_scheme outcome" where
  "large_vec oc P s =
     (let n = 1000 :: u64 in
      obind (for_each (\<lambda>i. Vec_push oc P (word_of_nat i)) [0..<unat n] (Vec_new, s)) (\<lambda>(v, s).
      obind (Vec_sum oc P v s) (\<lambda>sum.
      obind (assert_eq sum ((n - 1) * n div 2) s) (\<lambda>s.
      Vec_drop oc v s))))"

definition many_boxes :: "bool \<Rightarrow> ('pt, 'fa) paging \<Rightarrow> ('pt, 'u, 'z) heap_kernel_scheme
    \<Rightarrow> ('pt, 'u, 'z) heap_kernel_scheme outcome" where
  "many_boxes oc P =
     for_each (\<lambda>i s.
       obind (Box_new oc P (word_of_nat i :: usize) s) (\<lambda>(x, s).
       obind (ptr_read P x s) (\<lambda>v.
       obind (assert_eq v (word_of_nat i :: usize) s) (\<lambda>s.
       Box_drop oc 8 x s)))) [0..<unat HEAP_SIZE]"

definition heap_tests :: "bool \<Rightarrow> ('pt, 'fa) paging \<Rightarrow> ('pt, 'u, 'z heap_kernel_ext) serial_scheme test list" where
  "heap_tests oc P = [
     (''heap_allocation::simple_allocation'', simple_allocation oc P),
     (''heap_allocation::large_vec'', large_vec oc P),
     (''heap_allocation::many_boxes'', many_boxes oc P)]"

definition heap_main :: "bool \<Rightarrow> ('pt, ('u, 'z heap_kernel_ext) serial_ext, 'g, 't) boot_platform
    \<Rightarrow> ('pt, 'u, 'z) heap_kernel_scheme irq_api \<Rightarrow> ('u, ('pt, 'u, 'z) heap_kernel_scheme) uart_api
    \<Rightarrow> ('pt, 'u, 'z heap_kernel_ext) serial_scheme test list \<Rightarrow> BootInfo
    \<Rightarrow> ('pt, ('u, 'z heap_kernel_ext) serial_ext, 'g, 't) boot_cpu \<Rightarrow> 'r outcome" where
  "heap_main oc M X U tests boot_info c =
     obind (init M c) (\<lambda>c.
     obind (setup_memory oc M boot_info (ALLOCATOR (ksys c)) c) (\<lambda>(fa, b, c).
     obind (test_runner X U tests ((ksys c)\<lparr>ALLOCATOR := b\<rparr>))
       (hlt_loop X)))"

section \<open>The heap as bytes\<close>

text \<open>The address of a byte of the heap, and the pages of the heap.\<close>

abbreviation hp :: "nat \<Rightarrow> VirtAddr" where
  "hp j \<equiv> HEAP_START + word_of_nat j"

abbreviation heap_pages :: "Page set" where
  "heap_pages \<equiv> set (pages_from HEAP_START 25)"

lemma unat_hp: "j < 2 ^ 32 \<Longrightarrow> unat (hp j) = 0x444444440000 + j"
proof -
  assume "j < 2 ^ 32"
  then have "unat (word_of_nat j :: u64) = j" "j < 4294967296" by (simp_all add: unat_word_of_nat64)
  then show ?thesis using unat_add_fits [of HEAP_START "word_of_nat j"] by (simp add: HEAP_START_def)
qed

lemma hp_add: "hp j + word_of_nat n = hp (j + n)"
  by (simp add: add.assoc)

lemma hp_page: "j < 102400 \<Longrightarrow> align_down_4k (hp j) \<in> heap_pages"
  using unat_hp [of j] by (simp add: heap_pages_cover in_heap_unat)

lemma hp_diff: "j \<le> i \<Longrightarrow> i < 2 ^ 32 \<Longrightarrow> unat (hp i - hp j) = i - j"
  using unat_hp [of i] unat_hp [of j] unat_sub_fits [of "hp j" "hp i"] by simp

lemma hp_range:
  assumes "j + n \<le> 102400" and "unat (x - hp j) < n"
  obtains i where "j \<le> i" and "i < j + n" and "x = hp i"
proof -
  have "x = hp (j + unat (x - hp j))" by (simp add: add.assoc [symmetric])
  then show thesis using assms(2) by (intro that [of "j + unat (x - hp j)"]) simp_all
qed

lemma hp_before:
  assumes "i < j" and "j < 2 ^ 32" and "n < 2 ^ 63" shows "\<not> unat (hp i - hp j) < n"
proof
  assume l: "unat (hp i - hp j) < n"
  have u: "unat (hp i) = 0x444444440000 + i" "unat (hp j) = 0x444444440000 + j"
    using assms(1,2) by (intro unat_hp; linarith)+
  then have "unat (hp j) + unat (hp i - hp j) < 2 ^ 64" using l assms(2,3) by simp
  then have "unat (hp j + (hp i - hp j)) = unat (hp j) + unat (hp i - hp j)" using unat_add_fits [of "hp j" "hp i - hp j"] by simp
  moreover have "hp j + (hp i - hp j) = hp i" by (metis add.commute diff_add_cancel)
  ultimately have "unat (hp i) = unat (hp j) + unat (hp i - hp j)" by metis
  then show False using u assms(1) by linarith
qed

text \<open>The bytes at the offsets of the heap; \<open>F\<close> is the frame of each page.\<close>

definition heap_byte :: "(Page \<Rightarrow> PhysFrame) \<Rightarrow> 'pt vm \<Rightarrow> nat \<Rightarrow> u8" where
  "heap_byte F m j = phys m (pa F (hp j))"

lemma heap_write:
  assumes "writable_view P (page_tbl m) heap_pages F" and "j + length bs \<le> 102400"
  shows "\<exists>ph. vwrite_slice P (hp j) bs m = Ret (m\<lparr>phys := ph\<rparr>) \<and>
    (\<forall>i < 102400. heap_byte F (m\<lparr>phys := ph\<rparr>) i = (if j \<le> i \<and> i < j + length bs then bs ! (i - j) else heap_byte F m i))"
proof -
  have "\<forall>x. unat (x - hp j) < length bs \<longrightarrow> align_down_4k x \<in> heap_pages"
    using hp_range [OF assms(2)] hp_page assms(2) by (metis less_le_trans)
  then obtain ph where ph: "vwrite_slice P (hp j) bs m = Ret (m\<lparr>phys := ph\<rparr>)"
    "\<forall>x. align_down_4k x \<in> heap_pages \<longrightarrow>
       ph (pa F x) = (if unat (x - hp j) < length bs then bs ! unat (x - hp j) else phys m (pa F x))"
    using vwrite_slice_view [OF assms(1), of bs "hp j"] assms(2) by auto
  have "ph (pa F (hp i)) = (if j \<le> i \<and> i < j + length bs then bs ! (i - j) else phys m (pa F (hp i)))" if "i < 102400" for i
  proof (cases "j \<le> i")
    case True
    then show ?thesis using ph(2) hp_page [OF that] hp_diff [of j i] that by auto
  next
    case False
    then show ?thesis using ph(2) hp_page [OF that] hp_before [of i j "length bs"] assms(2) by auto
  qed
  then show ?thesis using ph(1) by (auto simp: heap_byte_def)
qed

lemma heap_read:
  assumes "writable_view P (page_tbl m) heap_pages F" and "j + n \<le> 102400"
  shows "vread_slice P m (hp j) n = Ret (map (heap_byte F m) [j..<j + n])"
  using assms(2)
proof (induction n arbitrary: j)
  case (Suc n)
  have "align_down_4k (hp j) \<in> heap_pages" using Suc.prems by (intro hp_page) simp
  then have "vread P m (hp j) = Ret (heap_byte F m j)"
    using assms(1) by (auto simp: writable_view_def vread_def heap_byte_def pa_def)
  moreover have "vread_slice P m (hp (Suc j)) n = Ret (map (heap_byte F m) [Suc j..<Suc j + n])"
    using Suc.IH [of "Suc j"] Suc.prems by simp
  moreover have "hp j + 1 = hp (Suc j)" "[j..<j + Suc n] = j # [Suc j..<Suc j + n]"
    by (simp add: add.assoc add.commute [of 1], simp add: upt_rec)
  ultimately show ?case by (simp only: vread_slice.simps obind.simps list.map)
qed simp

text \<open>Integers as bytes.\<close>

lemma length_le_bytes [simp]: "length (le_bytes n v) = n"
  by (induction n arbitrary: v) simp_all

lemma of_le_bytes_le_bytes: "of_le_bytes (le_bytes n v) = v mod 256 ^ n"
proof (induction n arbitrary: v)
  case (Suc n)
  have "unat (word_of_nat v :: u8) = v mod 256" by (simp add: unsigned_of_nat take_bit_eq_mod)
  then show ?case using Suc by (simp add: mod_mult2_eq)
qed simp

lemma word_of_le_bytes:
  assumes "8 dvd LENGTH('a)"
  shows "word_of_nat (of_le_bytes (le_bytes (LENGTH('a) div 8) (unat v))) = (v :: 'a::len word)"
proof -
  have "(256 :: nat) ^ (LENGTH('a) div 8) = 2 ^ (8 * (LENGTH('a) div 8))" by (simp add: power_mult)
  also have "\<dots> = 2 ^ LENGTH('a)" using assms by simp
  finally have "unat v mod 256 ^ (LENGTH('a) div 8) = unat v" by (simp add: unsigned_less)
  then show ?thesis by (simp add: of_le_bytes_le_bytes)
qed

section \<open>Typed accesses\<close>

text \<open>The integer \<open>v\<close> is stored at an offset of the heap.\<close>

definition holds :: "(Page \<Rightarrow> PhysFrame) \<Rightarrow> 'pt vm \<Rightarrow> nat \<Rightarrow> 'a::len word \<Rightarrow> bool" where
  "holds F m j v \<longleftrightarrow> map (heap_byte F m) [j..<j + size_of_val v] = le_bytes (size_of_val v) (unat v)"

lemma holds_frame:
  assumes "holds F m j v" and "\<forall>i. j \<le> i \<and> i < j + size_of_val v \<longrightarrow> heap_byte F m' i = heap_byte F m i"
  shows "holds F m' j v"
proof -
  have "map (heap_byte F m') [j..<j + size_of_val v] = map (heap_byte F m) [j..<j + size_of_val v]"
    using assms(2) by (intro map_cong) simp_all
  then show ?thesis using assms(1) by (simp only: holds_def)
qed

lemma hp_dvd: "n dvd 8 \<Longrightarrow> n dvd j \<Longrightarrow> j < 2 ^ 32 \<Longrightarrow> n dvd unat (hp j)"
proof -
  assume n: "n dvd 8" "n dvd j" and j: "j < 2 ^ 32"
  have "(8 :: nat) dvd 0x444444440000" by (rule dvdI [of _ _ "0x88888888000"]) simp
  then show "n dvd unat (hp j)" unfolding unat_hp [OF j] using n by (blast intro: dvd_add dvd_trans)
qed

lemma ptr_write_heap:
  fixes v :: "'a::len word"
  assumes "writable_view P (page_tbl (vmem s)) heap_pages F" and "size_of_val v dvd 8" and "size_of_val v dvd j"
    and "j + size_of_val v \<le> 102400"
  shows "\<exists>m. ptr_write P (hp j) v s = Ret (s\<lparr>vmem := m\<rparr>) \<and> page_tbl m = page_tbl (vmem s) \<and> holds F m j v \<and>
    (\<forall>i < 102400. \<not> (j \<le> i \<and> i < j + size_of_val v) \<longrightarrow> heap_byte F m i = heap_byte F (vmem s) i)"
proof -
  let ?n = "size_of_val v" let ?bs = "le_bytes ?n (unat v)"
  have l: "j + length ?bs \<le> 102400" using assms(4) by simp
  obtain ph where ph: "vwrite_slice P (hp j) ?bs (vmem s) = Ret ((vmem s)\<lparr>phys := ph\<rparr>)"
    "\<forall>i < 102400. heap_byte F ((vmem s)\<lparr>phys := ph\<rparr>) i = (if j \<le> i \<and> i < j + length ?bs then ?bs ! (i - j) else heap_byte F (vmem s) i)"
    using heap_write [OF assms(1) l] by blast
  have "?n dvd unat (hp j)" using assms by (intro hp_dvd) simp_all
  moreover have "holds F ((vmem s)\<lparr>phys := ph\<rparr>) j v"
    unfolding holds_def using ph(2) assms(4) by (intro nth_equalityI) auto
  ultimately show ?thesis using ph by (intro exI [of _ "(vmem s)\<lparr>phys := ph\<rparr>"]) (simp add: ptr_write_def)
qed

lemma ptr_read_heap:
  fixes v :: "'a::len word"
  assumes "writable_view P (page_tbl (vmem s)) heap_pages F" and "8 dvd LENGTH('a)" and "size_of_val v dvd 8" and "size_of_val v dvd j"
    and "j + size_of_val v \<le> 102400" and "holds F (vmem s) j v"
  shows "ptr_read P (hp j) s = Ret v"
proof -
  have "size_of_val v dvd unat (hp j)" using assms by (intro hp_dvd) simp_all
  moreover have "vread_slice P (vmem s) (hp j) (size_of_val v) = Ret (le_bytes (size_of_val v) (unat v))"
    using heap_read [OF assms(1,5)] assms(6) by (simp add: holds_def)
  ultimately show ?thesis using word_of_le_bytes [OF assms(2), of v] by (simp add: ptr_read_def size_of_val_def)
qed

section \<open>The allocator on the mapped heap\<close>

definition heap_at :: "('pt, 'fa) paging \<Rightarrow> (Page \<Rightarrow> PhysFrame) \<Rightarrow> nat \<Rightarrow> ('pt, 'u, 'z) heap_kernel_scheme \<Rightarrow> bool" where
  "heap_at P F j s \<longleftrightarrow> writable_view P (page_tbl (vmem s)) heap_pages F \<and> ALLOCATOR s = kernel_heap\<lparr>next_ptr := hp j\<rparr>"

lemma layout_of_ok: "n dvd 8 \<Longrightarrow> layout_ok (layout_of n) \<and> rounded (layout_of n) = word_of_nat n"
proof -
  assume "n dvd 8"
  then have "n \<in> {1, 2, 4, 8}"
  proof -
    have "n \<le> 8" using \<open>n dvd 8\<close> by (rule dvd_imp_le) simp
    then have "n \<in> {0, 1, 2, 3, 4, 5, 6, 7, 8}" by auto
    then show ?thesis using \<open>n dvd 8\<close> by auto
  qed
  then show ?thesis
    by (elim insertE emptyE; simp add: layout_of_def rounded_def round_up_def)
       (rule pow2_layout [of 0] pow2_layout [of 1] pow2_layout [of 2] pow2_layout [of 3]; simp add: round_up_def)+
qed

lemma array_layout_ok:
  assumes "8 * n < 2 ^ 62" shows "layout_ok (array_layout n) \<and> rounded (array_layout n) = word_of_nat (8 * n)"
proof -
  have u: "unat (word_of_nat (8 * n) :: u64) = 8 * n" using assms by (intro unat_word_of_nat64) simp
  have r: "round_up (8 * n) 8 = 8 * n" by (simp add: round_up_def)
  have "layout_ok (array_layout n)"
    unfolding array_layout_def using assms r u by (intro pow2_layout [of 3]) simp_all
  moreover have "rounded (array_layout n) = word_of_nat (8 * n)"
    by (simp only: rounded_def array_layout_def Layout.select_convs u) (simp add: r)
  ultimately show ?thesis by simp
qed

lemma alloc_at:
  assumes "heap_at P F j s" and "j \<le> 102400" and "layout_ok l \<and> rounded l = word_of_nat r"
  shows "global_alloc oc l s = Ret (hp j, s\<lparr>ALLOCATOR := kernel_heap\<lparr>next_ptr := hp (j + r)\<rparr>\<rparr>)"
    and "hp j \<noteq> 0"
proof -
  have u: "unat (hp j) = 0x444444440000 + j" using assms(2) by (intro unat_hp) simp
  then have "\<not> HEAP_START + HEAP_SIZE < hp j" using assms(2) by (simp add: word_less_nat_alt HEAP_START_def HEAP_SIZE_def)
  then show "global_alloc oc l s = Ret (hp j, s\<lparr>ALLOCATOR := kernel_heap\<lparr>next_ptr := hp (j + r)\<rparr>\<rparr>)"
    using assms(1,3) by (simp add: global_alloc_def bump_alloc_layout heap_at_def kernel_heap_def add.assoc)
  show "hp j \<noteq> 0"
  proof
    assume "hp j = 0"
    then have "unat (hp j) = 0" by (simp only: unsigned_0)
    then show False using u by simp
  qed
qed

lemma dealloc_at:
  assumes "heap_at P F j s" and "i + r < 2 ^ 32" and "j < 2 ^ 32" and "layout_ok l \<and> rounded l = word_of_nat r"
  shows "global_dealloc oc (hp i) l s =
    Ret (if i + r = j then s\<lparr>ALLOCATOR := kernel_heap\<lparr>next_ptr := hp i\<rparr>\<rparr> else s)"
proof -
  have u: "unat (hp i) = 0x444444440000 + i" "unat (word_of_nat r :: u64) = r" "unat (hp (i + r)) = 0x444444440000 + (i + r)"
    "unat (hp j) = 0x444444440000 + j"
    using assms(2,3) by (intro unat_hp unat_word_of_nat64; simp)+
  have "hp (i + r) = hp j \<longleftrightarrow> i + r = j" using u(3,4) by (metis add_left_cancel)
  then have "hp i + rounded l = next_ptr (ALLOCATOR s) \<longleftrightarrow> i + r = j"
    using assms(1,4) by (simp add: heap_at_def add.assoc)
  moreover have "unat (hp i) + unat (rounded l) < 2 ^ 64" using u(1,2) assms(2,4) by simp
  ultimately show ?thesis
    using assms(1,4) by (simp add: global_dealloc_def bump_dealloc_layout heap_at_def)
qed

section \<open>Boxes\<close>

lemma Box_new_at:
  fixes v :: "'a::len word"
  assumes "heap_at P F j s" and "size_of_val v dvd 8" and "size_of_val v dvd j" and "j + size_of_val v \<le> 102400"
  shows "\<exists>m. Box_new oc P v s = Ret (hp j, s\<lparr>vmem := m, ALLOCATOR := kernel_heap\<lparr>next_ptr := hp (j + size_of_val v)\<rparr>\<rparr>) \<and>
    page_tbl m = page_tbl (vmem s) \<and> holds F m j v \<and>
    (\<forall>i < 102400. \<not> (j \<le> i \<and> i < j + size_of_val v) \<longrightarrow> heap_byte F m i = heap_byte F (vmem s) i)"
proof -
  have j: "j \<le> 102400" using assms(4) by simp
  note a = alloc_at [OF assms(1) j layout_of_ok [OF assms(2)]]
  let ?s = "s\<lparr>ALLOCATOR := kernel_heap\<lparr>next_ptr := hp (j + size_of_val v)\<rparr>\<rparr>"
  have "writable_view P (page_tbl (vmem ?s)) heap_pages F" using assms(1) by (simp add: heap_at_def)
  from ptr_write_heap [OF this assms(2-4)]
  obtain m where m: "ptr_write P (hp j) v ?s = Ret (?s\<lparr>vmem := m\<rparr>)" "page_tbl m = page_tbl (vmem s)" "holds F m j v"
    "\<forall>i < 102400. \<not> (j \<le> i \<and> i < j + size_of_val v) \<longrightarrow> heap_byte F m i = heap_byte F (vmem s) i" by auto
  have "Box_new oc P v s = Ret (hp j, ?s\<lparr>vmem := m\<rparr>)"
    unfolding Box_new_def Let_def a(1) obind.simps allocated_def fst_conv using a(2) m(1) by simp
  then show ?thesis using m(2-4) by (intro exI [of _ m]) simp
qed

lemma Box_drop_at:
  assumes "heap_at P F (j + n) s" and "n dvd 8" and "j + n \<le> 102400"
  shows "Box_drop oc n (hp j) s = Ret (s\<lparr>ALLOCATOR := kernel_heap\<lparr>next_ptr := hp j\<rparr>\<rparr>)"
  using dealloc_at [OF assms(1) _ _ layout_of_ok [OF assms(2)], of j oc] assms(3) by (simp add: Box_drop_def)

lemma heap_at_upd:
  "heap_at P F i s \<Longrightarrow> page_tbl m = page_tbl (vmem s) \<Longrightarrow>
     heap_at P F j (s\<lparr>vmem := m, ALLOCATOR := kernel_heap\<lparr>next_ptr := hp j\<rparr>\<rparr>)"
  by (simp add: heap_at_def)

text \<open>A test keeps the heap where it was, but for what is left behind, and does not touch the port.\<close>

definition same_port :: "('pt, 'u, 'z) heap_kernel_scheme \<Rightarrow> ('pt, 'u, 'z) heap_kernel_scheme \<Rightarrow> bool" where
  "same_port s s' \<longleftrightarrow> SERIAL1 s' = SERIAL1 s \<and> serial_locked s' = serial_locked s"

lemma many_boxes_passes:
  assumes "heap_at P F j s" and "8 dvd j" and "j + 8 \<le> 102400"
  shows "\<exists>s'. many_boxes oc P s = Ret s' \<and> heap_at P F j s' \<and> same_port s s'"
  unfolding many_boxes_def
proof (rule for_each_upt [where I = "\<lambda>_ t. heap_at P F j t \<and> same_port s t"], elim conjE)
  show "heap_at P F j s \<and> same_port s s" using assms(1) by (simp add: same_port_def)
  fix i t assume t: "heap_at P F j t" "same_port s t"
  define v where "v = (word_of_nat i :: usize)"
  have n: "size_of_val v = 8" by (simp add: size_of_val_def)
  obtain m where m: "Box_new oc P v t = Ret (hp j, t\<lparr>vmem := m, ALLOCATOR := kernel_heap\<lparr>next_ptr := hp (j + 8)\<rparr>\<rparr>)"
    "page_tbl m = page_tbl (vmem t)" "holds F m j v"
    using Box_new_at [OF t(1), of v oc] assms(2,3) unfolding n by auto
  let ?t = "t\<lparr>vmem := m, ALLOCATOR := kernel_heap\<lparr>next_ptr := hp (j + 8)\<rparr>\<rparr>"
  have at: "heap_at P F (j + 8) ?t" by (rule heap_at_upd [OF t(1) m(2)])
  have "ptr_read P (hp j) ?t = Ret v"
    using at m(3) assms(2,3) n by (intro ptr_read_heap [where F = F]) (simp_all add: heap_at_def)
  moreover have "Box_drop oc 8 (hp j) ?t = Ret (?t\<lparr>ALLOCATOR := kernel_heap\<lparr>next_ptr := hp j\<rparr>\<rparr>)"
    using Box_drop_at [OF at _ assms(3)] by simp
  ultimately have "obind (Box_new oc P v t) (\<lambda>(x, s). obind (ptr_read P x s) (\<lambda>v'. obind (assert_eq v' v s) (Box_drop oc 8 x)))
      = Ret (t\<lparr>vmem := m, ALLOCATOR := kernel_heap\<lparr>next_ptr := hp j\<rparr>\<rparr>)"
    unfolding m(1) obind.simps prod.case by (simp add: assert_eq_def)
  moreover have "heap_at P F j (t\<lparr>vmem := m, ALLOCATOR := kernel_heap\<lparr>next_ptr := hp j\<rparr>\<rparr>)"
    by (rule heap_at_upd [OF t(1) m(2)])
  ultimately show "\<exists>t'. obind (Box_new oc P (word_of_nat i :: usize) t) (\<lambda>(x, s). obind (ptr_read P x s) (\<lambda>v.
      obind (assert_eq v (word_of_nat i :: usize) s) (\<lambda>s. Box_drop oc 8 x s))) = Ret t' \<and> heap_at P F j t' \<and> same_port s t'"
    using t(2) unfolding v_def by (auto simp: same_port_def)
qed

lemma simple_allocation_passes:
  assumes "heap_at P F j s" and "4 dvd j" and "j + 8 \<le> 102400"
  shows "\<exists>s'. simple_allocation oc P s = Ret s' \<and> heap_at P F j s' \<and> same_port s s'"
proof -
  have n: "size_of_val (v :: 32 word) = 4" for v by (simp add: size_of_val_def)
  obtain m1 where m1: "Box_new oc P (41 :: 32 word) s = Ret (hp j, s\<lparr>vmem := m1, ALLOCATOR := kernel_heap\<lparr>next_ptr := hp (j + 4)\<rparr>\<rparr>)"
    "page_tbl m1 = page_tbl (vmem s)" "holds F m1 j (41 :: 32 word)"
    using Box_new_at [OF assms(1), of "41 :: 32 word" oc] assms(2,3) unfolding n by auto
  let ?s1 = "s\<lparr>vmem := m1, ALLOCATOR := kernel_heap\<lparr>next_ptr := hp (j + 4)\<rparr>\<rparr>"
  have a1: "heap_at P F (j + 4) ?s1" by (rule heap_at_upd [OF assms(1) m1(2)])
  obtain m2 where m2: "Box_new oc P (13 :: 32 word) ?s1 = Ret (hp (j + 4), ?s1\<lparr>vmem := m2, ALLOCATOR := kernel_heap\<lparr>next_ptr := hp (j + 4 + 4)\<rparr>\<rparr>)"
    "page_tbl m2 = page_tbl m1" "holds F m2 (j + 4) (13 :: 32 word)"
    "\<forall>i < 102400. \<not> (j + 4 \<le> i \<and> i < j + 4 + 4) \<longrightarrow> heap_byte F m2 i = heap_byte F m1 i"
    using Box_new_at [OF a1, of "13 :: 32 word" oc] assms(2,3) unfolding n by auto
  let ?s2 = "?s1\<lparr>vmem := m2, ALLOCATOR := kernel_heap\<lparr>next_ptr := hp (j + 4 + 4)\<rparr>\<rparr>"
  have a2: "heap_at P F (j + 4 + 4) ?s2" by (rule heap_at_upd [OF a1]) (simp add: m2(2))
  have "holds F m2 j (41 :: 32 word)"
    using m2(4) assms(3) by (intro holds_frame [OF m1(3)]) (simp add: n)
  then have r1: "ptr_read P (hp j) ?s2 = Ret (41 :: 32 word)"
    using a2 assms(2,3) by (intro ptr_read_heap [where F = F]) (simp_all add: heap_at_def n)
  have r2: "ptr_read P (hp (j + 4)) ?s2 = Ret (13 :: 32 word)"
    using a2 m2(3) assms(2,3) by (intro ptr_read_heap [where F = F]) (simp_all add: heap_at_def n)
  let ?s3 = "?s2\<lparr>ALLOCATOR := kernel_heap\<lparr>next_ptr := hp (j + 4)\<rparr>\<rparr>"
  have d2: "Box_drop oc 4 (hp (j + 4)) ?s2 = Ret ?s3"
    using Box_drop_at [OF a2] assms(3) by simp
  have a3: "heap_at P F (j + 4) ?s3" using a2 by (simp add: heap_at_def)
  have d1: "Box_drop oc 4 (hp j) ?s3 = Ret (?s3\<lparr>ALLOCATOR := kernel_heap\<lparr>next_ptr := hp j\<rparr>\<rparr>)"
    using Box_drop_at [OF a3] assms(3) by simp
  have "simple_allocation oc P s = Ret (?s3\<lparr>ALLOCATOR := kernel_heap\<lparr>next_ptr := hp j\<rparr>\<rparr>)"
    unfolding simple_allocation_def m1(1) obind.simps prod.case m2(1) r1 assert_eq_def
    by (simp only: if_True obind.simps simp_thms r2 d2 d1)
  moreover have "heap_at P F j (?s3\<lparr>ALLOCATOR := kernel_heap\<lparr>next_ptr := hp j\<rparr>\<rparr>)" using a3 by (simp add: heap_at_def)
  ultimately show ?thesis by (auto simp: same_port_def)
qed

section \<open>The vector\<close>

text \<open>
  The vector that began at offset \<open>j\<close> has the elements \<open>xs\<close>: blocks of 4, 8, .. elements were used one
  after the other, and the vector is in the last one.
\<close>

definition vec_at :: "('pt, 'fa) paging \<Rightarrow> (Page \<Rightarrow> PhysFrame) \<Rightarrow> nat \<Rightarrow> u64 list
    \<Rightarrow> Vec \<times> ('pt, 'u, 'z) heap_kernel_scheme \<Rightarrow> bool" where
  "vec_at P F j xs vs \<longleftrightarrow> (case vs of (v, s) \<Rightarrow>
     vec_len v = length xs \<and> length xs \<le> vec_cap v \<and> (vec_cap v \<le> 4 \<or> vec_cap v \<le> 2 * length xs) \<and>
     (vec_cap v = 0 \<or> 4 \<le> vec_cap v \<and> vec_ptr v = hp (j + 8 * (vec_cap v - 4))) \<and>
     heap_at P F (j + 8 * (2 * vec_cap v - 4)) s \<and>
     (\<forall>i < length xs. holds F (vmem s) (j + 8 * (vec_cap v - 4) + 8 * i) (xs ! i)))"

lemma size_of_u64_val [simp]: "size_of_val (v :: u64) = 8"
  by (simp add: size_of_val_def)

lemma vec_write:
  assumes "vec_at P F j xs (v, s)" and "length xs < vec_cap v" and "8 dvd j" and "j + 8 * (2 * vec_cap v - 4) \<le> 102400"
  shows "\<exists>s'. ptr_write P (vec_ptr v + word_of_nat (8 * vec_len v)) x s = Ret s' \<and>
    vec_at P F j (xs @ [x]) (v\<lparr>vec_len := vec_len v + 1\<rparr>, s') \<and> same_port s s'"
proof -
  let ?c = "vec_cap v"
  let ?b = "j + 8 * (?c - 4)"
  have v: "vec_len v = length xs" "4 \<le> ?c" "vec_ptr v = hp ?b" "heap_at P F (j + 8 * (2 * ?c - 4)) s" "?c \<le> 4 \<or> ?c \<le> 2 * length xs"
    and h: "\<forall>i < length xs. holds F (vmem s) (?b + 8 * i) (xs ! i)"
    using assms(1,2) by (auto simp: vec_at_def)
  have room: "?b + 8 * ?c \<le> 102400" using assms(4) v(2) by linarith
  have p: "vec_ptr v + word_of_nat (8 * vec_len v) = hp (?b + 8 * length xs)" unfolding v(1,3) by (rule hp_add)
  have "8 dvd ?b + 8 * length xs" using assms(3) by simp
  then obtain m where m: "ptr_write P (hp (?b + 8 * length xs)) x s = Ret (s\<lparr>vmem := m\<rparr>)" "page_tbl m = page_tbl (vmem s)"
    "holds F m (?b + 8 * length xs) x"
    "\<forall>i < 102400. \<not> (?b + 8 * length xs \<le> i \<and> i < ?b + 8 * length xs + 8) \<longrightarrow> heap_byte F m i = heap_byte F (vmem s) i"
    using ptr_write_heap [of P s F x "?b + 8 * length xs"] v(4) room assms(2) by (auto simp: heap_at_def)
  have "holds F m (?b + 8 * i) ((xs @ [x]) ! i)" if "i < length (xs @ [x])" for i
  proof (cases "i = length xs")
    case False
    then have i: "i < length xs" using that by simp
    have "holds F m (?b + 8 * i) (xs ! i)"
      using i m(4) room assms(2) by (intro holds_frame [OF h [rule_format, OF i]]) simp
    then show ?thesis using i by (simp add: nth_append)
  qed (use m(3) in simp)
  then have "vec_at P F j (xs @ [x]) (v\<lparr>vec_len := vec_len v + 1\<rparr>, s\<lparr>vmem := m\<rparr>)"
    using v m(2) assms(2) by (auto simp: vec_at_def heap_at_def)
  then show ?thesis using m(1) p by (auto simp: same_port_def)
qed

lemma copy_heap:
  assumes "writable_view P (page_tbl (vmem s)) heap_pages F" and "a + n \<le> b" and "b + n \<le> 102400"
  shows "\<exists>m. copy_nonoverlapping P (hp a) (hp b) n s = Ret (s\<lparr>vmem := m\<rparr>) \<and> page_tbl m = page_tbl (vmem s) \<and>
    (\<forall>i < n. heap_byte F m (b + i) = heap_byte F (vmem s) (a + i))"
proof -
  let ?bs = "map (heap_byte F (vmem s)) [a..<a + n]"
  have r: "vread_slice P (vmem s) (hp a) n = Ret ?bs" using assms by (intro heap_read) simp_all
  have "b + length ?bs \<le> 102400" using assms(3) by simp
  from heap_write [OF assms(1) this] obtain ph where ph: "vwrite_slice P (hp b) ?bs (vmem s) = Ret ((vmem s)\<lparr>phys := ph\<rparr>)"
    "\<forall>i < 102400. heap_byte F ((vmem s)\<lparr>phys := ph\<rparr>) i = (if b \<le> i \<and> i < b + length ?bs then ?bs ! (i - b) else heap_byte F (vmem s) i)"
    by blast
  have "heap_byte F ((vmem s)\<lparr>phys := ph\<rparr>) (b + i) = heap_byte F (vmem s) (a + i)" if "i < n" for i
    using ph(2) that assms(3) by simp
  then show ?thesis using r ph(1) by (intro exI [of _ "(vmem s)\<lparr>phys := ph\<rparr>"]) (simp add: copy_nonoverlapping_def)
qed

lemma holds_copied:
  assumes "holds F m (a + d) (v :: u64)" and "\<forall>i < n. heap_byte F m' (b + i) = heap_byte F m (a + i)" and "d + 8 \<le> n"
  shows "holds F m' (b + d) v"
proof -
  have "map (heap_byte F m') [b + d..<b + d + 8] = map (heap_byte F m) [a + d..<a + d + 8]"
    using assms(2,3) by (intro nth_equalityI) (simp_all add: add.assoc)
  then show ?thesis using assms(1) by (simp add: holds_def)
qed

lemma Vec_grow_at:
  assumes "vec_at P F j xs (v, s)" and "length xs = vec_cap v" and "8 dvd j" and "j + 8 * (4 * vec_cap v) + 32 \<le> 102400"
  shows "\<exists>v' s'. Vec_grow oc P (v, s) = Ret (v', s') \<and> vec_at P F j xs (v', s') \<and> length xs < vec_cap v' \<and>
    vec_cap v' = max 4 (2 * vec_cap v) \<and> same_port s s'"
proof (cases "vec_cap v = 0")
  case True
  then have v: "xs = []" "heap_at P F j s" "vec_len v = 0" using assms(1,2) by (auto simp: vec_at_def)
  have j: "j \<le> 102400" and l: "layout_ok (array_layout 4) \<and> rounded (array_layout 4) = word_of_nat 32"
    using assms(4) array_layout_ok [of 4] by simp_all
  note a = alloc_at [OF v(2) j l]
  have "Vec_grow oc P (v, s) = Ret (v\<lparr>vec_ptr := hp j, vec_cap := 4\<rparr>, s\<lparr>ALLOCATOR := kernel_heap\<lparr>next_ptr := hp (j + 32)\<rparr>\<rparr>)"
    unfolding Vec_grow_def Let_def prod.case True v(3) using a by (simp add: allocated_def)
  then show ?thesis using v True by (auto simp: vec_at_def heap_at_def same_port_def)
next
  case False
  let ?c = "vec_cap v"
  let ?b = "j + 8 * (?c - 4)" and ?e = "j + 8 * (2 * ?c - 4)" and ?s1 = "s\<lparr>ALLOCATOR := kernel_heap\<lparr>next_ptr := hp (j + 8 * (2 * vec_cap v - 4) + 8 * (2 * vec_cap v))\<rparr>\<rparr>"
  have v: "vec_len v = ?c" "4 \<le> ?c" "vec_ptr v = hp ?b" "heap_at P F ?e s"
    and h: "\<forall>i < length xs. holds F (vmem s) (?b + 8 * i) (xs ! i)"
    using assms(1,2) False by (auto simp: vec_at_def)
  have c: "?c \<le> 3200" using assms(4) by simp
  have cap: "max 4 (max (2 * ?c) (?c + 1)) = 2 * ?c" using v(2) by simp
  have e: "?b + 8 * ?c = ?e" "?e + 8 * (2 * ?c) = j + 8 * (2 * (2 * ?c) - 4)" "?e \<le> 102400" "?e + 8 * ?c \<le> 102400"
    using v(2) assms(4) by linarith+
  have u: "unat (word_of_nat (8 * ?c) :: u64) = 8 * ?c" "unat (word_of_nat (8 * (2 * ?c)) :: u64) = 8 * (2 * ?c)"
    using c by (intro unat_word_of_nat64; simp)+
  have mn: "unat (min (layout_size (array_layout ?c)) (word_of_nat (8 * (2 * ?c)))) = 8 * ?c"
    using u by (simp add: array_layout_def min_def word_le_nat_alt)
  have l: "layout_ok (array_layout (2 * ?c)) \<and> rounded (array_layout (2 * ?c)) = word_of_nat (8 * (2 * ?c))"
    "layout_ok (array_layout ?c) \<and> rounded (array_layout ?c) = word_of_nat (8 * ?c)"
    using c by (intro array_layout_ok; simp)+
  have al: "(array_layout ?c)\<lparr>layout_size := word_of_nat (8 * (2 * ?c))\<rparr> = array_layout (2 * ?c)" by (simp add: array_layout_def)
  note a = alloc_at [OF v(4) e(3) l(1)]
  obtain m where m: "copy_nonoverlapping P (hp ?b) (hp ?e) (8 * ?c) ?s1 = Ret (?s1\<lparr>vmem := m\<rparr>)" "page_tbl m = page_tbl (vmem s)"
    "\<forall>i < 8 * ?c. heap_byte F m (?e + i) = heap_byte F (vmem s) (?b + i)"
    using copy_heap [of P ?s1 F ?b "8 * ?c" ?e] v(4) e by (auto simp: heap_at_def)
  have at: "heap_at P F (?e + 8 * (2 * ?c)) (?s1\<lparr>vmem := m\<rparr>)" using v(4) m(2) by (simp add: heap_at_def)
  have "global_dealloc oc (hp ?b) (array_layout ?c) (?s1\<lparr>vmem := m\<rparr>) = Ret (?s1\<lparr>vmem := m\<rparr>)"
    using dealloc_at [OF at _ _ l(2), of ?b oc] e c v(2) by simp
  then have "global_realloc oc P (vec_ptr v) (array_layout ?c) (word_of_nat (8 * (2 * ?c))) s = Ret (hp ?e, ?s1\<lparr>vmem := m\<rparr>)"
    unfolding global_realloc_def al a(1) obind.simps prod.case v(3) mn m(1) using a(2) by simp
  then have g: "Vec_grow oc P (v, s) = Ret (v\<lparr>vec_ptr := hp ?e, vec_cap := 2 * ?c\<rparr>, ?s1\<lparr>vmem := m\<rparr>)"
    unfolding Vec_grow_def Let_def prod.case v(1) cap using c False a(2) by (simp add: allocated_def)
  have "holds F m (?e + 8 * i) (xs ! i)" if "i < length xs" for i
    using holds_copied [OF h [rule_format, OF that] m(3)] that assms(2) by simp
  moreover have "heap_at P F (j + 8 * (2 * (2 * ?c) - 4)) (?s1\<lparr>vmem := m\<rparr>)" using at unfolding e(2) .
  ultimately have "vec_at P F j xs (v\<lparr>vec_ptr := hp ?e, vec_cap := 2 * ?c\<rparr>, ?s1\<lparr>vmem := m\<rparr>)"
    using v(1,2) assms(2) unfolding vec_at_def by simp
  then show ?thesis using g v(2) assms(2) by (auto simp: same_port_def)
qed

lemma Vec_push_at:
  assumes "vec_at P F j xs vs" and "8 dvd j" and "j + 8 * (4 * length xs) + 32 \<le> 102400"
  shows "\<exists>vs'. Vec_push oc P x vs = Ret vs' \<and> vec_at P F j (xs @ [x]) vs' \<and> same_port (snd vs) (snd vs')"
proof -
  obtain v s where vs: "vs = (v, s)" by (cases vs)
  have len: "vec_len v = length xs" "length xs \<le> vec_cap v" "vec_cap v \<le> 4 \<or> vec_cap v \<le> 2 * length xs"
    using assms(1) by (simp_all add: vec_at_def vs)
  obtain v' s' where g: "(if vec_len v = vec_cap v then Vec_grow oc P (v, s) else Ret (v, s)) = Ret (v', s')"
    "vec_at P F j xs (v', s')" "length xs < vec_cap v'" "vec_cap v' \<le> 4 \<or> vec_cap v' \<le> 2 * length xs" "same_port s s'"
  proof (cases "vec_len v = vec_cap v")
    case True
    then have full: "length xs = vec_cap v" using len(1) by simp
    with assms obtain v' s' where "Vec_grow oc P (v, s) = Ret (v', s')" "vec_at P F j xs (v', s')" "length xs < vec_cap v'"
      "vec_cap v' = max 4 (2 * vec_cap v)" "same_port s s'" using Vec_grow_at [of P F j xs v s oc] vs by auto
    then show thesis using True full by (intro that [of v' s']) (simp_all add: max_def split: if_splits)
  next
    case False
    then show thesis using assms(1) vs len that [of v s] by (simp add: same_port_def)
  qed
  have "j + 8 * (2 * vec_cap v' - 4) \<le> 102400" using g(4) assms(3) by linarith
  from vec_write [OF g(2,3) assms(2) this, of x] g(1,5) show ?thesis
    by (auto simp: Vec_push_def vs same_port_def)
qed

lemma vec_elem:
  assumes "vec_at P F j xs (v, s)" and "8 dvd j" and "j + 8 * (2 * vec_cap v - 4) \<le> 102400" and "i < length xs"
  shows "ptr_read P (vec_ptr v + word_of_nat (8 * i)) s = Ret (xs ! i)"
proof -
  let ?b = "j + 8 * (vec_cap v - 4)"
  have v: "4 \<le> vec_cap v" "length xs \<le> vec_cap v" "vec_ptr v = hp ?b" "writable_view P (page_tbl (vmem s)) heap_pages F"
    "holds F (vmem s) (?b + 8 * i) (xs ! i)" using assms(1,4) by (auto simp: vec_at_def heap_at_def)
  have "?b + 8 * i + 8 \<le> 102400" using assms(3,4) v(1,2) by linarith
  then have "ptr_read P (hp (?b + 8 * i)) s = Ret (xs ! i)"
    using v(4,5) assms(2) by (intro ptr_read_heap [where F = F]) simp_all
  then show ?thesis unfolding v(3) hp_add .
qed

lemma sum_upt:
  assumes "\<And>i. i < n \<Longrightarrow> f i = Ret (word_of_nat i :: u64)" and "n \<le> 1000"
  shows "for_each (\<lambda>i acc. obind (f i) (\<lambda>x. add_chk oc acc x)) [0..<n] 0 = Ret (word_of_nat (n * (n - 1) div 2))"
  using assms
proof (induction n)
  case (Suc n)
  have s: "n * (n - 1) div 2 + n = Suc n * n div 2"
    by (cases n) (simp_all add: algebra_simps)
  have "n * (n - 1) \<le> 1000 * 1000" using Suc.prems(2) by (intro mult_le_mono) simp_all
  then have b: "n * (n - 1) div 2 \<le> 500000" "n \<le> 1000" using Suc.prems(2) by simp_all
  have "unat (word_of_nat (n * (n - 1) div 2) :: u64) = n * (n - 1) div 2" "unat (word_of_nat n :: u64) = n"
    using b by (intro unat_word_of_nat64; simp)+
  then have "add_chk oc (word_of_nat (n * (n - 1) div 2) :: u64) (word_of_nat n) = Ret (word_of_nat (Suc n * n div 2))"
    unfolding s [symmetric] using b by (simp add: add_chk_def)
  with Suc.IH Suc.prems show ?case by (simp add: for_each_append)
qed simp

lemma large_vec_passes:
  assumes "heap_at P F j s" and "8 dvd j" and "j + 32000 \<le> 102400"
  shows "\<exists>s' k. large_vec oc P s = Ret s' \<and> heap_at P F (j + 8 * k) s' \<and> j + 8 * k \<le> j + 32000 \<and> same_port s s'"
proof -
  let ?ns = "\<lambda>n. map (word_of_nat :: nat \<Rightarrow> u64) [0..<n]"
  let ?I = "\<lambda>n vs. vec_at P F j (?ns n) vs \<and> same_port s (snd vs)"
  have "?I 0 (Vec_new, s)" using assms(1) by (simp add: vec_at_def Vec_new_def same_port_def)
  moreover have "\<exists>vs'. Vec_push oc P (word_of_nat i) vs = Ret vs' \<and> ?I (Suc i) vs'" if "i < 1000" "?I i vs" for i vs
    using Vec_push_at [of P F j "?ns i" vs oc "word_of_nat i"] that assms by (auto simp: same_port_def)
  ultimately obtain vs where vs: "for_each (\<lambda>i. Vec_push oc P (word_of_nat i)) [0..<1000] (Vec_new, s) = Ret vs" "?I 1000 vs"
    using for_each_upt [of 1000 ?I "\<lambda>i. Vec_push oc P (word_of_nat i)" "(Vec_new, s)"] by blast
  obtain v t where vt: "vs = (v, t)" by (cases vs)
  define c where "c = vec_cap v"
  have v: "vec_len v = 1000" "1000 \<le> c" "c \<le> 2000" "vec_ptr v = hp (j + 8 * (c - 4))" "heap_at P F (j + 8 * (2 * c - 4)) t"
    "same_port s t" using vs(2) by (auto simp: vec_at_def vt c_def)
  have room: "j + 8 * (2 * c - 4) \<le> 102400" using v(3) assms(3) by simp
  have "ptr_read P (vec_ptr v + word_of_nat (8 * i)) t = Ret (word_of_nat i :: u64)" if "i < 1000" for i
    using vec_elem [of P F j "?ns 1000" v t i] vs(2) vt room assms(2) that by (simp add: c_def)
  then have sum: "Vec_sum oc P v t = Ret 499500"
    using sum_upt [of 1000 "\<lambda>i. ptr_read P (vec_ptr v + word_of_nat (8 * i)) t" oc] v(1) by (simp add: Vec_sum_def)
  have l: "layout_ok (array_layout c) \<and> rounded (array_layout c) = word_of_nat (8 * c)" using v(3) by (intro array_layout_ok) simp
  have e: "j + 8 * (c - 4) + 8 * c = j + 8 * (2 * c - 4)" using v(2) by linarith
  let ?t = "t\<lparr>ALLOCATOR := kernel_heap\<lparr>next_ptr := hp (j + 8 * (c - 4))\<rparr>\<rparr>"
  have "Vec_drop oc v t = Ret ?t"
    using dealloc_at [OF v(5) _ _ l, of "j + 8 * (c - 4)" oc] e room v(2) unfolding Vec_drop_def c_def [symmetric] v(4) by simp
  then have "large_vec oc P s = Ret ?t"
    using vs(1) vt sum by (simp add: large_vec_def assert_eq_def)
  moreover have "heap_at P F (j + 8 * (c - 4)) ?t" using v(5) by (simp add: heap_at_def)
  moreover have "j + 8 * (c - 4) \<le> j + 32000" "same_port s ?t" using v(3,6) by (simp_all add: same_port_def)
  ultimately show ?thesis by blast
qed

section \<open>The property\<close>

text \<open>What \<open>n\<close> tests need: the heap is mapped and has enough room left.\<close>

definition heap_room :: "('pt, 'fa) paging \<Rightarrow> nat \<Rightarrow> ('pt, 'u, 'z) heap_kernel_scheme \<Rightarrow> bool" where
  "heap_room P n s \<longleftrightarrow> (\<exists>F j. heap_at P F j s \<and> 8 dvd j \<and> j + 32000 * n \<le> 102400)"

lemma heap_room_off_port: "off_port (heap_room P)"
  by (simp add: off_port_def heap_room_def heap_at_def)

lemma heap_tests_quiet:
  fixes t :: "('pt, 'u, 'z heap_kernel_ext) serial_scheme test"
  assumes "t \<in> set (heap_tests oc P)" shows "quiet_test (heap_room P) t"
  unfolding quiet_test_def
proof (intro allI impI)
  fix n and s :: "('pt, 'u, 'z) heap_kernel_scheme" assume "heap_room P (Suc n) s" and l: "\<not> serial_locked s"
  then obtain F j where j: "heap_at P F j s" "8 dvd j" "j + 32000 * Suc n \<le> 102400" unfolding heap_room_def by blast
  have r: "j + 32000 \<le> 102400" "j + 8 \<le> 102400" "4 dvd j" using j(2,3) dvd_trans [of 4 8 j] by simp_all
  from assms consider "snd t = simple_allocation oc P" | "snd t = large_vec oc P" | "snd t = many_boxes oc P"
    by (auto simp: heap_tests_def)
  then have "\<exists>s' k. snd t s = Ret s' \<and> heap_at P F (j + 8 * k) s' \<and> j + 8 * k \<le> j + 32000 \<and> same_port s s'"
  proof cases
    case 1
    then show ?thesis using simple_allocation_passes [OF j(1) r(3,2)] by (fastforce intro: exI [of _ "0 :: nat"])
  next
    case 2
    then show ?thesis using large_vec_passes [OF j(1,2) r(1)] by simp
  next
    case 3
    then show ?thesis using many_boxes_passes [OF j(1,2) r(2)] by (fastforce intro: exI [of _ "0 :: nat"])
  qed
  then obtain s' k where s': "snd t s = Ret s'" "heap_at P F (j + 8 * k) s'" "j + 8 * k \<le> j + 32000" "same_port s s'" by blast
  have "8 dvd j + 8 * k" "j + 8 * k + 32000 * n \<le> 102400" using j(2,3) s'(3) by simp_all
  then have "heap_room P n s'" using s'(2) unfolding heap_room_def by blast
  then show "\<exists>s'. snd t s = Ret s' \<and> heap_room P n s' \<and> SERIAL1 s' = SERIAL1 s \<and> \<not> serial_locked s'"
    using s'(1,4) l by (auto simp: same_port_def)
qed

text \<open>C7. The integration test of the heap passes: with the frames for the heap in the memory map and its
  addresses unmapped, the test kernel initialises, sets up the heap, and runs the tests of boxes and
  vectors in any order without a failed assertion, a refused allocation, a misaligned access or a
  page fault; the serial port has received exactly the report of the suite, and the run ends the
  emulator with the code of success.\<close>

theorem heap_tests_pass:
  assumes "platform_docs M slots entry" and "platform_ok M boot_info" and "memory_ok M boot_info 100"
    and "\<forall>a. in_heap a \<longrightarrow> \<not> is_mapped (p_paging M) (boot_table M boot_info) a"
    and "irq_docs X" and "uart_docs U send" and "exit_device (exit_port_write U)"
    and "ALLOCATOR (ksys c) = BumpAllocator_new" and "\<not> serial_locked (ksys c)"
    and "set tests \<subseteq> set (heap_tests oc (p_paging M))" and "length tests \<le> 3"
  shows "\<exists>c1 c2 fa b s'. init M c = Ret c1 \<and> setup_memory oc M boot_info BumpAllocator_new c1 = Ret (fa, b, c2) \<and>
    run_tests X U tests ((ksys c2)\<lparr>ALLOCATOR := b\<rparr>) = Ret s' \<and>
    SERIAL1 s' = fold send (suite_report (map fst tests)) (SERIAL1 (ksys c)) \<and>
    heap_main oc M X U tests boot_info c = (PowerOff 0x10 :: 'r outcome)"
proof -
  obtain c1 where c1: "init M c = Ret c1" "ksys c1 = ksys c" using init_ok [OF assms(1,2)] by blast
  obtain fa pt F where m: "setup_memory oc M boot_info BumpAllocator_new c1 = Ret (fa, kernel_heap, set_page_table pt c1)"
    "writable_view (p_paging M) pt heap_pages F"
    using setup_memory_ok [OF assms(1-3) order_refl assms(4), of oc c1 thesis] by blast
  let ?s = "(ksys (set_page_table pt c1))\<lparr>ALLOCATOR := kernel_heap\<rparr>"
  have "heap_at (p_paging M) F 0 ?s" using m(2) by (simp add: heap_at_def set_page_table_def kernel_heap_def)
  then have "heap_room (p_paging M) (length tests) ?s" unfolding heap_room_def using assms(11) by (intro exI [of _ F] exI [of _ 0]) simp
  moreover have "\<not> serial_locked ?s" "SERIAL1 ?s = SERIAL1 (ksys c)" using assms(9) c1(2) by (simp_all add: set_page_table_def)
  moreover have "\<forall>t \<in> set tests. quiet_test (heap_room (p_paging M)) t" using assms(10) heap_tests_quiet by blast
  ultimately obtain s' where "run_tests X U tests ?s = Ret s'"
    "SERIAL1 s' = fold send (suite_report (map fst tests)) (SERIAL1 (ksys c))"
    using run_tests_report [OF assms(5,6) heap_room_off_port, of tests "p_paging M" ?s] assms(7) by auto
  moreover from this(1) have "heap_main oc M X U tests boot_info c = (PowerOff 0x10 :: 'r outcome)"
    using c1 m(1) assms(8) by (simp add: heap_main_def test_runner_exits [OF _ assms(7)])
  ultimately show ?thesis using c1(1) m(1) by blast
qed

definition demo_heap_kernel :: "(Page \<rightharpoonup> PhysFrame \<times> PageTableFlags, u8 list) heap_kernel" where
  "demo_heap_kernel = serial.extend demo_serial \<lparr>ALLOCATOR = BumpAllocator_new\<rparr>"

theorem heap_tests_pass_witness:
  "heap_main True demo_platform std_irq log_uart (rev (heap_tests True boot_paging)) demo_boot_info (test_cpu demo_heap_kernel)
     = (PowerOff 0x10 :: unit outcome)"
proof -
  have k: "ALLOCATOR (ksys (test_cpu demo_heap_kernel)) = BumpAllocator_new" "\<not> serial_locked (ksys (test_cpu demo_heap_kernel))"
    by (simp_all add: test_cpu_def demo_heap_kernel_def demo_serial_def serial.defs kernel.defs)
  have p: "p_paging demo_platform = boot_paging" by (simp add: demo_platform_def)
  have m: "memory_ok demo_platform demo_boot_info 100"
    by (simp add: memory_ok_def demo_platform_def demo_boot_info_def big_map_pending)
  have u: "\<forall>a. in_heap a \<longrightarrow> \<not> is_mapped (p_paging demo_platform) (boot_table demo_platform demo_boot_info) a"
    by (simp add: demo_platform_def boot_table_def is_mapped_def std_translate_def)
  have t: "set (rev (heap_tests True boot_paging)) \<subseteq> set (heap_tests True (p_paging demo_platform))"
    "length (rev (heap_tests True boot_paging)) \<le> 3" by (simp_all add: p heap_tests_def)
  show ?thesis
    using heap_tests_pass [OF demo_platform_docs demo_platform_ok m u std_irq_docs log_uart_docs log_uart_exit k t] by blast
qed

end
