(* ===== verification/Exceptions.thy ===== *)
theory Exceptions
  imports Gdt Entry
begin

text \<open>
  What happens on an exception, with the tables of \<^verbatim>\<open>gdt.rs\<close> and \<^verbatim>\<open>interrupts.rs\<close> loaded: the
  processor's delivery through the interrupt descriptor table and the task state segment, after the
  architecture manual, and the handlers. The properties: no exception in user mode resets the
  machine, whatever the program has done to its registers; an overflow of the kernel stack
  ends in a report; the breakpoint is a call of \<^verbatim>\<open>my_write\<close> that comes back; the division by zero in
  \<^verbatim>\<open>crash_by_div\<close> ends in its handler.
\<close>

section \<open>Delivery\<close>

text \<open>Whether the kernel may write to an address; write protection is on.\<close>

definition kernel_writes :: "('pt, 'fa) paging \<Rightarrow> 'pt \<Rightarrow> VirtAddr \<Rightarrow> bool" where
  "kernel_writes X pt a \<longleftrightarrow> (case pt_translate X pt a of Mapped _ _ fl \<Rightarrow> WRITABLE \<in> fl | _ \<Rightarrow> False)"

definition kernel_reads :: "('pt, 'fa) paging \<Rightarrow> 'pt \<Rightarrow> VirtAddr \<Rightarrow> bool" where
  "kernel_reads X pt a \<longleftrightarrow> (case pt_translate X pt a of Mapped _ _ _ \<Rightarrow> True | _ \<Rightarrow> False)"

text \<open>Pushing the words of a frame; \<open>None\<close> if one of them would go to a page that is not writable.\<close>

fun push_frame :: "(u64 \<Rightarrow> bool) \<Rightarrow> u64 list \<Rightarrow> ('s, 'z) cpu_scheme \<Rightarrow> ('s, 'z) cpu_scheme option" where
  "push_frame writable [] c = Some c"
| "push_frame writable (w # ws) c = (let sp = regs c RSP - 8 in
     if writable sp then push_frame writable ws (c\<lparr>regs := (regs c)(RSP := sp), cells := (cells c)(sp := w)\<rparr>) else None)"

text \<open>The exceptions that push an error code.\<close>

definition has_error_code :: "nat \<Rightarrow> bool" where
  "has_error_code v \<longleftrightarrow> v \<in> {8, 10, 11, 12, 13, 14, 17}"

text \<open>
  One attempt to enter the handler of a vector: through its gate, on the stack of the gate's index in
  the interrupt stack table, else on the stack for interrupts from user mode or on the current one,
  aligned to 16 bytes. The gates are interrupt gates of the kernel's code segment, so the handler
  runs at level 0 with interrupts off. The attempt itself may fault: the gate is not present, the
  task state segment is invalid, or a push hits a page that is not there.
\<close>

datatype second_fault = Not_Present | Invalid_TSS | Push_Fault

definition handler_stack :: "TaskStateSegment \<Rightarrow> nat option \<Rightarrow> ('s, 'z) cpu_scheme \<Rightarrow> u64" where
  "handler_stack tss ist c = (case ist of
     Some i \<Rightarrow> interrupt_stack_table tss ! i
   | None \<Rightarrow> if cpl c = 0 then regs c RSP else privilege_stack_table tss ! 0) AND NOT 0xF"

definition frame_words :: "nat \<Rightarrow> u64 \<Rightarrow> ('s, 'z) cpu_scheme \<Rightarrow> u64 list" where
  "frame_words v code c =
     [ss c, regs c RSP, rflags c, cs c, rip c] @ (if has_error_code v then [code] else [])"

definition enter_handler :: "('pt, 'fa) paging \<Rightarrow> ('g \<Rightarrow> Descriptor option list) \<Rightarrow> ('t \<Rightarrow> nat \<Rightarrow> (handler \<times> nat option) option)
    \<Rightarrow> (nat \<Rightarrow> u64) \<Rightarrow> nat \<Rightarrow> (('pt, 'k) kernel_scheme, 'g, 't, 'z) seg_cpu_scheme
    \<Rightarrow> second_fault + handler \<times> (('pt, 'k) kernel_scheme, 'g, 't, 'z) seg_cpu_scheme" where
  "enter_handler X slots entry code v c =
     (case Option.bind (idtr c) (\<lambda>t. entry t v) of
        None \<Rightarrow> Inl Not_Present
      | Some (h, ist) \<Rightarrow>
          (case Option.bind (gdtr c) (\<lambda>g. segment (slots g) (ucast (tr c))) of
             Some (tss_segment tss) \<Rightarrow>
               (case push_frame (kernel_writes X (page_tbl (vmem (ksys c)))) (frame_words v (code v) c)
                   (set_reg RSP (handler_stack tss ist c) c) of
                  None \<Rightarrow> Inl Push_Fault
                | Some c' \<Rightarrow> Inr (h, c'\<lparr>rflags := rflags c AND NOT INTERRUPT_FLAG, cs := 0x08,
                    ss := (if cpl c = 0 then ss c else 0)\<rparr>))
           | _ \<Rightarrow> Inl Invalid_TSS))"

text \<open>
  A fault while another is being delivered: after a page fault, or after a contributory exception
  unless the second is a page fault, the two become a double fault; otherwise the second is
  delivered. When a double fault cannot be delivered the processor shuts down and the machine resets.
\<close>

datatype 'c delivery = Handled handler 'c | Shutdown

definition deliver_double_fault :: "('pt, 'fa) paging \<Rightarrow> ('g \<Rightarrow> Descriptor option list)
    \<Rightarrow> ('t \<Rightarrow> nat \<Rightarrow> (handler \<times> nat option) option) \<Rightarrow> (nat \<Rightarrow> u64) \<Rightarrow> (('pt, 'k) kernel_scheme, 'g, 't, 'z) seg_cpu_scheme
    \<Rightarrow> (('pt, 'k) kernel_scheme, 'g, 't, 'z) seg_cpu_scheme delivery" where
  "deliver_double_fault X slots entry code c = (case enter_handler X slots entry code 8 c of
     Inr (h, c') \<Rightarrow> Handled h c' | Inl _ \<Rightarrow> Shutdown)"

definition deliver_page_fault :: "('pt, 'fa) paging \<Rightarrow> ('g \<Rightarrow> Descriptor option list)
    \<Rightarrow> ('t \<Rightarrow> nat \<Rightarrow> (handler \<times> nat option) option) \<Rightarrow> (nat \<Rightarrow> u64) \<Rightarrow> (('pt, 'k) kernel_scheme, 'g, 't, 'z) seg_cpu_scheme
    \<Rightarrow> (('pt, 'k) kernel_scheme, 'g, 't, 'z) seg_cpu_scheme delivery" where
  "deliver_page_fault X slots entry code c = (case enter_handler X slots entry code 14 c of
     Inr (h, c') \<Rightarrow> Handled h c' | Inl _ \<Rightarrow> deliver_double_fault X slots entry code c)"

definition deliver_contributory :: "('pt, 'fa) paging \<Rightarrow> ('g \<Rightarrow> Descriptor option list)
    \<Rightarrow> ('t \<Rightarrow> nat \<Rightarrow> (handler \<times> nat option) option) \<Rightarrow> (nat \<Rightarrow> u64) \<Rightarrow> nat \<Rightarrow> (('pt, 'k) kernel_scheme, 'g, 't, 'z) seg_cpu_scheme
    \<Rightarrow> (('pt, 'k) kernel_scheme, 'g, 't, 'z) seg_cpu_scheme delivery" where
  "deliver_contributory X slots entry code v c = (case enter_handler X slots entry code v c of
     Inr (h, c') \<Rightarrow> Handled h c'
   | Inl Push_Fault \<Rightarrow> deliver_page_fault X slots entry code c
   | Inl _ \<Rightarrow> deliver_double_fault X slots entry code c)"

definition deliver :: "('pt, 'fa) paging \<Rightarrow> ('g \<Rightarrow> Descriptor option list)
    \<Rightarrow> ('t \<Rightarrow> nat \<Rightarrow> (handler \<times> nat option) option) \<Rightarrow> (nat \<Rightarrow> u64) \<Rightarrow> nat \<Rightarrow> (('pt, 'k) kernel_scheme, 'g, 't, 'z) seg_cpu_scheme
    \<Rightarrow> (('pt, 'k) kernel_scheme, 'g, 't, 'z) seg_cpu_scheme delivery" where
  "deliver X slots entry code v c =
     (if v = 8 then deliver_double_fault X slots entry code c
      else if v = 14 then deliver_page_fault X slots entry code c
      else if v \<in> {0, 10, 11, 12, 13} then deliver_contributory X slots entry code v c
      else (case enter_handler X slots entry code v c of
          Inr (h, c') \<Rightarrow> Handled h c'
        | Inl Push_Fault \<Rightarrow> deliver_page_fault X slots entry code c
        | Inl Not_Present \<Rightarrow> deliver_contributory X slots entry code 11 c
        | Inl Invalid_TSS \<Rightarrow> deliver_contributory X slots entry code 10 c))"

text \<open>
  The \<^verbatim>\<open>int3\<close> instruction, whose gate has privilege level 0: from user mode it is a general protection
  fault. The address saved is that of the next instruction.
\<close>

definition int3 :: "('pt, 'fa) paging \<Rightarrow> ('g \<Rightarrow> Descriptor option list)
    \<Rightarrow> ('t \<Rightarrow> nat \<Rightarrow> (handler \<times> nat option) option) \<Rightarrow> (nat \<Rightarrow> u64) \<Rightarrow> (('pt, 'k) kernel_scheme, 'g, 't, 'z) seg_cpu_scheme
    \<Rightarrow> (('pt, 'k) kernel_scheme, 'g, 't, 'z) seg_cpu_scheme delivery" where
  "int3 X slots entry code c = (if cpl c = 0 then deliver X slots entry code 3 c else deliver X slots entry code 13 c)"

section \<open>The page fault handler\<close>

text \<open>
  The handler reads the word at the interrupted stack pointer, which it finds in its frame, for its
  message. If that address is not mapped the read faults in turn, with the handler's own frame
  \<open>depth\<close> bytes further down the stack; \<open>None\<close> would mean that this goes on for ever.
\<close>

definition kernel_reads8 :: "('pt, 'fa) paging \<Rightarrow> 'pt \<Rightarrow> VirtAddr \<Rightarrow> bool" where
  "kernel_reads8 X pt a \<longleftrightarrow> kernel_reads X pt a \<and> kernel_reads X pt (a + 7)"

definition frame_rsp :: "('s, 'z) cpu_scheme \<Rightarrow> u64" where
  "frame_rsp c = cells c (regs c RSP + 32)"

partial_function (option) handle_page_fault :: "('pt, 'fa) paging \<Rightarrow> ('g \<Rightarrow> Descriptor option list)
    \<Rightarrow> ('t \<Rightarrow> nat \<Rightarrow> (handler \<times> nat option) option) \<Rightarrow> (nat \<Rightarrow> u64) \<Rightarrow> u64
    \<Rightarrow> (('pt, 'k) kernel_scheme, 'g, 't, 'z) seg_cpu_scheme \<Rightarrow> 'r outcome option" where
  "handle_page_fault X slots entry code depth c =
     (if kernel_reads8 X (page_tbl (vmem (ksys c))) (frame_rsp c)
      then Some (page_fault_handler (\<lambda>a c. Ret (cells c a)) (frame_rsp c) c)
      else case deliver X slots entry code 14 (set_reg RSP (regs c RSP - depth) c) of
          Handled h_page_fault c' \<Rightarrow> handle_page_fault X slots entry code depth c'
        | Handled h_double_fault c' \<Rightarrow> Some Diverge
        | _ \<Rightarrow> Some UB)"

section \<open>The breakpoint and the division by zero\<close>

text \<open>The function the breakpoint handler calls, compiled to use the stack down to \<open>lo\<close>.\<close>

definition breakpoint_functions :: "('pt, 'fa) paging \<Rightarrow> ('pt, 'k) kernel_scheme irq_api \<Rightarrow> ('pt, 'k) kernel_ext lock_fn \<Rightarrow> u64
    \<Rightarrow> ((('pt, 'k) kernel_scheme, 'z) cpu_scheme \<Rightarrow> reg \<Rightarrow> u64) \<Rightarrow> ((('pt, 'k) kernel_scheme, 'z) cpu_scheme \<Rightarrow> u64 \<Rightarrow> u64)
    \<Rightarrow> string \<Rightarrow> (('pt, 'k) kernel_scheme, 'z) cpu_scheme \<Rightarrow> (('pt, 'k) kernel_scheme, 'z) cpu_scheme outcome" where
  "breakpoint_functions X I L lo junk_reg junk_mem name =
     (if name = ''my_write''
      then sysv_call lo junk_reg junk_mem (\<lambda>ptr len _ _ _ _ s. obind (my_write X I L ptr len s) (\<lambda>s. Ret (0, s)))
      else (\<lambda>_. UB))"

text \<open>
  \<^verbatim>\<open>div\<close> divides the 128-bit number in \<^verbatim>\<open>rdx\<close> and \<^verbatim>\<open>rax\<close>; a zero divisor or a quotient that does not
  fit is exception 0. \<open>frame\<close> is the formatted stack frame.
\<close>

definition div_instr :: "reg \<Rightarrow> ('s, 'z) cpu_scheme \<Rightarrow> ('s, 'z) cpu_scheme option" where
  "div_instr r c = (let n = unat (regs c RDX) * 2 ^ 64 + unat (regs c RAX); d = unat (regs c r) in
     if d = 0 \<or> 2 ^ 64 \<le> n div d then None
     else Some (c\<lparr>regs := (regs c)(RAX := word_of_nat (n div d), RDX := word_of_nat (n mod d))\<rparr>))"

definition crash_by_div :: "('pt, 'fa) paging \<Rightarrow> ('g \<Rightarrow> Descriptor option list)
    \<Rightarrow> ('t \<Rightarrow> nat \<Rightarrow> (handler \<times> nat option) option) \<Rightarrow> (nat \<Rightarrow> u64) \<Rightarrow> ('pt, 'k) kernel_scheme irq_api \<Rightarrow> ('pt, 'k) kernel_ext lock_fn
    \<Rightarrow> u8 list list \<Rightarrow> (('pt, 'k) kernel_scheme, 'g, 't, 'z) seg_cpu_scheme \<Rightarrow> 'r outcome" where
  "crash_by_div X slots entry code I L frame c =
     obind (run_code (\<lambda>_ _. UB) [MOVI RAX 0, MOVI R11 0] c) (\<lambda>c.
     case div_instr R11 c of
       Some c' \<Rightarrow> UB
     | None \<Rightarrow> (case deliver X slots entry code 0 c of
           Handled h_divide_error c' \<Rightarrow> divide_error_handler I L frame (ksys c')
         | _ \<Rightarrow> UB))"

section \<open>Facts\<close>

text \<open>The descriptor tables of the kernel with the gates \<open>vt\<close>, and the tables as \<open>init\<close> leaves them.\<close>

definition gates_loaded :: "(nat \<Rightarrow> (handler \<times> nat option) option) \<Rightarrow> ('g \<Rightarrow> Descriptor option list)
    \<Rightarrow> ('t \<Rightarrow> nat \<Rightarrow> (handler \<times> nat option) option) \<Rightarrow> u64 \<Rightarrow> u64 \<Rightarrow> u64 \<Rightarrow> ('s, 'g, 't, 'z) seg_cpu_scheme \<Rightarrow> bool" where
  "gates_loaded vt slots entry s1 s2 s3 c \<longleftrightarrow>
     (\<exists>g t. gdtr c = Some g \<and> idtr c = Some t \<and> entry t = vt \<and>
        segment (slots g) (ucast (tr c)) = Some (tss_segment (kernel_tss s1 s2 s3)))"

abbreviation tables_loaded :: "('g \<Rightarrow> Descriptor option list) \<Rightarrow> ('t \<Rightarrow> nat \<Rightarrow> (handler \<times> nat option) option)
    \<Rightarrow> u64 \<Rightarrow> u64 \<Rightarrow> u64 \<Rightarrow> ('s, 'g, 't, 'z) seg_cpu_scheme \<Rightarrow> bool" where
  "tables_loaded \<equiv> gates_loaded vector_table"

text \<open>Room for a frame at the top of a stack: the last six words are writable.\<close>

definition frame_room :: "('pt, 'fa) paging \<Rightarrow> 'pt \<Rightarrow> u64 \<Rightarrow> bool" where
  "frame_room X pt sp \<longleftrightarrow> (\<forall>i \<in> set [8, 16, 24, 32, 40, 48]. kernel_writes X pt (sp - i))"

text \<open>The state in which a handler starts, with its frame below \<open>sp\<close>.\<close>

definition handler_state :: "nat \<Rightarrow> u64 \<Rightarrow> u64 \<Rightarrow> ('s, 'z) cpu_scheme \<Rightarrow> ('s, 'z) cpu_scheme" where
  "handler_state v code sp c = c\<lparr>
     regs := (regs c)(RSP := sp - (if has_error_code v then 48 else 40)),
     rflags := rflags c AND NOT INTERRUPT_FLAG, cs := 0x08, ss := (if cpl c = 0 then ss c else 0),
     cells := (let m = (cells c)(sp - 8 := ss c, sp - 16 := regs c RSP, sp - 24 := rflags c, sp - 32 := cs c, sp - 40 := rip c)
       in if has_error_code v then m(sp - 48 := code) else m)\<rparr>"

lemma push_frame_room:
  assumes "frame_room X pt sp"
  shows "push_frame (kernel_writes X pt) (frame_words v code c) (set_reg RSP sp c) =
    Some ((handler_state v code sp c)\<lparr>rflags := rflags c, cs := cs c, ss := ss c\<rparr>)"
  using assms by (simp add: frame_room_def frame_words_def handler_state_def set_reg_def Let_def)

lemma enter_handler_eq:
  assumes "gates_loaded vt slots entry s1 s2 s3 c" and "vt v = Some (h, ist)"
    and "frame_room X (page_tbl (vmem (ksys c))) (handler_stack (kernel_tss s1 s2 s3) ist c)"
  shows "enter_handler X slots entry code v c = Inr (h, handler_state v (code v) (handler_stack (kernel_tss s1 s2 s3) ist c) c)"
proof -
  obtain g t where "gdtr c = Some g" "idtr c = Some t" "entry t = vt"
    "segment (slots g) (ucast (tr c)) = Some (tss_segment (kernel_tss s1 s2 s3))"
    using assms(1) by (auto simp: gates_loaded_def)
  then show ?thesis using assms(2) push_frame_room [OF assms(3), of v "code v" c]
    by (simp add: enter_handler_def) (simp add: handler_state_def Let_def)
qed

lemma enter_handler_absent:
  assumes "gates_loaded vt slots entry s1 s2 s3 c" and "vt v = None"
  shows "enter_handler X slots entry code v c = Inl Not_Present"
  using assms by (auto simp: gates_loaded_def enter_handler_def)

lemma enter_handler_no_room:
  assumes "gates_loaded vt slots entry s1 s2 s3 c" and "vt v = Some (h, ist)"
    and "\<not> kernel_writes X (page_tbl (vmem (ksys c))) (handler_stack (kernel_tss s1 s2 s3) ist c - 8)"
  shows "enter_handler X slots entry code v c = Inl Push_Fault"
  using assms by (auto simp: gates_loaded_def enter_handler_def frame_words_def Let_def)

lemma unat_align16: "unat (x AND NOT (0xF :: 64 word)) = unat x div 16 * 16"
proof -
  have "x AND NOT (0xF :: 64 word) = push_bit 4 (drop_bit 4 x)"
  proof (rule bit_word_eqI)
    fix n assume "n < LENGTH(64)"
    have "bit (0xF :: 64 word) n \<longleftrightarrow> n < 4"
      using bit_mask_iff [of 4 n, where 'a = "64 word"] by (auto simp: mask_eq_exp_minus_1 \<open>n < LENGTH(64)\<close>)
    then show "bit (x AND NOT 0xF) n = bit (push_bit 4 (drop_bit 4 x)) n"
      using \<open>n < LENGTH(64)\<close> by (auto simp: bit_simps)
  qed
  moreover have "unat (drop_bit 4 x) = unat x div 16" by (simp add: drop_bit_eq_div unat_div_distrib)
  moreover have "unat x < 2 ^ 64" using unsigned_less [of x, where 'a = nat] by simp
  ultimately show ?thesis by (simp add: push_bit_eq_mult unat_word_ariths)
qed

text \<open>The three stacks of \<^verbatim>\<open>gdt.rs\<close>, mapped as the rest of the kernel's data.\<close>

definition stack_end :: "u64 \<Rightarrow> u64" where
  "stack_end a = (a + STACK_SIZE) AND NOT 0xF"

definition stacks_mapped :: "('pt, 'fa) paging \<Rightarrow> 'pt \<Rightarrow> u64 \<Rightarrow> u64 \<Rightarrow> u64 \<Rightarrow> bool" where
  "stacks_mapped X pt s1 s2 s3 \<longleftrightarrow> (\<forall>s \<in> {s1, s2, s3}. stack_ok s \<and>
     (\<forall>a. unat s \<le> unat a \<and> unat a < unat s + unat STACK_SIZE \<longrightarrow> kernel_writes X pt a))"

lemma handler_stack_simps:
  "handler_stack (kernel_tss s1 s2 s3) (Some 0) c = stack_end s1"
  "handler_stack (kernel_tss s1 s2 s3) (Some (Suc 0)) c = stack_end s2"
  "cpl c \<noteq> 0 \<Longrightarrow> handler_stack (kernel_tss s1 s2 s3) None c = stack_end s3"
  by (simp_all add: handler_stack_def kernel_tss_def stack_end_def)

lemma in_mapped_stack:
  assumes "stacks_mapped X pt s1 s2 s3" and "s \<in> {s1, s2, s3}" and "0 < unat d" and "unat d \<le> 20000"
  shows "kernel_writes X pt (stack_end s - d)"
proof -
  have o: "stack_ok s" and m: "\<And>a. unat s \<le> unat a \<Longrightarrow> unat a < unat s + unat STACK_SIZE \<Longrightarrow> kernel_writes X pt a"
    using assms(1,2) by (auto simp: stacks_mapped_def)
  have z: "unat STACK_SIZE = 20480" by (simp add: STACK_SIZE_def)
  have "unat (s + STACK_SIZE) = unat s + 20480" using o unat_add_fits [of s STACK_SIZE] by (simp add: stack_ok_def z)
  then have e: "unat (stack_end s) = (unat s + 20480) div 16 * 16" unfolding stack_end_def unat_align16 by simp
  then have "unat d \<le> unat (stack_end s)" using assms(4) by linarith
  then have "unat (stack_end s - d) = unat (stack_end s) - unat d" by (rule unat_sub_fits)
  then show ?thesis using e assms(3,4) by (intro m) (simp_all add: z)
qed

lemma stack_frame_room: "stacks_mapped X pt s1 s2 s3 \<Longrightarrow> s \<in> {s1, s2, s3} \<Longrightarrow> frame_room X pt (stack_end s)"
  unfolding frame_room_def by (auto intro!: in_mapped_stack)

lemma deliver_double_fault_gate:
  assumes "gates_loaded vt slots entry s1 s2 s3 c" and "stacks_mapped X (page_tbl (vmem (ksys c))) s1 s2 s3" and "vt 8 = Some (h, Some 0)"
  shows "deliver_double_fault X slots entry code c = Handled h (handler_state 8 (code 8) (stack_end s1) c)"
  using enter_handler_eq [OF assms(1,3), of X code] stack_frame_room [OF assms(2), of s1]
  by (simp add: deliver_double_fault_def handler_stack_simps)

lemma deliver_double_fault_eq:
  assumes "tables_loaded slots entry s1 s2 s3 c" and "stacks_mapped X (page_tbl (vmem (ksys c))) s1 s2 s3"
  shows "deliver_double_fault X slots entry code c = Handled h_double_fault (handler_state 8 (code 8) (stack_end s1) c)"
  using deliver_double_fault_gate [OF assms] by (simp add: vector_table_def)

lemma deliver_page_fault_eq:
  assumes "tables_loaded slots entry s1 s2 s3 c" and "stacks_mapped X (page_tbl (vmem (ksys c))) s1 s2 s3"
  shows "deliver_page_fault X slots entry code c = Handled h_page_fault (handler_state 14 (code 14) (stack_end s2) c)"
proof -
  have v: "vector_table 14 = Some (h_page_fault, Some (Suc 0))" by (simp add: vector_table_def)
  show ?thesis using enter_handler_eq [OF assms(1) v, of X code] stack_frame_room [OF assms(2), of s2]
    by (simp add: deliver_page_fault_def handler_stack_simps)
qed

lemma deliver_absent:
  assumes "tables_loaded slots entry s1 s2 s3 c" and "stacks_mapped X (page_tbl (vmem (ksys c))) s1 s2 s3"
    and "vector_table v = None"
  shows "deliver X slots entry code v c = Handled h_double_fault (handler_state 8 (code 8) (stack_end s1) c)"
proof -
  have "v \<noteq> 8" "v \<noteq> 14" "v \<noteq> 0" using assms(3) by (auto simp: vector_table_def split: if_splits)
  moreover have "vector_table 11 = None" by (simp add: vector_table_def)
  ultimately show ?thesis
    using enter_handler_absent [OF assms(1,3), of X code] enter_handler_absent [OF assms(1), of 11 X code]
      deliver_double_fault_eq [OF assms(1,2), of code]
    by (simp add: deliver_def deliver_contributory_def)
qed

lemma deliver_user:
  assumes "tables_loaded slots entry s1 s2 s3 c" and "stacks_mapped X (page_tbl (vmem (ksys c))) s1 s2 s3"
    and "cpl c = 3" and "v = 0 \<and> h = h_divide_error \<or> v = 3 \<and> h = h_breakpoint"
  shows "deliver X slots entry code v c = Handled h (handler_state v (code v) (stack_end s3) c)"
proof -
  have v: "vector_table v = Some (h, None)" using assms(4) by (auto simp: vector_table_def)
  have "handler_stack (kernel_tss s1 s2 s3) None c = stack_end s3" by (rule handler_stack_simps) (simp add: assms(3))
  then show ?thesis using assms(4) enter_handler_eq [OF assms(1) v, of X code] stack_frame_room [OF assms(2), of s3]
    by (auto simp: deliver_def deliver_contributory_def)
qed

lemma handler_state_simps [simp]:
  "ksys (handler_state v code sp c) = ksys c" "cpl (handler_state v code sp c) = 0" "rip (handler_state v code sp c) = rip c"
  by (simp_all add: handler_state_def cpl_def)

lemma handler_state_tables [simp]:
  "gdtr (handler_state v code sp c) = gdtr c" "idtr (handler_state v code sp c) = idtr c" "tr (handler_state v code sp c) = tr c"
  by (simp_all add: handler_state_def)

lemma gates_loaded_cong:
  "gdtr c' = gdtr c \<Longrightarrow> idtr c' = idtr c \<Longrightarrow> tr c' = tr c \<Longrightarrow> gates_loaded vt slots entry s1 s2 s3 c \<Longrightarrow> gates_loaded vt slots entry s1 s2 s3 c'"
  by (simp add: gates_loaded_def)

lemma init_tables:
  assumes "addr_docs X" and "gdt_docs G slots" and "star_docs S" and "stack_ok s1" and "stack_ok s2" and "stack_ok s3"
    and "idt_docs T entry" and "obind (gdt_init X G S (Some True) s1 s2 s3 k) (init_idt T) = Ret k'"
  shows "tables_loaded slots entry s1 s2 s3 k'"
proof -
  obtain g v where g: "gdt_init X G S (Some True) s1 s2 s3 k = Ret (k\<lparr>gdtr := Some g, cs := 0x08, ds := 0x10,
      gs := 0x38, gs_base := 0, star := v, tr := 0x28\<rparr>)"
    "slots g = [None, Some kernel_code_segment, Some kernel_data_segment, Some user_data_segment, Some user_code_segment,
      Some (tss_segment (kernel_tss s1 s2 s3)), None, Some kernel_data_segment]" "star_sysret v = 0x13" "star_syscall v = 0x08"
    by (rule gdt_init_eq [OF assms(1-6)])
  obtain t where "IDT T = Ret t" "entry t = vector_table" using IDT_ok [OF assms(7)] by blast
  then show ?thesis using assms(8) g(1,2) by (auto simp: gates_loaded_def init_idt_def segment_def)
qed

text \<open>The frame a handler finds.\<close>

definition handler_entered :: "u64 \<Rightarrow> ('s, 'z) cpu_scheme \<Rightarrow> ('s, 'z) cpu_scheme \<Rightarrow> bool" where
  "handler_entered sp c c' \<longleftrightarrow> cpl c' = 0 \<and> rflags c' AND INTERRUPT_FLAG = 0 \<and> ksys c' = ksys c \<and>
     regs c' RSP \<in> {sp - 40, sp - 48} \<and> (\<forall>r. r \<noteq> RSP \<longrightarrow> regs c' r = regs c r) \<and>
     cells c' (sp - 40) = rip c \<and> cells c' (sp - 32) = cs c \<and> cells c' (sp - 24) = rflags c \<and>
     cells c' (sp - 16) = regs c RSP \<and> cells c' (sp - 8) = ss c \<and>
     (\<forall>a. a \<notin> set [sp - 8, sp - 16, sp - 24, sp - 32, sp - 40, sp - 48] \<longrightarrow> cells c' a = cells c a)"

lemma handler_state_entered: "handler_entered sp c (handler_state v code sp c)"
  by (auto simp: handler_entered_def handler_state_def Let_def and.assoc cpl_def)

lemma user_delivery:
  assumes "tables_loaded slots entry s1 s2 s3 c" and "stacks_mapped X (page_tbl (vmem (ksys c))) s1 s2 s3" and "cpl c = 3" and "v < 32"
  shows "\<exists>w s. (w, s) = (if v = 0 \<or> v = 3 then (v, s3) else if v = 14 then (14, s2) else (8, s1)) \<and>
    deliver X slots entry code v c = Handled (fst (the (vector_table w))) (handler_state w (code w) (stack_end s) c)"
proof -
  have "v = 0 \<or> v = 3 \<or> v = 8 \<or> v = 14 \<or> vector_table v = None"
    using assms(4) by (simp add: vector_table_def)
  then consider "v = 0 \<or> v = 3" | "v = 8" | "v = 14" | "vector_table v = None" by auto
  then show ?thesis
  proof cases
    case 1
    then show ?thesis using deliver_user [OF assms(1-3)] by (auto simp: vector_table_def)
  next
    case 2
    then show ?thesis using deliver_double_fault_eq [OF assms(1,2)] by (simp add: deliver_def vector_table_def)
  next
    case 3
    then show ?thesis using deliver_page_fault_eq [OF assms(1,2)] by (simp add: deliver_def vector_table_def)
  next
    case 4
    then have "v \<noteq> 0 \<and> v \<noteq> 3 \<and> v \<noteq> 14" by (auto simp: vector_table_def split: if_splits)
    then show ?thesis using deliver_absent [OF assms(1,2) 4] by (simp add: vector_table_def)
  qed
qed

text \<open>The breakpoint handler runs on the interrupted stack, from its end \<open>sp\<close> rounded down.\<close>

lemma aligned_below:
  assumes "sp = x AND NOT (0xF :: u64)" and "64 \<le> unat sp" and "k \<in> {8, 16, 24, 32, 40, 48, 56, 64}"
  shows "unat (sp - k) = unat sp - unat k \<and> 8 dvd unat (sp - k)"
proof -
  have "16 dvd unat sp" unfolding assms(1) unat_align16 by simp
  then have "8 dvd unat sp" by (rule dvd_trans [rotated]) simp
  moreover have k: "8 dvd unat k" "unat k \<le> 64" using assms(3) by auto
  moreover have "unat (sp - k) = unat sp - unat k" using unat_sub_fits [of k sp] assms(2) k(2) by linarith
  ultimately show ?thesis by (simp add: dvd_diff_nat)
qed

lemma breakpoint_runs:
  assumes c: "cpl c = 0" and sp: "sp = regs c RSP AND NOT 0xF" and lo: "unat lo + 64 \<le> unat sp"
    and f: "callee ''my_write'' = sysv_call lo jr jm f"
    and v: "f (regs c RDI) (regs c RSI) (regs c RDX) (regs c RCX) (regs c R8) (regs c R9) (ksys c) = Ret (v, s')"
  shows "\<exists>c'. run_code callee breakpoint_handler (handler_state 3 code sp c) = Ret c' \<and> ksys c' = s' \<and>
    rip c' = rip c \<and> cs c' = cs c \<and> rflags c' = rflags c \<and> ss c' = ss c \<and>
    (\<forall>q \<in> callee_saved \<union> {R10, R11}. regs c' q = regs c q) \<and>
    (\<forall>a. unat sp \<le> unat a \<or> unat a < unat lo \<longrightarrow> cells c' a = cells c a)"
proof -
  have "64 \<le> unat sp" using lo by simp
  note al = aligned_below [OF sp this]
  have d: "8 dvd unat (sp - 8)" "8 dvd unat (sp - 16)" "8 dvd unat (sp - 24)" "8 dvd unat (sp - 32)" "8 dvd unat (sp - 40)"
    "8 dvd unat (sp - 48)" "8 dvd unat (sp - 56)" "8 dvd unat (sp - 64)" using al by blast+
  have u: "unat (sp - 8) = unat sp - 8" "unat (sp - 16) = unat sp - 16" "unat (sp - 24) = unat sp - 24"
    "unat (sp - 32) = unat sp - 32" "unat (sp - 40) = unat sp - 40" "unat (sp - 48) = unat sp - 48"
    "unat (sp - 56) = unat sp - 56" "unat (sp - 64) = unat sp - 64" using al by (auto dest: conjunct1)
  have j: "\<not> sp - k < sp - 64" if "k \<in> {8, 16, 24, 32, 40, 48, 56, 64}" for k
    using that lo u by (auto simp: word_less_nat_alt)
  let ?frame = "[sp - 8, sp - 16, sp - 24, sp - 32, sp - 40, sp - 48, sp - 56, sp - 64]"
  have b: "\<forall>x \<in> set ?frame. unat lo \<le> unat x \<and> unat x < unat sp" 
    using lo by (simp add: u) (intro conjI; linarith)
  have out: "a \<notin> set ?frame \<and> \<not> (lo \<le> a \<and> a < sp - 64)" if a: "unat sp \<le> unat a \<or> unat a < unat lo" for a
  proof
    show "a \<notin> set ?frame" using b a by (metis linorder_not_le)
    show "\<not> (lo \<le> a \<and> a < sp - 64)" using a u(8) unfolding word_le_nat_alt word_less_nat_alt by linarith
  qed
  have n: "\<not> has_error_code 3" by (simp add: has_error_code_def)
  have "\<exists>c'. run_code callee breakpoint_handler (handler_state 3 code sp c) = Ret c' \<and> ksys c' = s' \<and>
    rip c' = rip c \<and> cs c' = cs c \<and> rflags c' = rflags c \<and> ss c' = ss c \<and>
    (\<forall>q \<in> callee_saved \<union> {R10, R11}. regs c' q = regs c q) \<and>
    (\<forall>a. a \<notin> set ?frame \<and> \<not> (lo \<le> a \<and> a < sp - 64) \<longrightarrow> cells c' a = cells c a)"
    using d j v
    by (simp add: breakpoint_handler_def handler_state_def n exec_defs iretq_def set_reg_def f sysv_call_def callee_saved_def)
  then show ?thesis using out by blast
qed

text \<open>
  The handler calls \<^verbatim>\<open>my_write\<close> with a stack pointer that is 8 off the alignment to 16 bytes that the
  System V convention asks for at a call.
\<close>

lemma breakpoint_call_misaligned:
  assumes "sp = regs c RSP AND NOT 0xF" and "64 \<le> unat sp"
  shows "\<exists>c'. run_code callee (take 2 breakpoint_handler) (handler_state 3 code sp c) = Ret c' \<and> unat (regs c' RSP) mod 16 = 8 \<and>
    drop 2 breakpoint_handler = CALL ''my_write'' # drop 3 breakpoint_handler"
proof -
  note al = aligned_below [OF assms]
  have d: "8 dvd unat (sp - 48)" "8 dvd unat (sp - 56)" using al by blast+
  obtain k where k: "unat sp = k * 16" using unat_align16 [of "regs c RSP"] unfolding assms(1) by blast
  have "unat (sp - 56) = unat sp - 56" using al [of 56] by simp
  also have "\<dots> = 8 + 16 * (k - 4)" using assms(2) unfolding k by simp
  finally have "unat (sp - 56) mod 16 = 8" by simp
  then show ?thesis using d
    by (simp add: breakpoint_handler_def handler_state_def has_error_code_def exec_defs set_reg_def numeral_2_eq_2 numeral_3_eq_3)
qed

text \<open>The division by zero is reported, and its handler does not return.\<close>

lemma crash_by_div_reported:
  assumes "tables_loaded slots entry s1 s2 s3 c" and "cpl c = 0"
    and "frame_room X (page_tbl (vmem (ksys c))) (regs c RSP AND NOT 0xF)"
    and "irq_docs I" and "lock_docs L" and "kernel_ok (ksys c)"
  shows "crash_by_div X slots entry code I L frame c = (Diverge :: 'r outcome) \<and>
    (\<exists>s. println I L (str ''got divide error!: '' # frame) (ksys c) = Ret s)"
proof -
  let ?c = "set_reg R11 0 (set_reg RAX 0 c)"
  have t: "tables_loaded slots entry s1 s2 s3 ?c"
    using assms(1) by (rule gates_loaded_cong [rotated 3]) (simp_all add: set_reg_def)
  have st: "handler_stack (kernel_tss s1 s2 s3) None ?c = regs c RSP AND NOT 0xF"
    using assms(2) by (simp add: handler_stack_def)
  have v: "vector_table 0 = Some (h_divide_error, None)" by (simp add: vector_table_def)
  have "deliver X slots entry code 0 ?c = Handled h_divide_error (handler_state 0 (code 0) (regs c RSP AND NOT 0xF) ?c)"
    using enter_handler_eq [OF t v, of X code] assms(3) unfolding st by (simp add: deliver_def deliver_contributory_def)
  moreover obtain s where "println I L (str ''got divide error!: '' # frame) (ksys c) = Ret s"
    using assms(6) print_eq [OF assms(4,5), of "ksys c"] unfolding kernel_ok_def println_def by blast
  ultimately show ?thesis by (simp add: crash_by_div_def div_instr_def divide_error_handler_def Let_def)
qed

section \<open>A concrete processor\<close>

text \<open>Every page is mapped to the frame of the same number; the processor is in user mode after the tables are loaded.\<close>

definition fault_cpu :: "((Page \<rightharpoonup> PhysFrame \<times> PageTableFlags) kernel, Descriptor option list, nat \<Rightarrow> (handler \<times> nat option) option) seg_cpu" where
  "fault_cpu = \<lparr>regs = (\<lambda>_. 0)(RSP := 0x18008, RDI := 0x500, RSI := 2), rip = 0x660000, rflags = 0x202, cs = 0x08, ss = 0x10,
     gs_base = 7, kernel_gs_base = 0, star = 0, lstar = 0, sfmask = 0, efer_sce = False, cr4_fsgsbase = False, cells = (\<lambda>_. 0),
     ksys = demo_kernel\<lparr>vmem := \<lparr>page_tbl = (\<lambda>p. Some (p, {PRESENT, WRITABLE})), phys = (\<lambda>_. 0x41)\<rparr>\<rparr>,
     ds = 0, gs = 0, tr = 0, gdtr = None, idtr = None\<rparr>"

lemma fault_cpu_writes: "kernel_writes boot_paging (\<lambda>p. Some (p, {PRESENT, WRITABLE})) a"
  by (simp add: kernel_writes_def std_translate_def)

lemma fault_cpu_stacks: "stacks_mapped boot_paging (page_tbl (vmem (ksys fault_cpu))) 0x10000 0x20000 0x30000"
    "frame_room boot_paging (page_tbl (vmem (ksys fault_cpu))) sp"
  using demo_stacks fault_cpu_writes by (simp_all add: stacks_mapped_def fault_cpu_def frame_room_def)

lemma fault_cpu_init:
  obtains k where "obind (gdt_init boot_paging list_gdt std_star (Some True) 0x10000 0x20000 0x30000 fault_cpu) (init_idt map_idt) = Ret k"
    and "tables_loaded (\<lambda>g. g) (\<lambda>t. t) 0x10000 0x20000 0x30000 k" and "ksys k = ksys fault_cpu" and "cpl k = 0" and "regs k = regs fault_cpu"
proof -
  obtain g v where g: "gdt_init boot_paging list_gdt std_star (Some True) 0x10000 0x20000 0x30000 fault_cpu = Ret (fault_cpu\<lparr>gdtr := Some g,
      cs := 0x08, ds := 0x10, gs := 0x38, gs_base := 0, star := v, tr := 0x28\<rparr>)" (is "_ = Ret ?k")
    by (rule gdt_init_eq [OF boot_docs(1) list_gdt_docs std_star_docs demo_stacks])
  then have r: "obind (gdt_init boot_paging list_gdt std_star (Some True) 0x10000 0x20000 0x30000 fault_cpu) (init_idt map_idt) =
      Ret (?k\<lparr>idtr := Some vector_table\<rparr>)" by (simp add: init_idt_def map_idt_IDT)
  show thesis
    by (rule that [OF r init_tables [OF boot_docs(1) list_gdt_docs std_star_docs demo_stacks map_idt_docs r]]) (simp_all add: cpl_def)
qed

section \<open>The properties of the component\<close>

text \<open>C13. A user program cannot reset the machine with an exception: after \<^verbatim>\<open>gdt_init\<close> and \<^verbatim>\<open>init_idt\<close>, with
  the stacks of \<^verbatim>\<open>gdt.rs\<close> mapped, every exception that occurs in user mode, whatever the program has
  put in its registers, the stack pointer included, enters a handler of the kernel: division by zero
  and breakpoint on the third stack, page faults on the second, and all others as a double fault on
  the first. The handler runs at level 0 with interrupts off, its frame holds the program's
  instruction pointer, stack pointer, flags and code segment, and nothing else of memory has changed.
  A breakpoint instruction of a user program is one of those that end as a double fault.\<close>

theorem user_exceptions_handled:
  assumes "addr_docs X" and "gdt_docs G slots" and "star_docs S" and "idt_docs T entry"
    and "obind (gdt_init X G S (Some True) s1 s2 s3 k) (init_idt T) = Ret k'"
    and "stacks_mapped X (page_tbl (vmem (ksys c))) s1 s2 s3"
    and "gdtr c = gdtr k'" and "idtr c = idtr k'" and "tr c = tr k'" and "cpl c = 3" and "v < 32"
  shows "(\<exists>h s c'. deliver X slots entry code v c = Handled h c' \<and> handler_entered (stack_end s) c c' \<and>
      (h, s) = (if v = 0 then (h_divide_error, s3) else if v = 3 then (h_breakpoint, s3)
        else if v = 14 then (h_page_fault, s2) else (h_double_fault, s1))) \<and>
    (\<exists>c'. int3 X slots entry code c = Handled h_double_fault c')"
proof -
  have o: "stack_ok s1" "stack_ok s2" "stack_ok s3" using assms(6) by (simp_all add: stacks_mapped_def)
  have t: "tables_loaded slots entry s1 s2 s3 c"
    using init_tables [OF assms(1-3) o assms(4,5)] gates_loaded_cong assms(7-9) by blast
  note u = user_delivery [OF t assms(6,10), of _ code]
  have i: "\<exists>c'. int3 X slots entry code c = Handled h_double_fault c'"
    using u [of 13] assms(10) by (simp add: int3_def vector_table_def)
  obtain w s where d: "(w, s) = (if v = 0 \<or> v = 3 then (v, s3) else if v = 14 then (14, s2) else (8, s1))"
    "deliver X slots entry code v c = Handled (fst (the (vector_table w))) (handler_state w (code w) (stack_end s) c)"
    using u [OF assms(11)] by blast
  have "(fst (the (vector_table w)), s) = (if v = 0 then (h_divide_error, s3) else if v = 3 then (h_breakpoint, s3)
      else if v = 14 then (h_page_fault, s2) else (h_double_fault, s1))"
    using d(1) by (auto simp: vector_table_def split: if_splits)
  with d(2) handler_state_entered i show ?thesis by blast
qed

theorem user_exceptions_handled_witness:
  "\<exists>(c :: ((Page \<rightharpoonup> PhysFrame \<times> PageTableFlags) kernel, Descriptor option list, nat \<Rightarrow> (handler \<times> nat option) option) seg_cpu) c'.
    cpl c = 3 \<and> regs c RSP = 5 \<and> deliver boot_paging (\<lambda>g. g) (\<lambda>t. t) (\<lambda>_. 0) 6 c = Handled h_double_fault c' \<and>
    handler_entered (stack_end 0x10000) c c'"
proof -
  obtain k where k: "obind (gdt_init boot_paging list_gdt std_star (Some True) 0x10000 0x20000 0x30000 fault_cpu) (init_idt map_idt) = Ret k"
    "tables_loaded (\<lambda>g. g) (\<lambda>t. t) 0x10000 0x20000 0x30000 k" "ksys k = ksys fault_cpu" "cpl k = 0" "regs k = regs fault_cpu"
    by (rule fault_cpu_init)
  let ?c = "k\<lparr>cs := 0x23, regs := (regs k)(RSP := 5)\<rparr>"
  have m: "stacks_mapped boot_paging (page_tbl (vmem (ksys ?c))) 0x10000 0x20000 0x30000" using fault_cpu_stacks(1) k(3) by simp
  have c: "gdtr ?c = gdtr k" "idtr ?c = idtr k" "tr ?c = tr k" "cpl ?c = 3" "regs ?c RSP = 5" "(6 :: nat) < 32" by (simp_all add: cpl_def)
  from user_exceptions_handled [OF boot_docs(1) list_gdt_docs std_star_docs map_idt_docs k(1) m c(1-4,6), of "\<lambda>_. 0"]
  obtain c' where "deliver boot_paging (\<lambda>g. g) (\<lambda>t. t) (\<lambda>_. 0) 6 ?c = Handled h_double_fault c'" "handler_entered (stack_end 0x10000) ?c c'"
    by auto
  with c(4,5) show ?thesis by blast
qed



text \<open>C26. The breakpoint prints and comes back: \<^verbatim>\<open>int3\<close> in kernel code with the address and the length of a text
  in the first two argument registers enters \<^verbatim>\<open>breakpoint_handler\<close>, which prints the text and returns
  to the next instruction with the same stack pointer, flags and segments and with \<^verbatim>\<open>r10\<close>, \<^verbatim>\<open>r11\<close> and the
  preserved registers as before; of memory only the free part of the stack has changed.\<close>

theorem breakpoint_prints:
  assumes "tables_loaded slots entry s1 s2 s3 c" and "cpl c = 0" and "sp = regs c RSP AND NOT 0xF"
    and "frame_room X (page_tbl (vmem (ksys c))) sp" and "unat lo + 64 \<le> unat sp"
    and "irq_docs I" and "lock_docs L" and "kernel_ok (ksys c)"
    and "vread_slice X (vmem (ksys c)) (regs c RDI) (unat (regs c RSI)) = Ret bs" and "valid_utf8 bs"
  shows "\<exists>c1 c'. int3 X slots entry code c = Handled h_breakpoint c1 \<and>
    run_code (breakpoint_functions X I L lo jr jm) breakpoint_handler c1 = Ret c' \<and>
    ksys c' = (ksys c)\<lparr>WRITER := fold (\<lambda>b. byte_written (sanitize b)) bs (WRITER (ksys c))\<rparr> \<and>
    rip c' = rip c \<and> cs c' = cs c \<and> rflags c' = rflags c \<and> ss c' = ss c \<and>
    (\<forall>q \<in> callee_saved \<union> {R10, R11}. regs c' q = regs c q) \<and>
    (\<forall>a. unat sp \<le> unat a \<or> unat a < unat lo \<longrightarrow> cells c' a = cells c a)"
proof -
  let ?f = "\<lambda>ptr len _ _ _ _ s. obind (my_write X I L ptr len s) (\<lambda>s. Ret (0 :: u64, s))"
  let ?s = "(ksys c)\<lparr>WRITER := fold (\<lambda>b. byte_written (sanitize b)) bs (WRITER (ksys c))\<rparr>"
  have v: "vector_table 3 = Some (h_breakpoint, None)" by (simp add: vector_table_def)
  have st: "handler_stack (kernel_tss s1 s2 s3) None c = sp" using assms(2,3) by (simp add: handler_stack_def)
  have i: "int3 X slots entry code c = Handled h_breakpoint (handler_state 3 (code 3) sp c)"
    using enter_handler_eq [OF assms(1) v, of X code] assms(2,4) unfolding st by (simp add: int3_def deliver_def)
  have "print I L [bs] (ksys c) = Ret ?s"
    using assms(8) print_eq [OF assms(6,7), of "ksys c" "[bs]"] by (simp add: kernel_ok_def)
  then have w: "?f (regs c RDI) (regs c RSI) (regs c RDX) (regs c RCX) (regs c R8) (regs c R9) (ksys c) = Ret (0, ?s)"
    using assms(9,10) by (simp add: my_write_def from_utf8_def)
  have f: "breakpoint_functions X I L lo jr jm ''my_write'' = sysv_call lo jr jm ?f" by (simp add: breakpoint_functions_def [abs_def])
  from breakpoint_runs [where callee = "breakpoint_functions X I L lo jr jm", OF assms(2,3,5) f w, of "code 3"] i
  show ?thesis by blast
qed

theorem breakpoint_prints_witness:
  "\<exists>(c :: ((Page \<rightharpoonup> PhysFrame \<times> PageTableFlags) kernel, Descriptor option list, nat \<Rightarrow> (handler \<times> nat option) option) seg_cpu) c1 c'.
    int3 boot_paging (\<lambda>g. g) (\<lambda>t. t) (\<lambda>_. 0) c = Handled h_breakpoint c1 \<and>
    run_code (breakpoint_functions boot_paging std_irq std_lock 0x10000 (\<lambda>_ _. 0xbad) (\<lambda>_ _. 0xbad)) breakpoint_handler c1 = Ret c' \<and>
    regs c' RSP = 0x18008 \<and> WRITER (ksys c') = fold (\<lambda>b. byte_written (sanitize b)) [0x41, 0x41] demo_writer"
proof -
  obtain k where k: "obind (gdt_init boot_paging list_gdt std_star (Some True) 0x10000 0x20000 0x30000 fault_cpu) (init_idt map_idt) = Ret k"
    "tables_loaded (\<lambda>g. g) (\<lambda>t. t) 0x10000 0x20000 0x30000 k" "ksys k = ksys fault_cpu" "cpl k = 0" "regs k = regs fault_cpu"
    by (rule fault_cpu_init)
  have w: "WRITER (ksys fault_cpu) = demo_writer" by (simp add: fault_cpu_def demo_kernel_def)
  have ok: "kernel_ok (ksys k)" using demo_env(2) unfolding k(3) by (simp add: fault_cpu_def kernel_ok_def)
  have sp: "0x18000 = regs k RSP AND NOT 0xF" unfolding k(5) by (simp add: fault_cpu_def)
  have r: "frame_room boot_paging (page_tbl (vmem (ksys k))) 0x18000" unfolding k(3) by (rule fault_cpu_stacks)
  have two: "unat (regs k RSI) = Suc (Suc 0)" unfolding k(5) by (simp add: fault_cpu_def)
  have "vread_slice boot_paging (vmem (ksys k)) (regs k RDI) (unat (regs k RSI)) = Ret [0x41, 0x41]"
    unfolding two k(3) by (simp add: fault_cpu_def vread_def std_translate_def)
  from breakpoint_prints [OF k(2,4) sp r _ std_irq_docs std_lock_docs ok this, of "0x10000" "\<lambda>_. 0" "\<lambda>_ _. 0xbad" "\<lambda>_ _. 0xbad"]
  obtain c1 c' where "int3 boot_paging (\<lambda>g. g) (\<lambda>t. t) (\<lambda>_. 0) k = Handled h_breakpoint c1"
    "run_code (breakpoint_functions boot_paging std_irq std_lock 0x10000 (\<lambda>_ _. 0xbad) (\<lambda>_ _. 0xbad)) breakpoint_handler c1 = Ret c'"
    "ksys c' = (ksys k)\<lparr>WRITER := fold (\<lambda>b. byte_written (sanitize b)) [0x41, 0x41] (WRITER (ksys k))\<rparr>"
    "\<forall>q \<in> callee_saved \<union> {R10, R11}. regs c' q = regs k q" by auto
  moreover have "regs k RSP = 0x18008" unfolding k(5) by (simp add: fault_cpu_def)
  ultimately show ?thesis using w k(3) by (intro exI [of _ k] exI [of _ c1] exI [of _ c']) simp
qed

end
