(* ===== verification/Integration_Tests.thy ===== *)
theory Integration_Tests
  imports Unit_Tests Exceptions
begin

text \<open>
  The other integration tests, each a kernel of its own (\<^verbatim>\<open>kernel/tests/basic_boot.rs\<close>,
  \<^verbatim>\<open>kernel/tests/should_panic.rs\<close> and \<^verbatim>\<open>kernel/tests/stack_overflow.rs\<close>). The properties: the stack overflow
  always ends in the handler of the double fault, on its own stack, and is reported; a panic ends
  a test the way its kernel expects, with success or with failure.
\<close>

section \<open>basic_boot\<close>

definition test_println :: "'a console_scheme irq_api \<Rightarrow> 'a lock_fn \<Rightarrow> 'a console_scheme \<Rightarrow> 'a console_scheme outcome" where
  "test_println X L = println X L [str ''test_println output'']"

text \<open>The harness passes the tests to \<^verbatim>\<open>test_runner\<close>; after it comes an empty loop.\<close>

definition basic_boot_start :: "('pt, 'u, 'z) serial_scheme irq_api \<Rightarrow> ('pt, ('u, 'z) serial_ext) kernel_ext lock_fn
    \<Rightarrow> ('u, ('pt, 'u, 'z) serial_scheme) uart_api \<Rightarrow> ('pt, 'u, 'z) serial_scheme \<Rightarrow> 'r outcome" where
  "basic_boot_start X L U s =
     obind (test_runner X U [(''basic_boot::test_println'', test_println X L)] s :: ('pt, 'u, 'z) serial_scheme outcome) (\<lambda>_. Diverge)"

section \<open>should_panic\<close>

text \<open>A panic at a point of the program runs the panic handler on the state at that point.\<close>

definition on_panic :: "('s \<Rightarrow> 'r outcome) \<Rightarrow> 's \<Rightarrow> 'r outcome \<Rightarrow> 'r outcome" where
  "on_panic h s r = (case r of Panic \<Rightarrow> h s | _ \<Rightarrow> r)"

definition should_panic_panic :: "('pt, 'u, 'z) serial_scheme irq_api \<Rightarrow> ('u, ('pt, 'u, 'z) serial_scheme) uart_api
    \<Rightarrow> ('pt, 'u, 'z) serial_scheme \<Rightarrow> 'r outcome" where
  "should_panic_panic X U s = obind (serial_println X U [str ''[ok]''] s) (exit_qemu X (exit_port_write U) Success)"

definition should_fail :: "('pt, 'u, 'z) serial_scheme irq_api \<Rightarrow> ('u, ('pt, 'u, 'z) serial_scheme) uart_api
    \<Rightarrow> ('pt, 'u, 'z) serial_scheme \<Rightarrow> ('pt, 'u, 'z) serial_scheme outcome" where
  "should_fail X U s =
     obind (serial_print X U [str ''should_panic::should_fail...'', [0x09]] s) (\<lambda>s.
     on_panic (should_panic_panic X U) s (assert_eq (0 :: 32 word) 1 s))"

definition should_panic_start :: "('pt, 'u, 'z) serial_scheme irq_api \<Rightarrow> ('u, ('pt, 'u, 'z) serial_scheme) uart_api
    \<Rightarrow> ('pt, 'u, 'z) serial_scheme \<Rightarrow> 'r outcome" where
  "should_panic_start X U s =
     obind (should_fail X U s) (\<lambda>s.
     obind (serial_println X U [str ''[test did not panic]''] s) (exit_qemu X (exit_port_write U) Failed))"

section \<open>stack_overflow\<close>

definition TEST_IDT :: "'t idt_api \<Rightarrow> 't outcome" where
  "TEST_IDT T =
     obind (set_handler_fn T double_fault h_test_double_fault (idt_new T)) (\<lambda>idt.
     Ret (set_stack_index T double_fault DOUBLE_FAULT_STACK_INDEX idt))"

definition init_test_idt :: "'t idt_api \<Rightarrow> ('s, 'g, 't, 'z) seg_cpu_scheme \<Rightarrow> ('s, 'g, 't, 'z) seg_cpu_scheme outcome" where
  "init_test_idt T c = obind (TEST_IDT T) (\<lambda>idt. Ret (c\<lparr>idtr := Some idt\<rparr>))"

text \<open>
  The recursion: a call pushes the return address \<open>ret\<close>, and the function reserves \<open>frame\<close> bytes of stack
  before it calls itself. It goes on until a push faults; \<open>None\<close> would mean that none ever does.
\<close>

partial_function (option) stack_overflow :: "('pt, 'fa) paging \<Rightarrow> ('g \<Rightarrow> Descriptor option list)
    \<Rightarrow> ('t \<Rightarrow> nat \<Rightarrow> (handler \<times> nat option) option) \<Rightarrow> (nat \<Rightarrow> u64) \<Rightarrow> u64 \<Rightarrow> u64
    \<Rightarrow> (('pt, 'k) kernel_scheme, 'g, 't, 'z) seg_cpu_scheme \<Rightarrow> (('pt, 'k) kernel_scheme, 'g, 't, 'z) seg_cpu_scheme delivery option" where
  "stack_overflow X slots entry code ret frame c =
     (let sp = regs c RSP - 8 in
      if kernel_writes X (page_tbl (vmem (ksys c))) sp
      then stack_overflow X slots entry code ret frame (c\<lparr>regs := (regs c)(RSP := sp - frame), cells := (cells c)(sp := ret)\<rparr>)
      else Some (deliver X slots entry code 14 c))"

definition test_double_fault_handler :: "('pt, 'u, 'z) serial_scheme irq_api \<Rightarrow> ('u, ('pt, 'u, 'z) serial_scheme) uart_api
    \<Rightarrow> ('pt, 'u, 'z) serial_scheme \<Rightarrow> 'r outcome" where
  "test_double_fault_handler I U s =
     obind (serial_println I U [str ''[ok]''] s) (\<lambda>s.
     obind (exit_qemu I (exit_port_write U) Success s) (hlt_loop I))"

text \<open>Nothing follows the call of \<^verbatim>\<open>stack_overflow\<close>: it cannot return, and an exception that finds no handler resets the machine.\<close>

definition stack_overflow_start :: "('pt, 'u, 'k) serial_scheme irq_api \<Rightarrow> ('u, ('pt, 'u, 'k) serial_scheme) uart_api
    \<Rightarrow> ('pt, ('u, 'k) serial_ext, 'g, 't) boot_platform \<Rightarrow> ('g \<Rightarrow> Descriptor option list)
    \<Rightarrow> ('t \<Rightarrow> nat \<Rightarrow> (handler \<times> nat option) option) \<Rightarrow> (nat \<Rightarrow> u64) \<Rightarrow> u64 \<Rightarrow> u64
    \<Rightarrow> ('pt, ('u, 'k) serial_ext, 'g, 't) boot_cpu \<Rightarrow> 'r outcome" where
  "stack_overflow_start I U M slots entry code ret frame c =
     obind (serial_print I U [str ''stack_overflow::stack_overflow...'', [0x09]] (ksys c)) (\<lambda>s.
     obind (gdt_init (p_paging M) (p_gdt M) (p_star M) (p_has_fsgsbase M) (p_stack1 M) (p_stack2 M) (p_stack3 M) (c\<lparr>ksys := s\<rparr>)) (\<lambda>c.
     obind (init_test_idt (p_idt M) c) (\<lambda>c.
     case stack_overflow (p_paging M) slots entry code ret frame c of
       Some (Handled h_test_double_fault c) \<Rightarrow> test_double_fault_handler I U (ksys c)
     | Some _ \<Rightarrow> UB
     | None \<Rightarrow> Diverge)))"

section \<open>Facts\<close>

abbreviation test_vectors :: "nat \<Rightarrow> (handler \<times> nat option) option" where
  "test_vectors \<equiv> [8 \<mapsto> (h_test_double_fault, Some 0)]"

lemma TEST_IDT_ok:
  assumes "idt_docs T entry" shows "\<exists>t. TEST_IDT T = Ret t \<and> entry t = test_vectors"
proof -
  obtain t where t: "set_handler_fn T double_fault h_test_double_fault (idt_new T) = Ret t"
    "entry t = (entry (idt_new T))(8 \<mapsto> (h_test_double_fault, None))"
    using set_handlerE [OF assms, of double_fault 8] by auto
  moreover have "entry (idt_new T) = Map.empty" using assms by (auto simp: idt_docs_def)
  moreover have "entry (set_stack_index T double_fault 0 t) = (entry t)(8 \<mapsto> (h_test_double_fault, Some 0))"
    using set_stack_entry [OF assms, of double_fault 8 0 t h_test_double_fault] t(2) by simp
  ultimately show ?thesis by (simp add: TEST_IDT_def DOUBLE_FAULT_STACK_INDEX_def)
qed

text \<open>The page below the stack is not mapped for writing.\<close>

definition guarded :: "('pt, 'fa) paging \<Rightarrow> 'pt \<Rightarrow> u64 \<Rightarrow> bool" where
  "guarded X pt lo \<longleftrightarrow> 4096 \<le> unat lo \<and> (\<forall>a. unat lo - 4096 \<le> unat a \<and> unat a < unat lo \<longrightarrow> \<not> kernel_writes X pt a)"

lemma stack_overflow_faults:
  assumes "guarded X (page_tbl (vmem (ksys c))) lo" and "unat frame \<le> 4088" and "unat lo - 4088 \<le> unat (regs c RSP)"
  shows "\<exists>r m. stack_overflow X slots entry code ret frame c = Some (deliver X slots entry code 14 (c\<lparr>regs := r, cells := m\<rparr>))"
  using assms
proof (induction "unat (regs c RSP)" arbitrary: c rule: less_induct)
  case less
  let ?pt = "page_tbl (vmem (ksys c))" and ?sp = "regs c RSP - 8"
  have lo: "4096 \<le> unat lo" using less.prems(1) by (simp add: guarded_def)
  have sp: "unat ?sp = unat (regs c RSP) - 8" using less.prems(3) lo by (intro unat_sub_fits [of 8 "regs c RSP", simplified]) simp
  show ?case
  proof (cases "kernel_writes X ?pt ?sp")
    case False
    then have "stack_overflow X slots entry code ret frame c = Some (deliver X slots entry code 14 (c\<lparr>regs := regs c, cells := cells c\<rparr>))"
      by (subst stack_overflow.simps) (simp add: Let_def)
    then show ?thesis by blast
  next
    case True
    have "unat lo - 4096 \<le> unat ?sp" using less.prems(3) sp by linarith
    then have ge: "unat lo \<le> unat ?sp" using less.prems(1) True by (auto simp: guarded_def not_less [symmetric])
    let ?c = "c\<lparr>regs := (regs c)(RSP := ?sp - frame), cells := (cells c)(?sp := ret)\<rparr>"
    have s2: "unat (?sp - frame) = unat ?sp - unat frame" using ge lo less.prems(2) by (intro unat_sub_fits) linarith
    have "unat (regs ?c RSP) < unat (regs c RSP)" "unat lo - 4088 \<le> unat (regs ?c RSP)"
      using s2 sp ge lo less.prems(2,3) by simp_all
    then obtain r m where "stack_overflow X slots entry code ret frame ?c = Some (deliver X slots entry code 14 (?c\<lparr>regs := r, cells := m\<rparr>))"
      using less.hyps [of ?c] less.prems(1,2) by auto
    moreover have "stack_overflow X slots entry code ret frame c = stack_overflow X slots entry code ret frame ?c"
      using True by (subst stack_overflow.simps) (simp add: Let_def)
    ultimately show ?thesis by (intro exI [of _ r] exI [of _ m]) simp
  qed
qed

text \<open>With the gates of the test the page fault becomes a double fault.\<close>

lemma overflow_delivered:
  assumes "gates_loaded test_vectors slots entry s1 s2 s3 c" and "stacks_mapped X (page_tbl (vmem (ksys c))) s1 s2 s3"
  shows "deliver X slots entry code 14 c = Handled h_test_double_fault (handler_state 8 (code 8) (stack_end s1) c)"
  using enter_handler_absent [OF assms(1), of 14 X code] deliver_double_fault_gate [OF assms, of h_test_double_fault code]
  by (simp add: deliver_def deliver_page_fault_def)

lemma test_tables:
  assumes "platform_docs M slots entry" and "platform_ok M boot_info"
  shows "\<exists>c'. obind (gdt_init (p_paging M) (p_gdt M) (p_star M) (p_has_fsgsbase M) (p_stack1 M) (p_stack2 M) (p_stack3 M) c)
      (init_test_idt (p_idt M)) = Ret c' \<and> gates_loaded test_vectors slots entry (p_stack1 M) (p_stack2 M) (p_stack3 M) c' \<and>
    ksys c' = ksys c \<and> regs c' = regs c"
proof -
  note d = platform_docsD [OF assms(1)]
  have o: "p_has_fsgsbase M = Some True" "stack_ok (p_stack1 M)" "stack_ok (p_stack2 M)" "stack_ok (p_stack3 M)"
    using assms(2) by (simp_all add: platform_ok_def)
  obtain g v where g: "gdt_init (p_paging M) (p_gdt M) (p_star M) (Some True) (p_stack1 M) (p_stack2 M) (p_stack3 M) c =
      Ret (c\<lparr>gdtr := Some g, cs := 0x08, ds := 0x10, gs := 0x38, gs_base := 0, star := v, tr := 0x28\<rparr>)"
    "slots g = [None, Some kernel_code_segment, Some kernel_data_segment, Some user_data_segment, Some user_code_segment,
      Some (tss_segment (kernel_tss (p_stack1 M) (p_stack2 M) (p_stack3 M))), None, Some kernel_data_segment]"
    "star_sysret v = 0x13" "star_syscall v = 0x08"
    by (rule gdt_init_eq [OF d(1,4,5) o(2-4)])
  obtain t where "TEST_IDT (p_idt M) = Ret t" "entry t = test_vectors" using TEST_IDT_ok [OF d(6)] by blast
  then show ?thesis using g(1,2) o(1) by (auto simp: init_test_idt_def gates_loaded_def segment_def)
qed

lemma serial_println_eq:
  assumes "irq_docs X" and "uart_docs U send" and "\<not> serial_locked s"
  shows "serial_println X U args s = Ret (s\<lparr>SERIAL1 := fold send (concat args @ [0x0a]) (SERIAL1 s)\<rparr>)"
  using serial_print_eq [OF assms] by (simp add: serial_println_def)

section \<open>The properties\<close>


text \<open>A kernel whose stack ends above an unmapped page.\<close>

definition guard_table :: "Page \<rightharpoonup> PhysFrame \<times> PageTableFlags" where
  "guard_table p = (if p = 0x16000 then None else Some (p, {PRESENT, WRITABLE}))"

definition guard_kernel :: "(Page \<rightharpoonup> PhysFrame \<times> PageTableFlags, u8 list) serial" where
  "guard_kernel = demo_serial\<lparr>vmem := \<lparr>page_tbl = guard_table, phys = (\<lambda>_. 0)\<rparr>\<rparr>"

lemma guard_writes: "kernel_writes boot_paging guard_table a \<longleftrightarrow> \<not> (0x16000 \<le> unat a \<and> unat a < 0x17000)"
proof -
  have p: "n div 4096 * 4096 = 0x16000 \<longleftrightarrow> 0x16000 \<le> n \<and> n < 0x17000" for n :: nat
  proof -
    have "n div 4096 * 4096 = 0x16000 \<longleftrightarrow> n div 4096 = 22" by simp
    also have "\<dots> \<longleftrightarrow> 22 * 4096 \<le> n \<and> n < 23 * 4096" by (auto simp: div_nat_eqI)
    finally show ?thesis by simp
  qed
  have "align_down_4k a = 0x16000 \<longleftrightarrow> unat a div 4096 * 4096 = 0x16000"
    using unat_align_down [of a] by (simp add: word_unat_eq_iff)
  also have "\<dots> \<longleftrightarrow> 0x16000 \<le> unat a \<and> unat a < 0x17000" by (rule p)
  finally show ?thesis by (simp add: kernel_writes_def std_translate_def guard_table_def)
qed




end
