(* ===== verification/Spec2Isabelle.thy ===== *)
theory Spec2Isabelle
  imports Session Refinement Heap_Tests Integration_Tests Build
begin

text \<open>
  Zulu OS, a small x86-64 kernel in Rust, with its user library and its test program.

  \<^bold>\<open>The program.\<close> The bootloader enters \<^verbatim>\<open>_start\<close> (\<^verbatim>\<open>kernel/src/main.rs\<close>) with a map of the physical
  memory. \<^verbatim>\<open>init\<close> (\<^verbatim>\<open>kernel/src/lib.rs\<close>) loads the descriptor tables (\<^verbatim>\<open>gdt.rs\<close>, \<^verbatim>\<open>interrupts.rs\<close>) and
  sets up the \<^verbatim>\<open>syscall\<close> instruction (\<^verbatim>\<open>syscall/mod.rs\<close>); \<^verbatim>\<open>kernel_main\<close> then makes a mapper and a frame
  allocator (\<^verbatim>\<open>memory.rs\<close>), maps the kernel heap and gives it to the bump allocator
  (\<^verbatim>\<open>allocator/\<close>), puts the thread data in GS, maps a user stack, loads the embedded ELF program
  (\<^verbatim>\<open>elf/\<close>) and enters user mode. The program (\<^verbatim>\<open>userspace_test\<close>) calls the kernel through the library
  \<^verbatim>\<open>syscall\<close>; the handler (\<^verbatim>\<open>syscall/handler.rs\<close>) checks user pointers, prints to the screen
  (\<^verbatim>\<open>vga_buffer.rs\<close>) and returns. Beside this there are an executor for asynchronous tasks
  (\<^verbatim>\<open>task/\<close>), fed by the keyboard interrupt, and a test harness that reports on a serial port
  (\<^verbatim>\<open>serial.rs\<close>), with unit tests in the sources and four test kernels under \<^verbatim>\<open>kernel/tests/\<close>. The build
  script (\<^verbatim>\<open>kernel/build.rs\<close>) compiles the program and puts it where the kernel includes it from.

  \<^bold>\<open>The theories,\<close> each after the source it models.
  \<^item> \<open>Zulu_Prelude\<close>: machine integers, outcomes, arithmetic with and without overflow checks, \<^verbatim>\<open>for\<close>
    loops, \<^verbatim>\<open>core::fmt\<close>, UTF-8, the layout of structures, and the locales \<open>fmt_sink\<close> (a device that takes
    formatted output), \<open>inductive_invariant\<close> (an invariant of a step relation) and \<open>simulation\<close>, which extends it (a refinement of a specification).
  \<^item> \<open>Sys\<close> (\<^verbatim>\<open>sys.rs\<close>): the interrupt flag, halting, \<^verbatim>\<open>without_interrupts\<close>, \<^verbatim>\<open>wait_for_interrupts_if\<close>.
  \<^item> \<open>Vga\<close> (\<^verbatim>\<open>vga_buffer.rs\<close>): the writer and the global writer behind its lock. The copying loops are a
    scroll, and the screen refines a terminal: it shows the last 25 rows of everything written.
  \<^item> \<open>Bump\<close> (\<^verbatim>\<open>allocator/bump.rs\<close>): the allocator with its atomic operations as steps. Blocks in use never
    overlap whatever the interleaving; \<^verbatim>\<open>align_up\<close> is exact; what happens at the end of the heap.
  \<^item> \<open>Paging\<close>, \<open>Frames\<close> (\<^verbatim>\<open>memory.rs\<close>), \<open>Mapping_Loops\<close>, \<open>Kernel_Heap\<close> (\<^verbatim>\<open>allocator/mod.rs\<close>): the interface
    of the paging crate, the frame allocator, the locale \<open>frame_source\<close> with the mapping loop proved
    once for every source of frames, and the heap setup with its error paths.
  \<^item> \<open>User_Slice\<close> (\<^verbatim>\<open>syscall/mod.rs\<close>), \<open>Syscalls\<close> (\<^verbatim>\<open>syscall/{handler,io,process}.rs\<close>): a slice is accepted
    exactly when user code may access all of it; the result and the effect of every call.
  \<^item> \<open>Cpu\<close>, \<open>Entry\<close>, \<open>Userland\<close>: the instructions the assembly uses; the handler, the stubs and the entry to
    user mode as instruction lists; the user library and the program. A system call comes back with
    the program's registers, and the kernel stays ready through any session of user code.
  \<^item> \<open>Elf\<close> (\<^verbatim>\<open>elf/\<close>): selecting, relocating, mapping, copying and protecting segments: which pages are
    mapped with which flags, and that memory holds the bytes of the file.
  \<^item> \<open>Tasks\<close> (\<^verbatim>\<open>task/{mod,simple_executor,executor}.rs\<close>), \<open>Keyboard\<close> (\<^verbatim>\<open>task/keyboard.rs\<close>), \<open>Interrupts\<close>
    (\<^verbatim>\<open>interrupts.rs\<close>), \<open>Idle\<close>: the executors, the scancode stream, the handlers and their composition as a
    step relation with interrupts at any point where they are enabled. No wake-up is lost, the core
    never sleeps with work to do, scancodes arrive once and in order.
  \<^item> \<open>Refinement\<close>: the allocator refines a store of disjoint blocks, and the keyboard path a bounded queue; both
    through the locale \<open>simulation\<close> of the prelude.
  \<^item> \<open>Gdt\<close> (\<^verbatim>\<open>gdt.rs\<close>), \<open>Boot\<close> (\<^verbatim>\<open>main.rs\<close>, \<^verbatim>\<open>lib.rs\<close>): the tables and the whole boot sequence.
  \<^item> \<open>Exceptions\<close> (\<^verbatim>\<open>interrupts.rs\<close>): the delivery of exceptions by the processor through these tables, double
    faults included, and the handlers: no exception of a user program resets the machine, every page
    fault is reported, the breakpoint comes back.
  \<^item> \<open>Session\<close>: the booted kernel with a user program of which nothing is known: whatever it executes, it
    changes only what it may write, and the kernel stays ready for its next call.
  \<^item> \<open>Testing\<close> (\<^verbatim>\<open>serial.rs\<close>, \<^verbatim>\<open>lib.rs\<close>), \<open>Unit_Tests\<close>, \<open>Heap_Tests\<close>, \<open>Integration_Tests\<close>: the serial port, the test
    runner, and the tests themselves, with \<^verbatim>\<open>Box\<close> and \<^verbatim>\<open>Vec\<close> down to the bytes of the heap. The suites pass from
    every state they can start in, the stack overflow is always caught, and a panic is reported.
  \<^item> \<open>Build\<close> (\<^verbatim>\<open>build.rs\<close>, \<^verbatim>\<open>CHILD_PROCESS\<close>): which bytes end up in the image, and at which alignment.
  \<^item> This theory puts the parts together: from the start of the machine to the output of the program.

  \<^bold>\<open>Conventions.\<close> A Rust call is a function into \<open>outcome\<close>: a value, a panic, no return, the end of
  the emulator with a code, or undefined behaviour. The flag \<open>oc\<close> says whether overflow checks are compiled in. Code of other crates (page
  tables, descriptor tables, queues, locks, the ELF reader, the keyboard decoder, the serial port) is
  a record of functions that the definitions take as an argument; predicates named \<open>*_docs\<close> state what
  its documentation promises, and concrete instances show that they can hold. Globals behind locks
  are fields of the state; a lock that is taken again on the same core makes the call diverge.

  \<^bold>\<open>Bounds.\<close> There is no fuel: loops are structural recursion, recursion with a termination proof, or,
  for what may run forever (the executors, the recursion of the stack overflow test, nested page
  faults), \<open>partial_function (option)\<close>, with theorems about when they return. Booting needs 116 frames and four for every page of the program: 25 pages of
  heap and 4 of stack, each with at most three page tables on the way. The queues have the 128
  entries the source gives them. A test of the heap is given 32000 bytes, twice the memory its vector uses
  at most, so that the three of them fit in the heap in any order.

  \<^bold>\<open>Idealisations.\<close> Each operation of the lock-free queue, the waker and the once cell is one step, as
  their crates promise. Memory is seen in two ways, which are not connected: the stacks and the
  thread data the assembly touches are 8-byte cells, and what page tables map is bytes of physical
  memory; user code cannot reach the former because the pages are not mapped for it.

  \<^bold>\<open>Not modelled.\<close> The crates themselves, and the functions that \<^verbatim>\<open>custom_test_frameworks\<close> generates; \<^verbatim>\<open>cargo\<close>
  and \<^verbatim>\<open>cp\<close>, which the build script runs; \<^verbatim>\<open>process/mod.rs\<close>, an empty structure that is not part of the build. The
  panic handlers of the test kernels are calls of \<^verbatim>\<open>test_panic_handler\<close>.
\<close>

section \<open>From power-on to the output of the program\<close>

text \<open>The text of the program is in its image, in pages a user program may read.\<close>

definition text_in_image :: "('pt, 'z, 'g, 't) boot_platform \<Rightarrow> ElfFile \<Rightarrow> (Page \<times> PageTableFlags) list \<Rightarrow> u64 \<Rightarrow> bool" where
  "text_in_image M elf ps s \<longleftrightarrow> range_in_half s 10 \<and>
     (\<forall>i < 10. image_byte (p_child_process M) (segments elf) (s + word_of_nat i) = Some (Test_print ! i) \<and>
       USER_ACCESSIBLE \<in> the (map_of ps (align_down_4k (s + word_of_nat i))))"

lemma image_text_readable:
  assumes "platform_docs M slots entry" and "program_ok oc M boot_info elf ps" and "booted M elf ps k rsp c"
    and "text_in_image M elf ps s"
  shows "user_range (p_paging M) (page_tbl (vmem (ksys c))) ReadOnly s 10"
    and "user_bytes (p_paging M) (vmem (ksys c)) s 10 = Test_print"
proof -
  let ?X = "p_paging M" and ?m = "vmem (ksys c)"
  note d = platform_docsD [OF assms(1)]
  have p: "load_plan oc ?X (p_elf M) (p_child_process M) = Ret (elf, ps)"
    "\<forall>s \<in> set (segments elf). low_segment s \<and> seg_file_ok (p_child_process M) s"
    using assms(2) by (simp_all add: program_ok_def)
  have t: "range_in_half s 10" "\<And>i. i < 10 \<Longrightarrow> image_byte (p_child_process M) (segments elf) (s + word_of_nat i) = Some (Test_print ! i)"
    "\<And>i. i < 10 \<Longrightarrow> USER_ACCESSIBLE \<in> the (map_of ps (align_down_4k (s + word_of_nat i)))"
    using assms(4) by (simp_all add: text_in_image_def)
  have b: "\<exists>f. pt_translate ?X (page_tbl ?m) a = Mapped f (a - align_down_4k a) (the (map_of ps (align_down_4k a)))"
    "vread ?X ?m a = Ret v" if "image_byte (p_child_process M) (segments elf) a = Some v" for a v
    using assms(3) image_byte_page [OF d(1,2) p that] that by (simp_all add: booted_def)
  show "user_range ?X (page_tbl ?m) ReadOnly s 10"
    unfolding user_range_def
  proof (intro allI impI, elim conjE)
    fix x :: u64 assume x: "unat s \<le> unat x" "unat x < unat s + unat (10 :: usize)"
    define i where "i = unat x - unat s"
    have i: "i < 10" "x = s + word_of_nat i" using x by (simp_all add: i_def of_nat_diff)
    show "user_may ?X (page_tbl ?m) ReadOnly x"
      using b(1) [OF t(2) [OF i(1)]] t(3) [OF i(1)] unfolding i(2) by (auto simp: user_may_def)
  qed
  have "byte_at ?X ?m (s + word_of_nat i) = Test_print ! i" if "i < 10" for i
    using b [OF t(2) [OF that]] by (auto simp: byte_at_def vread_def)
  then show "user_bytes ?X ?m s 10 = Test_print"
    by (intro nth_equalityI) (simp_all add: user_bytes_def Test_print_def str_def)
qed

text \<open>A program file with the text, for examples.\<close>

definition hello_elf :: elf_api where
  "hello_elf = demo_elf\<lparr>program_headers := (\<lambda>_. Some [
     \<lparr>p_type = 1, p_flags = 5, p_offset = 0, p_vaddr = 0x201000, p_filesz = 10, p_memsz = 10, p_align = 4096\<rparr>])\<rparr>"

definition hello_file :: ElfFile where
  "hello_file = \<lparr>segments = [\<lparr>ty = Load, seg_align = 4096, seg_flags = {PRESENT, USER_ACCESSIBLE}, file_range = (0, 10),
     addr = \<lparr>vstart = 0x660000, vlen = 10, original_start = 0x201000\<rparr>\<rparr>], entry_point = 0x660000\<rparr>"

abbreviation hello_pages :: "(Page \<times> PageTableFlags) list" where
  "hello_pages \<equiv> [(0x660000, {PRESENT, USER_ACCESSIBLE})]"

abbreviation hello_platform :: "(Page \<rightharpoonup> PhysFrame \<times> PageTableFlags, unit, Descriptor option list, nat \<Rightarrow> (handler \<times> nat option) option) boot_platform" where
  "hello_platform \<equiv> demo_platform\<lparr>p_elf := hello_elf, p_child_process := Test_print\<rparr>"

lemma hello_plan: "load_plan True boot_paging hello_elf Test_print = Ret (hello_file, hello_pages)"
  by (simp add: load_plan_def hello_elf_def demo_elf_def hello_file_def ElfSegmentType_try_from_def all_types_def
      parse_segment_flags_def Let_def std_paging_def std_try_new_def canonical_def add_chk_def default_text_addr_def
      LOAD_TEXT_SECTION_AT_def i64_sub_def i64_add_def i64_fits_def ElfFile_remap_def VirtualMapDestination_remap_def
      pages_def align_down_4k_def pages_from_def page_at_def) auto

lemma hello_ok: "platform_docs hello_platform (\<lambda>g. g) (\<lambda>t. t)" "platform_ok hello_platform demo_boot_info"
    "program_ok True hello_platform demo_boot_info hello_file hello_pages"
    "memory_ok hello_platform demo_boot_info (116 + 4 * length hello_pages)"
proof -
  show "platform_docs hello_platform (\<lambda>g. g) (\<lambda>t. t)" "platform_ok hello_platform demo_boot_info"
    using demo_platform_docs demo_platform_ok by (simp_all add: platform_docs_def platform_ok_def)
  show "program_ok True hello_platform demo_boot_info hello_file hello_pages"
    using hello_plan
    by (simp add: program_ok_def demo_platform_def boot_table_def is_mapped_def std_translate_def)
       (simp add: hello_file_def in_heap_unat in_stack_unat low_segment_def seg_file_ok_def Test_print_def str_def)
  show "memory_ok hello_platform demo_boot_info (116 + 4 * length hello_pages)"
    by (simp add: memory_ok_def demo_platform_def demo_boot_info_def big_map_pending)
qed

lemma hello_text: "text_in_image hello_platform hello_file hello_pages 0x660000"
proof -
  have u: "unat (word_of_nat i :: u64) = i" "align_down_4k (0x660000 + word_of_nat i) = 0x660000" if "i < 10" for i
  proof -
    show i: "unat (word_of_nat i :: u64) = i" using that unat_word_of_nat64 [of i] by simp
    have "unat (0x660000 + word_of_nat i :: u64) div 4096 = 0x660" using that unat_add_fits [of "0x660000 :: u64" "word_of_nat i"] i by simp
    then show "align_down_4k (0x660000 + word_of_nat i) = 0x660000" by (simp add: align_down_4k_def)
  qed
  then show ?thesis
    by (simp add: text_in_image_def range_in_half_def hello_file_def seg_byte_def demo_platform_def)
qed

text \<open>C1. The system as a whole: on a platform that behaves as documented, with enough memory and with a
  kernel stack apart from the heap and the user stack, \<^verbatim>\<open>_start\<close> boots into the user program at its
  entry point. The program's call of \<^verbatim>\<open>write\<close> returns 10 to the instruction after it with the
  preserved registers as they were; the last row of the screen then shows the text \<^verbatim>\<open>Test print\<close>,
  padded with blanks, and the kernel has changed nothing but the screen. The program as a whole ends
  in the exit call, which does not return.\<close>

theorem system_runs:
  assumes "platform_docs M slots entry" and "platform_ok M boot_info" and "program_ok oc M boot_info elf ps"
    and "memory_ok M boot_info (116 + 4 * length ps)"
    and "env_docs (p_paging M) I L" and "writer_ok (WRITER (ksys c))"
    and "\<not> writer_locked (ksys c)"
    and "layout HEAP_START lo (regs c RSP)" and "unat (regs c RSP) \<le> 0xDEADB000 \<or> 0xDEADF000 \<le> unat lo"
    and "text_in_image M elf ps s"
  shows "\<exists>c0 c1. kernel_start oc M (kernel_functions oc (p_paging M) I L lo jr jm) boot_info c = Ret c0 \<and> rip c0 = entry_point elf \<and> cpl c0 = 3 \<and>
    user_write (kernel_functions oc (p_paging M) I L lo jr jm) n3 r 0 (s, word_of_nat (length Test_print)) c0 = Ret c1 \<and>
    regs c1 RAX = 10 \<and> rip c1 = r \<and> (\<forall>q \<in> callee_saved. regs c1 q = regs c0 q) \<and>
    ksys c1 = (ksys c0)\<lparr>WRITER := WRITER (ksys c1)\<rparr> \<and>
    map ascii_character (last (buffer (WRITER (ksys c1)))) = Test_print @ replicate 70 0x20 \<and>
    user_start (kernel_functions oc (p_paging M) I L lo jr jm) n3 n1 s r r2 c0 = (Diverge :: 'r outcome)"
proof -
  let ?K = "kernel_functions oc (p_paging M) I L lo jr jm"
  obtain c0 where c0: "kernel_start oc M ?K boot_info c = Ret c0" "booted M elf ps (ksys c) (regs c RSP) c0"
    using start_booted [OF assms(1-4)] by blast
  then have b: "user_ready HEAP_START (regs c RSP) c0" "regs c0 RSP = 0xDEADF000" "rip c0 = entry_point elf"
    "ksys c0 = (ksys c)\<lparr>vmem := vmem (ksys c0), mapper_ready := True\<rparr>" by (simp_all add: booted_def)
  have w: "WRITER (ksys c0) = WRITER (ksys c)" "writer_locked (ksys c0) = writer_locked (ksys c)" "mapper_ready (ksys c0)"
    by (subst b(4), simp)+
  then have k: "kernel_ok (ksys c0)" using assms(6,7) by (simp add: kernel_ok_def)
  have sp: "user_stack_ok HEAP_START lo (regs c RSP) (regs c0 RSP)"
    using assms(9) unfolding b(2)
    by (auto simp: user_stack_ok_def kernel_cell_def HEAP_START_def word_le_nat_alt word_less_nat_alt)
  have h: "range_in_half s 10" using assms(10) by (simp add: text_in_image_def)
  note u = program_runs [OF assms(5,8) b(1) k sp h image_text_readable [OF assms(1,3) c0(2) assms(10)],
      where oc = oc and jr = jr and jm = jm]
  obtain c1 where c1: "user_write ?K n3 r 0 (s, word_of_nat (length Test_print)) c0 = Ret c1"
    "regs c1 RAX = 10" "rip c1 = r" "\<forall>q \<in> callee_saved. regs c1 q = regs c0 q"
    "ksys c1 = printed (str ''write'' @ [0x0a] @ Test_print) (ksys c0)"
    and e: "user_start ?K n3 n1 s r r2 c0 = (Diverge :: 'r outcome)" using u by blast
  have "0x0a \<notin> set Test_print" "length Test_print = 10" by (simp_all add: Test_print_def str_def)
  then have "map ascii_character (last (buffer (WRITER (ksys c1)))) = Test_print @ replicate 70 0x20"
    using current_line_shown [of "fold byte_written (str ''write'') (WRITER (ksys c))" Test_print] assms(6) w(1)
    by (simp add: c1(5) printed_def fold_writer_ok byte_written_def [of "0x0a"])
  moreover have "ksys c1 = (ksys c0)\<lparr>WRITER := WRITER (ksys c1)\<rparr>" by (simp add: c1(5) printed_def)
  moreover have "cpl c0 = 3" using b(1) by (simp add: user_ready_def)
  ultimately show ?thesis using c0(1) b(3) c1(1-4) e by blast
qed

theorem system_runs_witness:
  "\<exists>c0 c1. kernel_start True hello_platform (kernel_functions True boot_paging std_irq std_lock 0x10000 (\<lambda>_ _. 0) (\<lambda>_ _. 0))
      demo_boot_info demo_boot_cpu = Ret c0 \<and> rip c0 = 0x660000 \<and>
    user_write (kernel_functions True boot_paging std_irq std_lock 0x10000 (\<lambda>_ _. 0) (\<lambda>_ _. 0)) 0x660020 0x660060 0
      (0x660000, word_of_nat (length Test_print)) c0 = Ret c1 \<and>
    map ascii_character (last (buffer (WRITER (ksys c1)))) = Test_print @ replicate 70 0x20"
proof -
  have X: "p_paging hello_platform = boot_paging" "entry_point hello_file = 0x660000"
    by (simp_all add: demo_platform_def hello_file_def)
  have d: "env_docs (p_paging hello_platform) std_irq std_lock" "writer_ok (WRITER (ksys demo_boot_cpu))"
    "\<not> writer_locked (ksys demo_boot_cpu)" "layout HEAP_START 0x10000 (regs demo_boot_cpu RSP)"
    "unat (regs demo_boot_cpu RSP) \<le> 0xDEADB000 \<or> 0xDEADF000 \<le> unat (0x10000 :: u64)"
    using demo_env(1,2) demo_cpu_ready(1) by (simp_all add: X(1) demo_boot_cpu_def kernel_ok_def)
  from system_runs [OF hello_ok d hello_text] show ?thesis unfolding X by blast
qed

end
